(* ===== verification/Prelude.thy ===== *)
theory Prelude
  imports Main "HOL-Library.Char_ord" "HOL-Library.List_Lexorder" "HOL-Library.Word"
begin

text \<open>
  Shared ground of the development.

  \<^item> Go strings are byte sequences: \<open>string\<close> is a list of 8-bit characters, and the linear order
    of \<open>Char_ord\<close> and \<open>List_Lexorder\<close> is the byte-wise order of Go's \<open>strings.Compare\<close>.
  \<^item> A Go \<open>map[string]V\<close> is a \<open>'v gomap\<close>: an association list kept strictly sorted by key, so
    that two maps with the same entries are the same term. Go leaves the iteration order of a
    map open; the model iterates in key order.
  \<^item> The locale \<open>finite_map\<close> is the contract of such a map; every component that stores keys in
    a Go map rests on the facts of its interpretation \<open>gm\<close>.
\<close>

named_theorems gomap_simps "reading, writing and deleting keys of a Go map"

type_synonym 'v gomap = "(string \<times> 'v) list"

type_synonym int64 = "64 word"

type_synonym uint64 = "64 word"


section \<open>Go maps as sorted association lists\<close>

fun mput :: "string \<Rightarrow> 'v \<Rightarrow> 'v gomap \<Rightarrow> 'v gomap" where
  "mput k v [] = [(k, v)]"
| "mput k v ((k', v') # m) =
     (if k < k' then (k, v) # (k', v') # m
      else if k = k' then (k, v) # m
      else (k', v') # mput k v m)"

fun mdel :: "string \<Rightarrow> 'v gomap \<Rightarrow> 'v gomap" where
  "mdel k [] = []"
| "mdel k ((k', v') # m) = (if k = k' then m else (k', v') # mdel k m)"

definition mkeys :: "'v gomap \<Rightarrow> string list" where
  "mkeys m = map fst m"

definition mget :: "'v gomap \<Rightarrow> string \<Rightarrow> 'v option" where
  "mget m k = map_of m k"

definition mwf :: "'v gomap \<Rightarrow> bool" where
  "mwf m = sorted_wrt (<) (map fst m)"

definition mhas :: "'v gomap \<Rightarrow> string \<Rightarrow> bool" where
  "mhas m k = (mget m k \<noteq> None)"

text \<open>\<open>maps.Copy(dst, src)\<close>: every entry of the second map overwrites the first.\<close>

definition mcopy :: "'v gomap \<Rightarrow> 'v gomap \<Rightarrow> 'v gomap" where
  "mcopy dst src = fold (\<lambda>(k, v) m. mput k v m) src dst"

lemma mkeys_simps [simp]: "mkeys [] = []" "mkeys ((k, v) # m) = k # mkeys m"
  by (simp_all add: mkeys_def)

lemma mget_Nil [simp]: "mget [] k = None"
  by (simp add: mget_def)

lemma mget_Cons [simp]: "mget ((k', v) # m) k = (if k = k' then Some v else mget m k)"
  by (simp add: mget_def)

lemma mwf_Nil [simp]: "mwf []"
  by (simp add: mwf_def)

lemma mwf_Cons [simp]: "mwf ((k, v) # m) \<longleftrightarrow> (\<forall>k' \<in> set (mkeys m). k < k') \<and> mwf m"
  by (auto simp: mwf_def mkeys_def)

lemma mget_None_iff: "mget m k = None \<longleftrightarrow> k \<notin> set (mkeys m)"
  by (simp add: mget_def mkeys_def map_of_eq_None_iff)

lemma mhas_iff: "mhas m k \<longleftrightarrow> k \<in> set (mkeys m)"
  by (simp add: mhas_def mget_None_iff)

lemma mkeys_mput: "set (mkeys (mput k v m)) = insert k (set (mkeys m))"
  by (induction m) (auto split: if_splits)

lemma mwf_mput [simp]: "mwf m \<Longrightarrow> mwf (mput k v m)"
proof (induction m)
  case (Cons e m)
  obtain j w where e: "e = (j, w)" by force
  show ?case
  proof (cases k j rule: linorder_cases)
    case less
    with Cons.prems e show ?thesis by (auto dest: order.strict_trans)
  next
    case greater
    with Cons e show ?thesis by (auto simp: mkeys_mput)
  qed (use Cons.prems e in auto)
qed simp

lemma mget_mput: "mget (mput k v m) j = (if j = k then Some v else mget m j)"
  by (induction m) auto

lemma mkeys_mdelD: "j \<in> set (mkeys (mdel k m)) \<Longrightarrow> j \<in> set (mkeys m)"
  by (induction m) (auto split: if_splits)

lemma mwf_mdel [simp]: "mwf m \<Longrightarrow> mwf (mdel k m)"
proof (induction m)
  case (Cons e m)
  then show ?case by (cases e) (auto dest: mkeys_mdelD)
qed simp

lemma mget_mdel: "mwf m \<Longrightarrow> mget (mdel k m) j = (if j = k then None else mget m j)"
proof (induction m)
  case (Cons e m)
  obtain i w where e: "e = (i, w)" by force
  show ?case
  proof (cases "k = i")
    case True
    with Cons.prems e have "mget m k = None" by (auto simp: mget_None_iff)
    with True e show ?thesis by auto
  next
    case False
    with Cons e show ?thesis by auto
  qed
qed simp

lemma mwf_ext:
  assumes "mwf m" and "mwf n" and "\<And>k. mget m k = mget n k"
  shows "m = n"
  using assms
proof (induction m arbitrary: n)
  case Nil
  then show ?case by (cases n) (auto, metis option.discI)
next
  case (Cons e m)
  obtain k v where e: "e = (k, v)" by force
  from Cons.prems(3)[of k] e have "mget n k = Some v" by simp
  then obtain k' v' n' where n: "n = (k', v') # n'" by (cases n) auto
  have "k = k'"
  proof (rule ccontr)
    assume ne: "k \<noteq> k'"
    with \<open>mget n k = Some v\<close> n have "k \<in> set (mkeys n')"
      by (metis mget_Cons mget_None_iff option.discI)
    with Cons.prems(2) n have lt: "k' < k" by auto
    from Cons.prems(3)[of k'] n have "mget (e # m) k' = Some v'" by simp
    with e ne have "k' \<in> set (mkeys m)" by (metis mget_Cons mget_None_iff option.discI)
    with Cons.prems(1) e lt show False by auto
  qed
  moreover have "v = v'" using \<open>mget n k = Some v\<close> n calculation by simp
  moreover have "m = n'"
  proof (rule Cons.IH)
    show "mwf m" "mwf n'" using Cons.prems n e by auto
    fix j
    show "mget m j = mget n' j"
    proof (cases "j = k")
      case True
      then have "j \<notin> set (mkeys m)" "j \<notin> set (mkeys n')"
        using Cons.prems(1,2) e n calculation(1) by auto
      then show ?thesis by (metis mget_None_iff)
    next
      case False
      then show ?thesis using Cons.prems(3)[of j] e n calculation(1) by simp
    qed
  qed
  ultimately show ?case using e n by simp
qed


section \<open>The contract of a Go map\<close>

text \<open>
  What the components rely on when they keep keys in a map: what a lookup returns after a write
  or a delete, and that a map is determined by its lookups. The rollback law is what every
  transactional write of the registry rests on: putting back the entry captured before a write
  (or deleting it when there was none) gives the map back.
\<close>

locale finite_map =
  fixes empty :: "'m"
    and put :: "'k \<Rightarrow> 'v \<Rightarrow> 'm \<Rightarrow> 'm"
    and del :: "'k \<Rightarrow> 'm \<Rightarrow> 'm"
    and lookup :: "'m \<Rightarrow> 'k \<Rightarrow> 'v option"
    and wf :: "'m \<Rightarrow> bool"
  assumes wf_empty: "wf empty"
    and wf_put: "wf m \<Longrightarrow> wf (put k v m)"
    and wf_del: "wf m \<Longrightarrow> wf (del k m)"
    and lookup_empty: "lookup empty k = None"
    and lookup_put: "wf m \<Longrightarrow> lookup (put k v m) j = (if j = k then Some v else lookup m j)"
    and lookup_del: "wf m \<Longrightarrow> lookup (del k m) j = (if j = k then None else lookup m j)"
    and ext: "wf m \<Longrightarrow> wf n \<Longrightarrow> (\<And>k. lookup m k = lookup n k) \<Longrightarrow> m = n"
begin

lemma put_put: "wf m \<Longrightarrow> put k v (put k w m) = put k v m"
  by (rule ext) (auto simp: wf_put lookup_put)

lemma put_lookup: "wf m \<Longrightarrow> lookup m k = Some v \<Longrightarrow> put k v m = m"
  by (rule ext) (auto simp: wf_put lookup_put)

lemma del_absent: "wf m \<Longrightarrow> lookup m k = None \<Longrightarrow> del k m = m"
  by (rule ext) (auto simp: wf_del lookup_del)

lemma del_put: "wf m \<Longrightarrow> lookup m k = None \<Longrightarrow> del k (put k v m) = m"
  by (rule ext) (auto simp: wf_put wf_del lookup_put lookup_del)

lemma put_del: "wf m \<Longrightarrow> lookup m k = Some v \<Longrightarrow> put k v (del k m) = m"
  by (rule ext) (auto simp: wf_put wf_del lookup_put lookup_del)

lemma put_commute: "wf m \<Longrightarrow> j \<noteq> k \<Longrightarrow> put j v (put k w m) = put k w (put j v m)"
  by (rule ext) (auto simp: wf_put lookup_put)

end

interpretation gm: finite_map "[]" mput mdel mget "mwf :: 'v gomap \<Rightarrow> bool"
  by unfold_locales (auto simp: mget_mput mget_mdel intro: mwf_ext)

lemmas gomap_laws [gomap_simps] = mget_mput mget_mdel gm.put_put gm.put_lookup gm.del_absent
  gm.del_put gm.put_del

lemma mwf_distinct: "mwf m \<Longrightarrow> distinct (mkeys m)"
  by (simp add: mwf_def mkeys_def strict_sorted_iff)

lemma mwf_sorted: "mwf m \<Longrightarrow> sorted (mkeys m)"
  by (simp add: mwf_def mkeys_def strict_sorted_iff)

lemma mget_in_set: "mget m k = Some v \<Longrightarrow> (k, v) \<in> set m"
  by (simp add: mget_def map_of_SomeD)

lemma mwf_mget_iff: "mwf m \<Longrightarrow> mget m k = Some v \<longleftrightarrow> (k, v) \<in> set m"
  using mwf_distinct[of m] by (simp add: mget_def mkeys_def)

lemma mwf_mcopy [simp]: "mwf m \<Longrightarrow> mwf (mcopy m n)"
  unfolding mcopy_def by (induction n arbitrary: m) auto

lemma mget_mcopy:
  "mwf n \<Longrightarrow> mget (mcopy m n) k = (case mget n k of Some v \<Rightarrow> Some v | None \<Rightarrow> mget m k)"
proof (induction n arbitrary: m)
  case Nil
  then show ?case by (simp add: mcopy_def)
next
  case (Cons e n)
  obtain j w where e: "e = (j, w)" by force
  have step: "mcopy m (e # n) = mcopy (mput j w m) n" by (simp add: mcopy_def e)
  show ?case
  proof (cases "k = j")
    case True
    with Cons.prems e have "mget n k = None" by (auto simp: mget_None_iff)
    with True show ?thesis using Cons e step by (simp add: mget_mput)
  next
    case False
    then show ?thesis using Cons e step by (auto simp: mget_mput split: option.splits)
  qed
qed


lemma find_append: "List.find P (xs @ ys) = (case List.find P xs of Some x \<Rightarrow> Some x | None \<Rightarrow> List.find P ys)"
  by (induction xs) auto

section \<open>Copies made on the first change\<close>

text \<open>
  The loops that clone a map or a slice when the first element changes; \<open>g\<close> gives the element it becomes
  and whether it changed, and without a change there is no copy.
\<close>

definition cowMap :: "('v \<Rightarrow> 'v \<times> bool) \<Rightarrow> 'v gomap \<Rightarrow> 'v gomap option" where
  "cowMap g m =
     (let changes = filter (\<lambda>(k, r). snd r) (map (\<lambda>(k, e). (k, g e)) m)
      in if changes = [] then None else Some (fold (\<lambda>(k, r) cp. mput k (fst r) cp) changes m))"

definition cowList :: "('v \<Rightarrow> 'v \<times> bool) \<Rightarrow> 'v list \<Rightarrow> 'v list option" where
  "cowList g xs =
     (let changes = filter (\<lambda>(i, r). snd r) (enumerate 0 (map g xs))
      in if changes = [] then None else Some (fold (\<lambda>(i, r) cp. cp[i := fst r]) changes xs))"

lemma cowMap_cong [fundef_cong]:
  assumes "m = m'" and "\<And>k e. (k, e) \<in> set m' \<Longrightarrow> g e = h e"
  shows "cowMap g m = cowMap h m'"
proof -
  have same: "map (\<lambda>(k, e). (k, g e)) m' = map (\<lambda>(k, e). (k, h e)) m'" using assms by auto
  show ?thesis unfolding cowMap_def assms(1) same ..
qed

lemma cowList_cong [fundef_cong]:
  assumes "xs = xs'" and "\<And>e. e \<in> set xs' \<Longrightarrow> g e = h e"
  shows "cowList g xs = cowList h xs'"
proof -
  have same: "map g xs' = map h xs'" using assms by auto
  show ?thesis unfolding cowList_def assms(1) same ..
qed

lemma fold_mput_skip:
  "\<forall>(k, r) \<in> set changes. j < k \<Longrightarrow>
   fold (\<lambda>(k, r) cp. mput k (f r) cp) changes ((j, w) # m) = (j, w) # fold (\<lambda>(k, r) cp. mput k (f r) cp) changes m"
  by (induction changes arbitrary: m) (auto dest: order.asym)

lemma cowMap_writes:
  "mwf m \<Longrightarrow> fold (\<lambda>(k, r) cp. mput k (fst r) cp) (filter (\<lambda>(k, r). snd r) (map (\<lambda>(k, e). (k, g e)) m)) m
   = map (\<lambda>(k, e). (k, if snd (g e) then fst (g e) else e)) m"
proof (induction m)
  case (Cons e m)
  obtain j w where e: "e = (j, w)" by force
  have "\<forall>(k, r) \<in> set (filter (\<lambda>(k, r). snd r) (map (\<lambda>(k, e). (k, g e)) m)). j < k"
    using Cons(2) e by (force simp: mkeys_def)
  from fold_mput_skip[OF this, of fst] show ?case using Cons e by simp
qed simp

lemma cowMap_map:
  "mwf m \<Longrightarrow> cowMap g m =
     (if \<exists>(k, e) \<in> set m. snd (g e) then Some (map (\<lambda>(k, e). (k, if snd (g e) then fst (g e) else e)) m) else None)"
  using cowMap_writes[of m g] by (force simp: cowMap_def Let_def filter_empty_conv)

lemma cowList_writes:
  "fold (\<lambda>(i, r) cp. cp[i := fst r]) (filter (\<lambda>(i, r). snd r) (enumerate (length ys) (map g xs))) (ys @ xs)
   = ys @ map (\<lambda>e. if snd (g e) then fst (g e) else e) xs"
proof (induction xs arbitrary: ys)
  case (Cons x xs)
  from Cons[of "ys @ [if snd (g x) then fst (g x) else x]"] show ?case by (simp split: if_splits)
qed simp

lemma cowList_map:
  "cowList g xs =
     (if \<exists>e \<in> set xs. snd (g e) then Some (map (\<lambda>e. if snd (g e) then fst (g e) else e) xs) else None)"
proof -
  have "filter (\<lambda>(i, r). snd r) (enumerate n (map g xs)) = [] \<longleftrightarrow> (\<forall>e \<in> set xs. \<not> snd (g e))" for n
    by (induction xs arbitrary: n) auto
  then show ?thesis using cowList_writes[of "[]" g xs] by (simp add: cowList_def Let_def)
qed


section \<open>Channels that drop\<close>

text \<open>
  A bounded channel whose sender does not wait: what does not fit is counted, and the next element
  that fits is marked with the count.
\<close>

locale lossy_channel =
  fixes send :: "'e \<Rightarrow> 's \<Rightarrow> 's"
    and queue :: "'s \<Rightarrow> 'e list"
    and dropped :: "'s \<Rightarrow> nat"
    and room :: "'s \<Rightarrow> bool"
    and mark :: "nat \<Rightarrow> 'e \<Rightarrow> 'e"
  assumes send_room: "room s \<Longrightarrow> queue (send e s) = queue s @ [mark (dropped s) e] \<and> dropped (send e s) = 0"
    and send_full: "\<not> room s \<Longrightarrow> queue (send e s) = queue s \<and> dropped (send e s) = Suc (dropped s)"
begin

lemma queue_kept: "set (queue s) \<subseteq> set (queue (send e s))"
  using send_room[of s e] send_full[of s e] by (cases "room s") auto

lemma queued_or_counted: "mark (dropped s) e \<in> set (queue (send e s)) \<or> dropped (send e s) = Suc (dropped s)"
  using send_room[of s e] send_full[of s e] by (cases "room s") auto

lemma in_queue: "x \<in> set (queue (send e s)) \<Longrightarrow> x \<in> set (queue s) \<or> x = mark (dropped s) e"
  using send_room[of s e] send_full[of s e] by (cases "room s") auto

end

end
