(* ===== verification/GoStrings.thy ===== *)
theory GoStrings
  imports Prelude
begin

text \<open>
  The functions of Go's \<open>strings\<close> package that recon calls, on byte strings, with the laws the
  components use: \<open>HasPrefix\<close>, \<open>TrimPrefix\<close>, \<open>CutPrefix\<close>, \<open>Cut\<close>, \<open>Split\<close>, \<open>Join\<close>,
  \<open>ReplaceAll\<close>, and \<open>ToUpper\<close> and \<open>ToLower\<close> on ASCII. A separator is never empty in recon's
  calls; \<open>split\<close> and \<open>replaceAll\<close> return their input for an empty one.
\<close>

fun hasPrefix :: "string \<Rightarrow> string \<Rightarrow> bool" where
  "hasPrefix s [] = True"
| "hasPrefix [] (p # ps) = False"
| "hasPrefix (c # s) (p # ps) = (c = p \<and> hasPrefix s ps)"

definition trimPrefix :: "string \<Rightarrow> string \<Rightarrow> string" where
  "trimPrefix s p = (if hasPrefix s p then drop (length p) s else s)"

definition cutPrefix :: "string \<Rightarrow> string \<Rightarrow> string option" where
  "cutPrefix s p = (if hasPrefix s p then Some (drop (length p) s) else None)"

text \<open>\<open>strings.Cut\<close>: the text around the first instance of the separator.\<close>

fun cutStr :: "string \<Rightarrow> string \<Rightarrow> (string \<times> string) option" where
  "cutStr [] sep = (if sep = [] then Some ([], []) else None)"
| "cutStr (c # s) sep =
     (if hasPrefix (c # s) sep then Some ([], drop (length sep) (c # s))
      else map_option (\<lambda>(b, a). (c # b, a)) (cutStr s sep))"

definition containsStr :: "string \<Rightarrow> string \<Rightarrow> bool" where
  "containsStr s sub = (cutStr s sub \<noteq> None)"

lemma hasPrefix_append [simp]: "hasPrefix (p @ s) p"
  by (induction p) auto

lemma hasPrefix_iff: "hasPrefix s p \<longleftrightarrow> (\<exists>r. s = p @ r)"
  by (induction s p rule: hasPrefix.induct) auto

lemma cutStr_Some: "cutStr s sep = Some (b, a) \<Longrightarrow> s = b @ sep @ a"
proof (induction s arbitrary: b)
  case Nil
  then show ?case by (auto split: if_splits)
next
  case (Cons c s)
  show ?case
  proof (cases "hasPrefix (c # s) sep")
    case True
    then have "c # s = sep @ drop (length sep) (c # s)"
      by (metis append_eq_conv_conj hasPrefix_iff)
    moreover have "b = []" "a = drop (length sep) (c # s)" using True Cons.prems by auto
    ultimately show ?thesis by simp
  next
    case False
    with Cons show ?thesis by auto
  qed
qed

lemma cutStr_shorter: "cutStr s sep = Some (b, a) \<Longrightarrow> sep \<noteq> [] \<Longrightarrow> length a < length s"
  by (drule cutStr_Some) auto

function split :: "string \<Rightarrow> string \<Rightarrow> string list" where
  "split s sep =
     (if sep = [] then [s]
      else case cutStr s sep of None \<Rightarrow> [s] | Some (b, a) \<Rightarrow> b # split a sep)"
  by pat_completeness auto
termination
  by (relation "measure (\<lambda>(s, sep). length s)") (auto simp: cutStr_shorter)

declare split.simps [simp del]

function replaceAll :: "string \<Rightarrow> string \<Rightarrow> string \<Rightarrow> string" where
  "replaceAll s old new =
     (if old = [] then s
      else case cutStr s old of None \<Rightarrow> s | Some (b, a) \<Rightarrow> b @ new @ replaceAll a old new)"
  by pat_completeness auto
termination
  by (relation "measure (\<lambda>(s, old, new). length s)") (auto simp: cutStr_shorter)

declare replaceAll.simps [simp del]

fun join :: "string list \<Rightarrow> string \<Rightarrow> string" where
  "join [] sep = []"
| "join [s] sep = s"
| "join (s # t # ss) sep = s @ sep @ join (t # ss) sep"

text \<open>\<open>strings.ToUpper\<close> and \<open>ToLower\<close> on a string of ASCII bytes.\<close>

definition upperByte :: "char \<Rightarrow> char" where
  "upperByte c = (if CHR ''a'' \<le> c \<and> c \<le> CHR ''z'' then char_of ((of_char c :: nat) - 32) else c)"

definition lowerByte :: "char \<Rightarrow> char" where
  "lowerByte c = (if CHR ''A'' \<le> c \<and> c \<le> CHR ''Z'' then char_of ((of_char c :: nat) + 32) else c)"

definition isASCII :: "string \<Rightarrow> bool" where
  "isASCII s = (\<forall>c \<in> set s. (of_char c :: nat) < 128)"


section \<open>Splitting at one byte\<close>

lemma cutStr_byte_Cons:
  "cutStr (c # s) [d] = (if c = d then Some ([], s)
     else map_option (\<lambda>(b, a). (c # b, a)) (cutStr s [d]))"
  by simp

lemma split_byte_Nil [simp]: "split [] [d] = [[]]"
  by (subst split.simps) simp

lemma split_byte_Cons:
  "split (c # s) [d] =
     (if c = d then [] # split s [d]
      else case split s [d] of [] \<Rightarrow> [[c]] | t # ts \<Rightarrow> (c # t) # ts)"
  by (subst split.simps, subst (3) split.simps)
    (auto split: option.splits simp: split.simps[of s "[d]"])

lemma split_byte_nonempty [simp]: "split s [d] \<noteq> []"
  by (subst split.simps) (auto split: option.splits)

lemma split_byte_none: "d \<notin> set s \<Longrightarrow> split s [d] = [s]"
  by (induction s) (auto simp: split_byte_Cons)

lemma split_byte_append: "d \<notin> set s \<Longrightarrow> split (s @ d # r) [d] = s # split r [d]"
  by (induction s) (auto simp: split_byte_Cons)

lemma join_Cons: "ss \<noteq> [] \<Longrightarrow> join (s # ss) sep = s @ sep @ join ss sep"
  by (cases ss) auto

lemma split_join_byte:
  "ss \<noteq> [] \<Longrightarrow> \<forall>s \<in> set ss. d \<notin> set s \<Longrightarrow> split (join ss [d]) [d] = ss"
proof (induction ss)
  case (Cons s ss)
  show ?case
  proof (cases "ss = []")
    case True
    with Cons.prems show ?thesis by (simp add: split_byte_none)
  next
    case False
    with Cons show ?thesis by (simp add: join_Cons split_byte_append)
  qed
qed simp

lemma join_split_byte: "join (split s [d]) [d] = s"
proof (induction s)
  case (Cons c s)
  obtain t ts where t: "split s [d] = t # ts" by (meson split_byte_nonempty neq_Nil_conv)
  with Cons show ?case by (cases ts) (auto simp: split_byte_Cons)
qed simp

lemma set_split_byte: "t \<in> set (split s [d]) \<Longrightarrow> d \<notin> set t"
proof (induction s arbitrary: t)
  case (Cons c s)
  obtain u us where u: "split s [d] = u # us" by (meson split_byte_nonempty neq_Nil_conv)
  with Cons show ?case by (auto simp: split_byte_Cons split: if_splits)
qed simp

lemma in_set_join_subset: "t \<in> set ts \<Longrightarrow> set t \<subseteq> set (join ts sep)"
  by (induction ts sep rule: join.induct) auto

lemma join_no_byte: "d \<notin> set sep \<Longrightarrow> \<forall>s \<in> set ss. d \<notin> set s \<Longrightarrow> d \<notin> set (join ss sep)"
  by (induction ss sep rule: join.induct) auto

end
