(* ===== verification/GoStrconv.thy ===== *)
theory GoStrconv
  imports GoStrings
begin

text \<open>
  The parts of \<open>strconv\<close> recon's integers go through: \<open>ParseUint\<close> and \<open>ParseInt\<close> in base 10
  with 64 bits, in base 0 (with the prefixes and underscores of Go's integer literals), and
  \<open>FormatUint\<close> and \<open>FormatInt\<close>. A parse error is \<open>None\<close>; its text matters only in messages.
\<close>

definition isDigit :: "char \<Rightarrow> bool" where
  "isDigit c = (CHR ''0'' \<le> c \<and> c \<le> CHR ''9'')"

definition digitVal :: "char \<Rightarrow> nat" where
  "digitVal c = of_char c - 48"

definition digitChar :: "nat \<Rightarrow> char" where
  "digitChar d = char_of (48 + d)"

fun decVal :: "nat \<Rightarrow> string \<Rightarrow> nat option" where
  "decVal n [] = Some n"
| "decVal n (c # s) = (if isDigit c then decVal (10 * n + digitVal c) s else None)"

definition parseUint10 :: "string \<Rightarrow> uint64 option" where
  "parseUint10 s =
     (if s = [] then None
      else case decVal 0 s of
             None \<Rightarrow> None
           | Some n \<Rightarrow> if n < 2 ^ 64 then Some (of_nat n) else None)"

definition parseInt10 :: "string \<Rightarrow> int64 option" where
  "parseInt10 s =
     (let (neg, t) = (case s of [] \<Rightarrow> (False, s)
                      | c # t \<Rightarrow> if c = CHR ''-'' then (True, t)
                                 else if c = CHR ''+'' then (False, t) else (False, s))
      in case parseUint10 t of
           None \<Rightarrow> None
         | Some u \<Rightarrow>
             if \<not> neg \<and> 2 ^ 63 \<le> unat u then None
             else if neg \<and> 2 ^ 63 < unat u then None
             else Some (if neg then - u else u))"

text \<open>
  \<open>strconv.underscoreOK\<close>: the loop carries the class of the last character seen (\<open>^\<close> the
  beginning, \<open>0\<close> a digit, \<open>_\<close> an underscore, \<open>!\<close> anything else).
\<close>

fun underscoreLoop :: "bool \<Rightarrow> char \<Rightarrow> string \<Rightarrow> bool" where
  "underscoreLoop hex saw [] = (saw \<noteq> CHR ''_'')"
| "underscoreLoop hex saw (c # s) =
     (if isDigit c \<or> (hex \<and> CHR ''a'' \<le> lowerByte c \<and> lowerByte c \<le> CHR ''f'')
      then underscoreLoop hex (CHR ''0'') s
      else if c = CHR ''_'' then saw = CHR ''0'' \<and> underscoreLoop hex (CHR ''_'') s
      else if saw = CHR ''_'' then False
      else underscoreLoop hex (CHR ''!'') s)"

definition underscoreOK :: "string \<Rightarrow> bool" where
  "underscoreOK s0 =
     (let s = (case s0 of [] \<Rightarrow> s0 | c # t \<Rightarrow> if c = CHR ''-'' \<or> c = CHR ''+'' then t else s0)
      in case s of
           z # b # t \<Rightarrow>
             if z = CHR ''0'' \<and> lowerByte b \<in> {CHR ''b'', CHR ''o'', CHR ''x''}
             then underscoreLoop (lowerByte b = CHR ''x'') (CHR ''0'') t
             else underscoreLoop False (CHR ''^'') s
         | _ \<Rightarrow> underscoreLoop False (CHR ''^'') s)"

definition digitOf :: "char \<Rightarrow> nat option" where
  "digitOf c =
     (if isDigit c then Some (digitVal c)
      else if CHR ''a'' \<le> lowerByte c \<and> lowerByte c \<le> CHR ''z''
      then Some (of_char (lowerByte c) - 97 + 10) else None)"

fun baseVal :: "nat \<Rightarrow> nat \<Rightarrow> string \<Rightarrow> nat option" where
  "baseVal base n [] = Some n"
| "baseVal base n (c # s) =
     (if c = CHR ''_'' then baseVal base n s
      else case digitOf c of
             None \<Rightarrow> None
           | Some d \<Rightarrow> if d < base then baseVal base (base * n + d) s else None)"

text \<open>The base and digits \<open>ParseUint\<close> reads after an optional prefix, for base 0.\<close>

definition splitBase :: "string \<Rightarrow> nat \<times> string" where
  "splitBase s =
     (case s of
        [] \<Rightarrow> (10, s)
      | z # t \<Rightarrow>
          if z \<noteq> CHR ''0'' then (10, s)
          else case t of
                 b # c # r \<Rightarrow>
                   if lowerByte b = CHR ''b'' then (2, c # r)
                   else if lowerByte b = CHR ''o'' then (8, c # r)
                   else if lowerByte b = CHR ''x'' then (16, c # r)
                   else (8, t)
               | _ \<Rightarrow> (8, t))"

definition parseUint0 :: "string \<Rightarrow> uint64 option" where
  "parseUint0 s =
     (if s = [] then None
      else let (base, t) = splitBase s
           in case baseVal base 0 t of
                None \<Rightarrow> None
              | Some n \<Rightarrow>
                  if n < 2 ^ 64 \<and> (CHR ''_'' \<in> set t \<longrightarrow> underscoreOK s) then Some (of_nat n)
                  else None)"

definition parseInt0 :: "string \<Rightarrow> int64 option" where
  "parseInt0 s =
     (let (neg, t) = (case s of [] \<Rightarrow> (False, s)
                      | c # t \<Rightarrow> if c = CHR ''-'' then (True, t)
                                 else if c = CHR ''+'' then (False, t) else (False, s))
      in case parseUint0 t of
           None \<Rightarrow> None
         | Some u \<Rightarrow>
             if \<not> neg \<and> 2 ^ 63 \<le> unat u then None
             else if neg \<and> 2 ^ 63 < unat u then None
             else Some (if neg then - u else u))"

fun formatNat :: "nat \<Rightarrow> string" where
  "formatNat n = (if n < 10 then [digitChar n] else formatNat (n div 10) @ [digitChar (n mod 10)])"

declare formatNat.simps [simp del]

definition formatUint :: "uint64 \<Rightarrow> string" where
  "formatUint u = formatNat (unat u)"

definition formatInt :: "int64 \<Rightarrow> string" where
  "formatInt i = (if sint i < 0 then CHR ''-'' # formatNat (nat (- sint i)) else formatNat (nat (sint i)))"


lemma isDigit_iff: "isDigit c \<longleftrightarrow> 48 \<le> (of_char c :: nat) \<and> (of_char c :: nat) \<le> 57"
  by (simp add: isDigit_def less_eq_char_def)

lemma digitChar_digit [simp]: "d < 10 \<Longrightarrow> isDigit (digitChar d)" "d < 10 \<Longrightarrow> digitVal (digitChar d) = d"
  by (auto simp: isDigit_iff digitVal_def digitChar_def)

lemma digitVal_bound: "isDigit c \<Longrightarrow> digitVal c < 10"
  by (auto simp: isDigit_iff digitVal_def)

lemma decVal_append: "decVal n (s @ t) = (case decVal n s of None \<Rightarrow> None | Some m \<Rightarrow> decVal m t)"
  by (induction s arbitrary: n) auto

lemma decVal_formatNat: "decVal 0 (formatNat n) = Some n"
proof (induction n rule: formatNat.induct)
  case (1 n)
  show ?case
  proof (cases "n < 10")
    case False
    with 1 show ?thesis
      by (subst formatNat.simps) (simp add: decVal_append)
  qed (subst formatNat.simps, simp)
qed

lemma formatNat_nonempty [simp]: "formatNat n \<noteq> []"
  by (subst formatNat.simps) simp

lemma decVal_digits: "decVal n s = Some m \<Longrightarrow> \<forall>c \<in> set s. isDigit c"
  by (induction s arbitrary: n) (auto split: if_splits)

lemma decVal_all_digits: "\<forall>c \<in> set s. isDigit c \<Longrightarrow> \<exists>m. decVal n s = Some m"
  by (induction s arbitrary: n) auto

lemma formatNat_digits: "c \<in> set (formatNat n) \<Longrightarrow> isDigit c"
  using decVal_digits[OF decVal_formatNat] by blast

lemma parseUint10_formatUint [simp]: "parseUint10 (formatUint u) = Some u"
  using unsigned_less[of u, where ?'a = nat]
  by (simp add: parseUint10_def formatUint_def decVal_formatNat)

lemma formatUint_inject [simp]: "formatUint u = formatUint v \<longleftrightarrow> u = v"
  by (metis option.inject parseUint10_formatUint)

lemma formatNat_hd: "formatNat n = c # t \<Longrightarrow> c \<noteq> CHR ''-'' \<and> c \<noteq> CHR ''+''"
  using formatNat_digits[of c n] by (auto simp: isDigit_iff)

lemma sint_neg_unat:
  fixes i :: int64
  assumes "sint i < 0"
  shows "unat (- i) = nat (- sint i)"
proof -
  have "- (2 ^ 63) \<le> sint i" using sint_greater_eq[of i] by simp
  moreover have "uint (- i) = (- sint i) mod 2 ^ 64"
    using uint_word_of_int[of "- sint i", where ?'a = 64] by simp
  ultimately have "uint (- i) = - sint i" using assms by (simp add: mod_pos_pos_trivial)
  then show ?thesis by (simp add: unat_eq_nat_uint)
qed

lemma sint_nonneg_unat:
  fixes i :: int64
  assumes "0 \<le> sint i"
  shows "unat i = nat (sint i)"
proof -
  have "sint i < 2 ^ 63" using sint_less[of i] by simp
  moreover have "uint i = sint i mod 2 ^ 64"
    using uint_word_of_int[of "sint i", where ?'a = 64] by simp
  ultimately have "uint i = sint i" using assms by (simp add: mod_pos_pos_trivial)
  then show ?thesis by (simp add: unat_eq_nat_uint)
qed

lemma parseUint10_formatNat: "n < 2 ^ 64 \<Longrightarrow> parseUint10 (formatNat n) = Some (of_nat n)"
  by (simp add: parseUint10_def decVal_formatNat)

lemma parseInt10_formatNat:
  assumes "n < 2 ^ 63"
  shows "parseInt10 (formatNat n) = Some (of_nat n)"
proof -
  have "unat (of_nat n :: uint64) = n"
    using assms by (simp add: unat_of_nat take_bit_nat_eq_self)
  moreover obtain c t where c: "formatNat n = c # t"
    by (meson formatNat_nonempty list.exhaust)
  ultimately show ?thesis
    using assms formatNat_hd[OF c] parseUint10_formatNat[of n] c by (simp add: parseInt10_def)
qed

lemma parseInt10_formatInt [simp]: "parseInt10 (formatInt i) = Some i"
proof (cases "sint i < 0")
  case True
  have lo: "- (2 ^ 63) \<le> sint i" using sint_greater_eq[of i] by simp
  define n where "n = nat (- sint i)"
  have n: "n \<le> 2 ^ 63" using lo by (simp add: n_def)
  have un: "unat (of_nat n :: uint64) = n"
    using n by (simp add: unat_of_nat take_bit_nat_eq_self)
  have "of_nat n = - i"
    using un sint_neg_unat[OF True] by (simp add: word_unat_eq_iff n_def)
  with True un n parseUint10_formatNat[of n] show ?thesis
    by (simp add: formatInt_def parseInt10_def n_def[symmetric])
next
  case False
  define n where "n = nat (sint i)"
  have u: "unat i = n" using False by (simp add: sint_nonneg_unat n_def)
  have n: "n < 2 ^ 63" using sint_less[of i] by (simp add: n_def)
  then have "unat (of_nat n :: int64) = n" by (simp add: unat_of_nat take_bit_nat_eq_self)
  with u have "of_nat n = i" by (simp add: word_unat_eq_iff)
  moreover have "formatInt i = formatNat n" using False by (simp add: formatInt_def n_def)
  ultimately show ?thesis using parseInt10_formatNat[OF n] by simp
qed

end
