(* ===== verification/Float64.thy ===== *)
theory Float64
  imports GoStrconv
begin

text \<open>
  IEEE 754 binary64, Go's \<open>float64\<close>, as its bit pattern. The value of a finite float is
  \<open>fscaled b / 2^unitExp\<close>, \<open>unitExp = 1074\<close>, with \<open>fscaled\<close> an exact integer, so comparisons and conversions are integer
  arithmetic; the same formula puts the infinities beyond every finite float. \<open>roundQuot\<close> is
  round-to-nearest-even of a quotient of naturals, which \<open>float64(i)\<close>, \<open>float64(f32)\<close> and
  \<open>strconv.ParseFloat\<close> perform.
\<close>

type_synonym float64 = "64 word"

definition unitExp :: nat where
  "unitExp = 1074"

definition fneg :: "float64 \<Rightarrow> bool" where
  "fneg b = (2 ^ 63 \<le> unat b)"

definition fmag :: "float64 \<Rightarrow> nat" where
  "fmag b = unat b mod 2 ^ 63"

definition fexp :: "float64 \<Rightarrow> nat" where
  "fexp b = fmag b div 2 ^ 52"

definition ffrac :: "float64 \<Rightarrow> nat" where
  "ffrac b = fmag b mod 2 ^ 52"

definition isNaN :: "float64 \<Rightarrow> bool" where
  "isNaN b = (fexp b = 2047 \<and> ffrac b \<noteq> 0)"

definition isInf :: "float64 \<Rightarrow> bool" where
  "isInf b = (fexp b = 2047 \<and> ffrac b = 0)"

definition fmant :: "float64 \<Rightarrow> nat" where
  "fmant b = (if fexp b = 0 then ffrac b else 2 ^ 52 + ffrac b)"

definition fshift :: "float64 \<Rightarrow> nat" where
  "fshift b = fexp b - 1"

definition fscaled :: "float64 \<Rightarrow> int" where
  "fscaled b = (if fneg b then - 1 else 1) * int (fmant b * 2 ^ fshift b)"

definition feq :: "float64 \<Rightarrow> float64 \<Rightarrow> bool" where
  "feq a b = (\<not> isNaN a \<and> \<not> isNaN b \<and> fscaled a = fscaled b)"

definition flt :: "float64 \<Rightarrow> float64 \<Rightarrow> bool" where
  "flt a b = (\<not> isNaN a \<and> \<not> isNaN b \<and> fscaled a < fscaled b)"


section \<open>Rounding\<close>

fun bitLen :: "nat \<Rightarrow> nat" where
  "bitLen n = (if n = 0 then 0 else Suc (bitLen (n div 2)))"

declare bitLen.simps [simp del]

text \<open>
  The magnitude bits of the float nearest to \<open>n / d\<close>, ties to even; from \<open>2047 * 2^52\<close> on they
  stand for an overflow.
\<close>

definition roundQuot :: "nat \<Rightarrow> nat \<Rightarrow> nat" where
  "roundQuot n d =
     (let x = n * 2 ^ unitExp;
          e = bitLen (x div d) - 53;
          w = d * 2 ^ e;
          m = x div w;
          r = x mod w
      in e * 2 ^ 52 + (if 2 * r > w \<or> (2 * r = w \<and> odd m) then m + 1 else m))"

definition infBits :: nat where
  "infBits = 2047 * 2 ^ 52"

definition makeFloat :: "bool \<Rightarrow> nat \<Rightarrow> float64" where
  "makeFloat neg mag = of_nat (mag + (if neg then 2 ^ 63 else 0))"

text \<open>\<open>float64(i)\<close> of an \<open>int64\<close>.\<close>

definition floatOfInt :: "int64 \<Rightarrow> float64" where
  "floatOfInt i = makeFloat (sint i < 0) (roundQuot (nat (abs (sint i))) 1)"

text \<open>\<open>float64(x)\<close> of a \<open>float32\<close>, which is exact; a NaN keeps its top payload bits.\<close>

definition widenFloat32 :: "32 word \<Rightarrow> float64" where
  "widenFloat32 b =
     (let neg = 2 ^ 31 \<le> unat b; mag = unat b mod 2 ^ 31;
          e = mag div 2 ^ 23; f = mag mod 2 ^ 23
      in makeFloat neg
           (if e = 255 then (if f = 0 then infBits else infBits + 2 ^ 51 + (f mod 2 ^ 22) * 2 ^ 29)
            else if e = 0 then roundQuot f (2 ^ 149)
            else roundQuot ((2 ^ 23 + f) * 2 ^ e) (2 ^ 150)))"


section \<open>\<open>strconv.ParseFloat\<close>\<close>

text \<open>
  \<open>readFloat\<close>: digits with at most one point and underscores, then an exponent, in base 10 or,
  after \<open>0x\<close>, 16 (where the exponent is required and binary). The loop returns the digits read as
  a number, how many follow the point, whether there was a digit, and the rest.
\<close>

fun readDigits :: "nat \<Rightarrow> bool \<Rightarrow> nat \<Rightarrow> nat \<Rightarrow> bool \<Rightarrow> string \<Rightarrow> nat \<times> nat \<times> bool \<times> string" where
  "readDigits base dot m k sawd [] = (m, k, sawd, [])"
| "readDigits base dot m k sawd (c # s) =
     (if c = CHR ''_'' then readDigits base dot m k sawd s
      else if c = CHR ''.'' then
        (if dot then (m, k, sawd, c # s) else readDigits base True m k sawd s)
      else case digitOf c of
             Some d \<Rightarrow>
               if d < base then readDigits base dot (base * m + d) (if dot then Suc k else k) True s
               else (m, k, sawd, c # s)
           | None \<Rightarrow> (m, k, sawd, c # s))"

fun readExp :: "nat \<Rightarrow> string \<Rightarrow> nat \<times> string" where
  "readExp e [] = (e, [])"
| "readExp e (c # s) =
     (if c = CHR ''_'' then readExp e s
      else if isDigit c then readExp (if e < 10000 then 10 * e + digitVal c else e) s
      else (e, c # s))"

definition readExponent :: "nat \<Rightarrow> string \<Rightarrow> (int \<times> string) option" where
  "readExponent base s =
     (case s of
        [] \<Rightarrow> if base = 16 then None else Some (0, s)
      | c # t \<Rightarrow>
          if lowerByte c = (if base = 16 then CHR ''p'' else CHR ''e'') then
            (let (neg, u) = (case t of [] \<Rightarrow> (False, t)
                             | x # u \<Rightarrow> if x = CHR ''+'' then (False, u)
                                        else if x = CHR ''-'' then (True, u) else (False, t))
             in case u of
                  [] \<Rightarrow> None
                | x # _ \<Rightarrow> if \<not> isDigit x then None
                           else let (e, r) = readExp 0 u
                                in Some (if neg then - int e else int e, r))
          else if base = 16 then None else Some (0, s))"

definition specialFloat :: "string \<Rightarrow> float64 option" where
  "specialFloat s =
     (let t = map lowerByte s
      in if t = ''nan'' then Some (of_nat (infBits + 2 ^ 51 + 1))
         else if t \<in> {''inf'', ''+inf'', ''infinity'', ''+infinity''} then Some (makeFloat False infBits)
         else if t \<in> {''-inf'', ''-infinity''} then Some (makeFloat True infBits)
         else None)"

definition scaleMag :: "nat \<Rightarrow> nat \<Rightarrow> int \<Rightarrow> nat" where
  "scaleMag m b e = (if 0 \<le> e then roundQuot (m * b ^ nat e) 1 else roundQuot m (b ^ nat (- e)))"

definition parseFloat :: "string \<Rightarrow> float64 option" where
  "parseFloat s =
     (case specialFloat s of
        Some f \<Rightarrow> Some f
      | None \<Rightarrow>
          (let (neg, t) = (case s of [] \<Rightarrow> (False, s)
                          | c # t \<Rightarrow> if c = CHR ''+'' then (False, t)
                                     else if c = CHR ''-'' then (True, t) else (False, s));
              (base, u) = (case t of
                             z # x # c # r \<Rightarrow>
                               if z = CHR ''0'' \<and> lowerByte x = CHR ''x'' then (16, c # r) else (10, t)
                           | _ \<Rightarrow> (10, t));
              (m, k, sawd, r) = readDigits base False 0 0 False u
          in if \<not> sawd then None
             else (case readExponent base r of
                    None \<Rightarrow> None
                  | Some (e, rest) \<Rightarrow>
                      if rest \<noteq> [] \<or> (CHR ''_'' \<in> set s \<and> \<not> underscoreOK s) then None
                      else let mag = (if base = 16 then scaleMag m 2 (e - 4 * int k)
                                      else scaleMag m 10 (e - int k))
                           in if infBits \<le> mag then None else Some (makeFloat neg mag))))"


section \<open>Exact conversions\<close>

lemma bitLen_0 [simp]: "bitLen 0 = 0"
  by (subst bitLen.simps) simp

lemma bitLen_bounds: "0 < n \<Longrightarrow> 2 ^ (bitLen n - 1) \<le> n \<and> n < 2 ^ bitLen n \<and> 0 < bitLen n"
proof (induction n rule: bitLen.induct)
  case (1 n)
  show ?case
  proof (cases "n = 1")
    case True
    moreover have "bitLen 1 = 1" by (subst bitLen.simps) simp
    ultimately show ?thesis by simp
  next
    case False
    with 1 have h: "2 ^ (bitLen (n div 2) - 1) \<le> n div 2 \<and> n div 2 < 2 ^ bitLen (n div 2)
        \<and> 0 < bitLen (n div 2)" by simp
    then obtain l where l: "bitLen (n div 2) = Suc l" by (cases "bitLen (n div 2)") auto
    have "bitLen n = Suc (Suc l)" using 1(2) l by (subst bitLen.simps) simp
    with h l show ?thesis by auto
  qed
qed

lemma bitLen_unique:
  assumes "2 ^ l \<le> n" and "n < 2 ^ Suc l"
  shows "bitLen n = Suc l"
proof -
  have "0 < n" using assms(1) by (metis bot_nat_0.not_eq_extremum le_zero_eq power_not_zero zero_neq_numeral)
  then have b: "2 ^ (bitLen n - 1) \<le> n" "n < 2 ^ bitLen n" "0 < bitLen n" using bitLen_bounds by auto
  have "l < bitLen n"
    using b(2) assms(1) power_less_imp_less_exp[of "2 :: nat" l "bitLen n"] by linarith
  moreover have "bitLen n - 1 < Suc l"
    using b(1) assms(2) power_less_imp_less_exp[of "2 :: nat" "bitLen n - 1" "Suc l"] by linarith
  ultimately show ?thesis by simp
qed

lemma roundQuot_exact:
  assumes "n * 2 ^ unitExp = m * 2 ^ e" and "2 ^ 52 \<le> m" and "m < 2 ^ 53"
  shows "roundQuot n 1 = e * 2 ^ 52 + m"
proof -
  have "bitLen (m * 2 ^ e) = Suc (52 + e)"
    using assms(2,3) by (intro bitLen_unique) (simp_all add: power_add)
  then show ?thesis by (simp add: roundQuot_def assms(1))
qed

lemma makeFloat_unat:
  assumes "mag < 2 ^ 63"
  shows "unat (makeFloat neg mag) = mag + (if neg then 2 ^ 63 else 0)"
proof -
  have "mag + (if neg then 2 ^ 63 else 0) < 2 ^ 64" using assms by simp
  then show ?thesis unfolding makeFloat_def unat_of_nat by (simp add: take_bit_nat_eq_self)
qed

lemma fscaled_makeFloat:
  assumes "m < 2 ^ 53" and "0 < e \<Longrightarrow> 2 ^ 52 \<le> m" and "e \<le> 2045"
  shows "fscaled (makeFloat neg (e * 2 ^ 52 + m)) = (if neg then - 1 else 1) * int (m * 2 ^ e)"
proof -
  let ?b = "makeFloat neg (e * 2 ^ 52 + m)"
  have lt: "e * 2 ^ 52 + m < 2 ^ 63" using assms(1,3) by simp
  have mag: "fmag ?b = e * 2 ^ 52 + m"
    using lt by (simp add: fmag_def makeFloat_unat)
  have neg: "fneg ?b = neg"
    using lt by (simp add: fneg_def makeFloat_unat)
  have "fmant ?b * 2 ^ fshift ?b = m * 2 ^ e"
  proof (cases "m < 2 ^ 52")
    case True
    with assms(2) have "e = 0" by auto
    with True mag show ?thesis by (simp add: fmant_def fshift_def fexp_def ffrac_def)
  next
    case False
    then have m: "e * 2 ^ 52 + m = Suc e * 2 ^ 52 + (m - 2 ^ 52)" by simp
    have r: "m - 2 ^ 52 < 2 ^ 52" using assms(1) by simp
    have "fexp ?b = Suc e" unfolding fexp_def mag unfolding m using r by simp
    moreover have "ffrac ?b = m - 2 ^ 52"
      unfolding ffrac_def mag unfolding m using mod_mult_self3[of "Suc e" "2 ^ 52" "m - 2 ^ 52"] r
      by (simp only: mod_less)
    ultimately show ?thesis using False by (simp add: fmant_def fshift_def)
  qed
  with neg show ?thesis by (simp add: fscaled_def)
qed

lemma roundQuot_small:
  assumes "n \<le> 2 ^ 53"
  shows "\<exists>m e. n * 2 ^ unitExp = m * 2 ^ e \<and> m < 2 ^ 53 \<and> (0 < e \<longrightarrow> 2 ^ 52 \<le> m) \<and> e \<le> unitExp + 1
    \<and> roundQuot n 1 = e * 2 ^ 52 + m"
proof -
  consider "n = 0" | "n = 2 ^ 53" | "0 < n" "n < 2 ^ 53" using assms by linarith
  then show ?thesis
  proof cases
    case 1
    then show ?thesis
      by (intro exI[of _ 0]) (simp add: roundQuot_def)
  next
    case 2
    have "(2 :: nat) ^ 53 = 2 ^ 52 * 2" by simp
    then have eq: "n * 2 ^ unitExp = 2 ^ 52 * 2 ^ (unitExp + 1)"
      unfolding 2 by (simp only: power_add power_one_right mult.assoc mult.commute mult.left_commute)
    moreover have "roundQuot n 1 = (unitExp + 1) * 2 ^ 52 + 2 ^ 52"
      using eq by (rule roundQuot_exact) simp_all
    moreover have "(2 :: nat) ^ 52 < 2 ^ 53" by simp
    ultimately show ?thesis by (metis order_refl)
  next
    case 3
    define l where "l = bitLen n"
    have b: "2 ^ (l - 1) \<le> n" "n < 2 ^ l" "0 < l" using bitLen_bounds[OF 3(1)] by (auto simp: l_def)
    have l: "l \<le> 53"
      using b(1) 3(2) power_less_imp_less_exp[of "2 :: nat" "l - 1" 53] by linarith
    define m where "m = n * 2 ^ (53 - l)"
    have e1: "(2 :: nat) ^ 52 = 2 ^ (l - 1) * 2 ^ (53 - l)"
      using l b(3) by (simp flip: power_add)
    have e2: "(2 :: nat) ^ 53 = 2 ^ l * 2 ^ (53 - l)"
      using l by (simp flip: power_add)
    have "2 ^ 52 \<le> m" unfolding m_def e1 using b(1) by (rule mult_le_mono1)
    moreover have "m < 2 ^ 53" unfolding m_def e2 using b(2) by simp
    moreover have "n * 2 ^ unitExp = m * 2 ^ (unitExp - 53 + l)"
    proof -
      have "unitExp = (53 - l) + (unitExp - 53 + l)" using l by (simp add: unitExp_def)
      then have "(2 :: nat) ^ unitExp = 2 ^ (53 - l) * 2 ^ (unitExp - 53 + l)"
        by (metis power_add)
      then show ?thesis by (simp add: m_def)
    qed
    moreover have "unitExp - 53 + l \<le> unitExp + 1" using l by (simp add: unitExp_def)
    ultimately show ?thesis
      using roundQuot_exact[of n m "unitExp - 53 + l"] by blast
  qed
qed

lemma floatOfInt_exact:
  assumes "abs (sint i) \<le> 2 ^ 53"
  shows "fscaled (floatOfInt i) = sint i * 2 ^ unitExp"
proof -
  define n where "n = nat (abs (sint i))"
  have "n \<le> 2 ^ 53" using assms by (simp add: n_def)
  then obtain m e where me: "n * 2 ^ unitExp = m * 2 ^ e" "m < 2 ^ 53" "0 < e \<longrightarrow> 2 ^ 52 \<le> m" "e \<le> unitExp + 1"
    "roundQuot n 1 = e * 2 ^ 52 + m" using roundQuot_small by blast
  have "fscaled (floatOfInt i) = (if sint i < 0 then - 1 else 1) * int (m * 2 ^ e)"
    unfolding floatOfInt_def n_def[symmetric] me(5) by (rule fscaled_makeFloat) (use me in \<open>auto simp: unitExp_def\<close>)
  also have "\<dots> = (if sint i < 0 then - 1 else 1) * (int n * 2 ^ unitExp)"
    unfolding me(1)[symmetric] by simp
  also have "\<dots> = sint i * 2 ^ unitExp" by (auto simp: n_def)
  finally show ?thesis .
qed

lemma makeFloat_finite:
  assumes "m < 2 ^ 53" and "e \<le> 2045"
  shows "\<not> isNaN (makeFloat neg (e * 2 ^ 52 + m))"
proof -
  let ?b = "makeFloat neg (e * 2 ^ 52 + m)"
  have lt: "e * 2 ^ 52 + m < 2047 * 2 ^ 52" using assms by simp
  then have "fmag ?b = e * 2 ^ 52 + m" by (simp add: fmag_def makeFloat_unat)
  with lt have "fexp ?b < 2047" by (simp add: fexp_def less_mult_imp_div_less)
  then show ?thesis by (simp add: isNaN_def)
qed

text \<open>An integer whose 53 leading bits are all of it.\<close>

lemma floatOfInt_scaled:
  assumes "nat (abs (sint i)) = m * 2 ^ k" and "2 ^ 52 \<le> m" and "m < 2 ^ 53" and "k < 64"
  shows "fscaled (floatOfInt i) = sint i * 2 ^ unitExp" and "\<not> isNaN (floatOfInt i)"
proof -
  define e where "e = k + unitExp"
  have e: "e \<le> 2045" using assms(4) by (simp add: e_def unitExp_def)
  have "nat (abs (sint i)) * 2 ^ unitExp = m * 2 ^ e" by (simp add: assms(1) e_def power_add)
  then have r: "floatOfInt i = makeFloat (sint i < 0) (e * 2 ^ 52 + m)"
    unfolding floatOfInt_def using roundQuot_exact assms(2,3) by simp
  show "\<not> isNaN (floatOfInt i)" unfolding r by (rule makeFloat_finite[OF assms(3) e])
  have "fscaled (floatOfInt i) = (if sint i < 0 then - 1 else 1) * int (m * 2 ^ e)"
    unfolding r by (rule fscaled_makeFloat) (use assms(2,3) e in auto)
  also have "int (m * 2 ^ e) = int (nat (abs (sint i))) * 2 ^ unitExp"
    by (simp add: assms(1) e_def power_add)
  finally show "fscaled (floatOfInt i) = sint i * 2 ^ unitExp" by simp
qed

lemma fmant_bound: "fmant b < 2 ^ 53"
proof -
  have "ffrac b < 2 ^ 52" by (simp add: ffrac_def)
  then show ?thesis by (simp add: fmant_def)
qed

text \<open>No float lies strictly between \<open>2^63 - 1024\<close> and \<open>2^63\<close>.\<close>

lemma fscaled_gap:
  assumes "fscaled b = i * 2 ^ unitExp" and "i < 2 ^ 63"
  shows "i \<le> 2 ^ 63 - 1024"
proof (cases "i < 2 ^ 62")
  case False
  have "0 < i * (2 :: int) ^ unitExp" using False by simp
  then have "0 < fscaled b" using assms(1) by simp
  then have pos: "\<not> fneg b"
    by (simp add: fscaled_def split: if_splits) (metis less_irrefl mult_nonneg_nonneg neg_less_0_iff_less not_less of_nat_0_le_iff zero_le_numeral zero_le_power)
  have eq: "int (fmant b) * 2 ^ fshift b = i * 2 ^ unitExp"
    using assms(1) pos by (simp add: fscaled_def)
  have "unitExp + 10 \<le> fshift b"
  proof (rule ccontr)
    assume "\<not> unitExp + 10 \<le> fshift b"
    then have "(2 :: int) ^ fshift b \<le> 2 ^ (unitExp + 9)" by (intro power_increasing) auto
    moreover have "int (fmant b) < 2 ^ 53" using fmant_bound[of b] by simp
    ultimately have "int (fmant b) * 2 ^ fshift b < 2 ^ 53 * 2 ^ (unitExp + 9)"
      by (intro mult_less_le_imp_less) auto
    also have "(2 :: int) ^ 53 * 2 ^ (unitExp + 9) = 2 ^ 62 * 2 ^ unitExp" by (simp add: power_add)
    finally show False using eq False by simp
  qed
  then have "fshift b = 10 + (fshift b - (unitExp + 10)) + unitExp" by simp
  then have "(2 :: int) ^ fshift b = 2 ^ 10 * 2 ^ (fshift b - (unitExp + 10)) * 2 ^ unitExp"
    by (metis power_add)
  then have "i * 2 ^ unitExp = (int (fmant b) * 2 ^ (fshift b - (unitExp + 10)) * 1024) * 2 ^ unitExp"
    using eq by (simp add: mult.assoc mult.left_commute)
  then have "i = (int (fmant b) * 2 ^ (fshift b - (unitExp + 10))) * 1024" by simp
  then obtain q where "i = q * 1024" by blast
  with assms(2) show ?thesis by simp
qed simp

text \<open>An odd integer from \<open>2^53\<close> on is no float.\<close>

lemma fscaled_odd:
  assumes "fscaled b = i * 2 ^ unitExp" and "odd i"
  shows "abs i < 2 ^ 53"
proof -
  have eq: "abs i * 2 ^ unitExp = int (fmant b) * 2 ^ fshift b"
    using arg_cong[OF assms(1), of abs] by (simp add: fscaled_def abs_mult split: if_splits)
  have "fshift b \<le> unitExp"
  proof (rule ccontr)
    assume "\<not> fshift b \<le> unitExp"
    then obtain k where k: "fshift b = unitExp + Suc k" using less_imp_Suc_add by (metis add_Suc_right not_le)
    then have "abs i * 2 ^ unitExp = (int (fmant b) * 2 ^ Suc k) * 2 ^ unitExp"
      using eq by (simp add: power_add)
    then have "abs i = int (fmant b) * 2 ^ Suc k" by simp
    then show False using assms(2) by (metis dvd_abs_iff dvd_mult dvd_power zero_less_Suc)
  qed
  then have "(2 :: int) ^ fshift b \<le> 2 ^ unitExp" by (intro power_increasing) auto
  then have "abs i * 2 ^ unitExp \<le> int (fmant b) * 2 ^ unitExp"
    unfolding eq by (intro mult_left_mono) auto
  then have "abs i \<le> int (fmant b)" by simp
  then show ?thesis using fmant_bound[of b] by simp
qed

end
