(* ===== verification/Value.thy ===== *)
theory Value
  imports Float64
begin

text \<open>
  \<open>value.go\<close>: the typed, source-tagged datum. A Go \<open>Value\<close> is a kind, a boxed payload whose
  dynamic type the kind determines, a source name and two marks on decimal text; the model joins
  kind and payload in one constructor and puts the marks on \<open>StringV\<close>. \<open>goany\<close> lists the
  dynamic types \<open>NewValue\<close> tells apart; every other Go value is \<open>AOther\<close> with the text
  \<open>fmt.Sprint\<close> gives it. A \<open>time.Time\<close> is its instant in nanoseconds and its zone offset.
\<close>

type_synonym gotime = "int \<times> int"

datatype govalue = Value (vdata: vdata) (vsource: string)
  and vdata =
    NullV
  | StringV string bool bool
  | IntV int64
  | FloatV float64
  | BoolV bool
  | TimeV gotime
  | DurationV int64
  | SliceV "govalue list"
  | MapV "(string \<times> govalue) list"
  | RawV string string

datatype gonum =
    GInt "64 word" | GInt8 "8 word" | GInt16 "16 word" | GInt32 "32 word" | GInt64 "64 word"
  | GUint "64 word" | GUint8 "8 word" | GUint16 "16 word" | GUint32 "32 word" | GUint64 "64 word"
  | GFloat32 "32 word" | GFloat64 float64

datatype goany =
    ANil
  | AVal govalue
  | ANumber string
  | AStr string
  | ABool bool
  | ATime gotime
  | ADur int64
  | AAnys "goany list"
  | AVals "govalue list"
  | AAnyMap "(string \<times> goany) list"
  | AValMap "(string \<times> govalue) list"
  | ANum gonum
  | ASeq "goany list"
  | AStrMap "(string \<times> goany) list"
  | ABytes string
  | ARaw string string
  | AOther string

datatype valueKind = NullKind | StringKind | IntKind | FloatKind | BoolKind | TimeKind
  | DurationKind | SliceKind | MapKind | RawKind

definition kindString :: "valueKind \<Rightarrow> string" where
  "kindString k =
     (case k of NullKind \<Rightarrow> ''null'' | StringKind \<Rightarrow> ''string'' | IntKind \<Rightarrow> ''int''
      | FloatKind \<Rightarrow> ''float'' | BoolKind \<Rightarrow> ''bool'' | TimeKind \<Rightarrow> ''time''
      | DurationKind \<Rightarrow> ''duration'' | SliceKind \<Rightarrow> ''slice'' | MapKind \<Rightarrow> ''map''
      | RawKind \<Rightarrow> ''raw'')"

fun kindOf :: "vdata \<Rightarrow> valueKind" where
  "kindOf NullV = NullKind"
| "kindOf (StringV s bu bi) = StringKind"
| "kindOf (IntV i) = IntKind"
| "kindOf (FloatV f) = FloatKind"
| "kindOf (BoolV b) = BoolKind"
| "kindOf (TimeV t) = TimeKind"
| "kindOf (DurationV d) = DurationKind"
| "kindOf (SliceV xs) = SliceKind"
| "kindOf (MapV m) = MapKind"
| "kindOf (RawV f d) = RawKind"

definition Kind :: "govalue \<Rightarrow> valueKind" where
  "Kind v = kindOf (vdata v)"

definition IsZero :: "govalue \<Rightarrow> bool" where
  "IsZero v = (Kind v = NullKind)"

definition withSource :: "string \<Rightarrow> govalue \<Rightarrow> govalue" where
  "withSource name v = Value (vdata v) name"

text \<open>The zero \<open>Value{}\<close>, and a value as a constructor makes it.\<close>

definition zeroValue :: govalue where
  "zeroValue = Value NullV []"

abbreviation mk :: "vdata \<Rightarrow> govalue" where
  "mk d \<equiv> Value d []"

abbreviation plainText :: "string \<Rightarrow> vdata" where
  "plainText s \<equiv> StringV s False False"


section \<open>Construction\<close>

definition uintValue :: "uint64 \<Rightarrow> govalue" where
  "uintValue u = (if 2 ^ 63 - 1 < unat u then mk (StringV (formatUint u) True False) else mk (IntV u))"

definition isIntegerText :: "string \<Rightarrow> bool" where
  "isIntegerText s0 =
     (let s = trimPrefix s0 ''-'' in s \<noteq> [] \<and> (\<forall>c \<in> set s. isDigit c))"

definition numberValue :: "string \<Rightarrow> govalue" where
  "numberValue s =
     (if isIntegerText s then
        (case parseInt10 s of
           Some i \<Rightarrow> mk (IntV i)
         | None \<Rightarrow> (case parseUint10 s of
                     Some u \<Rightarrow> uintValue u
                   | None \<Rightarrow> mk (StringV s False True)))
      else (case parseFloat s of
              Some f \<Rightarrow> mk (FloatV f)
            | None \<Rightarrow> mk (plainText s)))"

fun numericValue :: "gonum \<Rightarrow> govalue" where
  "numericValue (GInt x) = mk (IntV x)"
| "numericValue (GInt8 x) = mk (IntV (scast x))"
| "numericValue (GInt16 x) = mk (IntV (scast x))"
| "numericValue (GInt32 x) = mk (IntV (scast x))"
| "numericValue (GInt64 x) = mk (IntV x)"
| "numericValue (GUint x) = uintValue x"
| "numericValue (GUint8 x) = mk (IntV (ucast x))"
| "numericValue (GUint16 x) = mk (IntV (ucast x))"
| "numericValue (GUint32 x) = mk (IntV (ucast x))"
| "numericValue (GUint64 x) = uintValue x"
| "numericValue (GFloat32 x) = mk (FloatV (widenFloat32 x))"
| "numericValue (GFloat64 x) = mk (FloatV x)"

text \<open>\<open>fmt.Sprint\<close> of a byte slice and of a \<open>RawValue\<close>.\<close>

definition sprintBytes :: "string \<Rightarrow> string" where
  "sprintBytes bs = ''['' @ join (map (\<lambda>c. formatNat (of_char c)) bs) '' '' @ '']''"

definition sprintRaw :: "string \<Rightarrow> string \<Rightarrow> string" where
  "sprintRaw format bs = ''{'' @ format @ '' '' @ sprintBytes bs @ ''}''"

primrec NewValue :: "goany \<Rightarrow> govalue" where
  "NewValue ANil = mk NullV"
| "NewValue (AVal v) = v"
| "NewValue (ANumber s) = numberValue s"
| "NewValue (AStr s) = mk (plainText s)"
| "NewValue (ABool b) = mk (BoolV b)"
| "NewValue (ATime t) = mk (TimeV t)"
| "NewValue (ADur d) = mk (DurationV d)"
| "NewValue (AAnys xs) = mk (SliceV (map NewValue xs))"
| "NewValue (AVals xs) = mk (SliceV xs)"
| "NewValue (AAnyMap m) = mk (MapV (map (map_prod id NewValue) m))"
| "NewValue (AValMap m) = mk (MapV m)"
| "NewValue (ANum x) = numericValue x"
| "NewValue (ASeq xs) = mk (SliceV (map NewValue xs))"
| "NewValue (AStrMap m) = mk (MapV (map (map_prod id NewValue) m))"
| "NewValue (ABytes bs) = mk (plainText (sprintBytes bs))"
| "NewValue (ARaw format bs) = mk (plainText (sprintRaw format bs))"
| "NewValue (AOther text) = mk (plainText text)"

definition NewRawValue :: "string \<Rightarrow> string \<Rightarrow> govalue" where
  "NewRawValue format bs = mk (RawV format bs)"


section \<open>Reading\<close>

text \<open>\<open>Value.Any\<close>.\<close>

fun anyData :: "vdata \<Rightarrow> goany" where
  "anyData NullV = ANil"
| "anyData (StringV s bu bi) =
     (case (if bu then parseUint10 s else None) of
        Some u \<Rightarrow> ANum (GUint64 u)
      | None \<Rightarrow> if bi then ANumber s else AStr s)"
| "anyData (IntV i) = ANum (GInt64 i)"
| "anyData (FloatV f) = ANum (GFloat64 f)"
| "anyData (BoolV b) = ABool b"
| "anyData (TimeV t) = ATime t"
| "anyData (DurationV d) = ADur d"
| "anyData (SliceV xs) = AVals xs"
| "anyData (MapV m) = AValMap m"
| "anyData (RawV format bs) = ARaw format bs"

definition Any :: "govalue \<Rightarrow> goany" where
  "Any v = anyData (vdata v)"

primrec unwrapValueDeep :: "govalue \<Rightarrow> goany" and unwrapData :: "vdata \<Rightarrow> goany" where
  "unwrapValueDeep (Value d src) = unwrapData d"
| "unwrapData NullV = ANil"
| "unwrapData (StringV s bu bi) = anyData (StringV s bu bi)"
| "unwrapData (IntV i) = anyData (IntV i)"
| "unwrapData (FloatV f) = anyData (FloatV f)"
| "unwrapData (BoolV b) = anyData (BoolV b)"
| "unwrapData (TimeV t) = anyData (TimeV t)"
| "unwrapData (DurationV d) = anyData (DurationV d)"
| "unwrapData (SliceV xs) = AAnys (map unwrapValueDeep xs)"
| "unwrapData (MapV m) = AAnyMap (map (map_prod id unwrapValueDeep) m)"
| "unwrapData (RawV format bs) = anyData (RawV format bs)"

datatype verror = TypeMismatch valueKind string | Coercion string

definition typeMismatchErr :: "valueKind \<Rightarrow> string \<Rightarrow> verror" where
  "typeMismatchErr have_kind want = TypeMismatch have_kind want"

definition AsString :: "govalue \<Rightarrow> verror + string" where
  "AsString v = (case vdata v of StringV s _ _ \<Rightarrow> Inr s
                 | d \<Rightarrow> Inl (typeMismatchErr (kindOf d) ''string''))"

definition AsInt64 :: "govalue \<Rightarrow> verror + int64" where
  "AsInt64 v = (case vdata v of IntV i \<Rightarrow> Inr i | d \<Rightarrow> Inl (typeMismatchErr (kindOf d) ''int64''))"

definition AsFloat64 :: "govalue \<Rightarrow> verror + float64" where
  "AsFloat64 v = (case vdata v of FloatV f \<Rightarrow> Inr f | IntV i \<Rightarrow> Inr (floatOfInt i)
                  | d \<Rightarrow> Inl (typeMismatchErr (kindOf d) ''float64''))"

definition AsBool :: "govalue \<Rightarrow> verror + bool" where
  "AsBool v = (case vdata v of BoolV b \<Rightarrow> Inr b | d \<Rightarrow> Inl (typeMismatchErr (kindOf d) ''bool''))"

definition AsSlice :: "govalue \<Rightarrow> verror + govalue list" where
  "AsSlice v = (case vdata v of SliceV xs \<Rightarrow> Inr xs | d \<Rightarrow> Inl (typeMismatchErr (kindOf d) ''slice''))"

definition AsMap :: "govalue \<Rightarrow> verror + (string \<times> govalue) list" where
  "AsMap v = (case vdata v of MapV m \<Rightarrow> Inr m | d \<Rightarrow> Inl (typeMismatchErr (kindOf d) ''map''))"

definition AsRaw :: "govalue \<Rightarrow> verror + string \<times> string" where
  "AsRaw v = (case vdata v of RawV f b \<Rightarrow> Inr (f, b) | d \<Rightarrow> Inl (typeMismatchErr (kindOf d) ''raw''))"

text \<open>
  \<open>parseTimeText\<close> over \<open>time.Parse\<close>, a parameter from layout and text: the layout given, then
  the fallback layouts in order, the last \<open>timeOfDayLayouts\<close> only when asked for.
\<close>

definition timeRFC3339 :: string where
  "timeRFC3339 = ''2006-01-02T15:04:05Z07:00''"

definition timeFallbackLayouts :: "string list" where
  "timeFallbackLayouts =
     [''2006-01-02T15:04:05.999999999Z07:00'', ''2006-01-02T15:04:05.999999999'',
      ''2006-01-02 15:04:05.999999999'', ''2006-01-02T15:04'', ''2006-01-02 15:04'',
      ''2006-01-02'', ''15:04:05.999999999'', ''15:04'']"

definition timeOfDayLayouts :: nat where
  "timeOfDayLayouts = 2"

fun firstParse :: "(string \<Rightarrow> string \<Rightarrow> gotime option) \<Rightarrow> string \<Rightarrow> string list \<Rightarrow> gotime option" where
  "firstParse timeParse s [] = None"
| "firstParse timeParse s (alt # alts) =
     (case timeParse alt s of Some t \<Rightarrow> Some t | None \<Rightarrow> firstParse timeParse s alts)"

definition parseTimeText ::
  "(string \<Rightarrow> string \<Rightarrow> gotime option) \<Rightarrow> string \<Rightarrow> string \<Rightarrow> bool \<Rightarrow> gotime option" where
  "parseTimeText timeParse s layout timeOfDay =
     (case timeParse layout s of
        Some t \<Rightarrow> Some t
      | None \<Rightarrow>
          firstParse timeParse s
            (if timeOfDay then timeFallbackLayouts
             else take (length timeFallbackLayouts - timeOfDayLayouts) timeFallbackLayouts))"

definition AsTime :: "(string \<Rightarrow> string \<Rightarrow> gotime option) \<Rightarrow> govalue \<Rightarrow> verror + gotime" where
  "AsTime timeParse v =
     (case vdata v of
        TimeV t \<Rightarrow> Inr t
      | StringV s _ _ \<Rightarrow> (case parseTimeText timeParse s timeRFC3339 True of
                           Some t \<Rightarrow> Inr t | None \<Rightarrow> Inl (Coercion s))
      | d \<Rightarrow> Inl (typeMismatchErr (kindOf d) ''time.Time''))"

text \<open>\<open>AsDuration\<close> over \<open>time.ParseDuration\<close>, a parameter.\<close>

definition AsDuration :: "(string \<Rightarrow> int64 option) \<Rightarrow> govalue \<Rightarrow> verror + int64" where
  "AsDuration parseDuration v =
     (case vdata v of
        DurationV d \<Rightarrow> Inr d
      | StringV s _ _ \<Rightarrow> (case parseDuration s of Some d \<Rightarrow> Inr d | None \<Rightarrow> Inl (Coercion s))
      | IntV i \<Rightarrow> Inr i
      | d \<Rightarrow> Inl (typeMismatchErr (kindOf d) ''time.Duration''))"

text \<open>
  \<open>Value.String\<close>. The formatters of the standard library are a record of functions:
  \<open>strconv.FormatFloat\<close> with verb \<open>f\<close> and \<open>g\<close>, \<open>Time.Format\<close> in RFC 3339 with nanoseconds and
  \<open>Duration.String\<close>.
\<close>

record formatters =
  formatFloatVerb :: "char \<Rightarrow> float64 \<Rightarrow> string"
  formatTime :: "gotime \<Rightarrow> string"
  formatDuration :: "int64 \<Rightarrow> string"

definition isWhole :: "float64 \<Rightarrow> bool" where
  "isWhole f = (\<not> isNaN f \<and> (isInf f \<or> 2 ^ unitExp dvd fscaled f))"

definition formatFloat :: "formatters \<Rightarrow> float64 \<Rightarrow> string" where
  "formatFloat fm f =
     (if isWhole f \<and> abs (fscaled f) < 10 ^ 21 * 2 ^ unitExp
      then formatFloatVerb fm (CHR ''f'') f else formatFloatVerb fm (CHR ''g'') f)"

primrec valueString :: "formatters \<Rightarrow> govalue \<Rightarrow> string" and dataString :: "formatters \<Rightarrow> vdata \<Rightarrow> string" where
  "valueString fm (Value d src) = dataString fm d"
| "dataString fm NullV = []"
| "dataString fm (StringV s bu bi) = s"
| "dataString fm (IntV i) = formatInt i"
| "dataString fm (FloatV f) = formatFloat fm f"
| "dataString fm (BoolV b) = (if b then ''true'' else ''false'')"
| "dataString fm (TimeV t) = formatTime fm t"
| "dataString fm (DurationV d) = formatDuration fm d"
| "dataString fm (SliceV xs) = ''['' @ join (map (valueString fm) xs) '' '' @ '']''"
| "dataString fm (MapV m) =
     ''map['' @ join (map (\<lambda>(k, s). k @ '':'' @ s) (map (map_prod id (valueString fm)) m)) '' '' @ '']''"
| "dataString fm (RawV format bs) = sprintRaw format bs"

text \<open>
  \<open>valuesEqual\<close> of \<open>watch.go\<close>: \<open>reflect.DeepEqual\<close> of the payloads. Floats compare with \<open>==\<close>, so
  a NaN differs from itself; the values inside a list or map are compared with their source names
  and marks. \<open>DeepEqual\<close> also answers true for two references to one list or map, which agrees
  with the comparison unless it holds a NaN.
\<close>

fun deepEqualValue :: "govalue \<Rightarrow> govalue \<Rightarrow> bool" and deepEqualData :: "vdata \<Rightarrow> vdata \<Rightarrow> bool"
  and deepEqualList :: "govalue list \<Rightarrow> govalue list \<Rightarrow> bool"
  and deepEqualMap :: "(string \<times> govalue) list \<Rightarrow> (string \<times> govalue) list \<Rightarrow> bool" where
  "deepEqualValue (Value d s) (Value d' s') = (s = s' \<and> deepEqualData d d')"
| "deepEqualData NullV d' = (d' = NullV)"
| "deepEqualData (StringV s bu bi) d' = (d' = StringV s bu bi)"
| "deepEqualData (IntV i) d' = (d' = IntV i)"
| "deepEqualData (FloatV f) d' = (case d' of FloatV g \<Rightarrow> feq f g | _ \<Rightarrow> False)"
| "deepEqualData (BoolV b) d' = (d' = BoolV b)"
| "deepEqualData (TimeV t) d' = (d' = TimeV t)"
| "deepEqualData (DurationV i) d' = (d' = DurationV i)"
| "deepEqualData (SliceV xs) d' = (case d' of SliceV ys \<Rightarrow> deepEqualList xs ys | _ \<Rightarrow> False)"
| "deepEqualData (MapV m) d' = (case d' of MapV n \<Rightarrow> deepEqualMap m n | _ \<Rightarrow> False)"
| "deepEqualData (RawV f b) d' = (d' = RawV f b)"
| "deepEqualList [] ys = (ys = [])"
| "deepEqualList (x # xs) ys = (case ys of [] \<Rightarrow> False | y # ys' \<Rightarrow> deepEqualValue x y \<and> deepEqualList xs ys')"
| "deepEqualMap [] n = (n = [])"
| "deepEqualMap ((k, x) # m) n =
     (case n of [] \<Rightarrow> False | (j, y) # n' \<Rightarrow> k = j \<and> deepEqualValue x y \<and> deepEqualMap m n')"

definition valuesEqual :: "govalue \<Rightarrow> govalue \<Rightarrow> bool" where
  "valuesEqual a b =
     (case (vdata a, vdata b) of
        (StringV s bu bi, StringV t cu ci) \<Rightarrow> Any a = Any b
      | (d, d') \<Rightarrow> deepEqualData d d')"


section \<open>Well-formed values\<close>

text \<open>
  The invariant of a \<open>Value\<close>: its maps are maps, and a mark stands only on the decimal text of
  an integer beyond the range of the kinds before it.
\<close>

fun textInt :: "string \<Rightarrow> int option" where
  "textInt s = (case s of [] \<Rightarrow> None
     | c # t \<Rightarrow> if c = CHR ''-'' then map_option (\<lambda>n. - int n) (decVal 0 t)
                else map_option int (decVal 0 s))"

declare textInt.simps [simp del]

definition markWf :: "string \<Rightarrow> bool \<Rightarrow> bool \<Rightarrow> bool" where
  "markWf s bu bi =
     ((bu \<longrightarrow> \<not> bi \<and> (case parseUint10 s of Some u \<Rightarrow> 2 ^ 63 \<le> unat u \<and> s = formatUint u | None \<Rightarrow> False))
    \<and> (bi \<longrightarrow> isIntegerText s \<and> parseInt10 s = None \<and> parseUint10 s = None))"

primrec vwf :: "govalue \<Rightarrow> bool" and dwf :: "vdata \<Rightarrow> bool" where
  "vwf (Value d src) = dwf d"
| "dwf NullV = True"
| "dwf (StringV s bu bi) = markWf s bu bi"
| "dwf (IntV i) = True"
| "dwf (FloatV f) = True"
| "dwf (BoolV b) = True"
| "dwf (TimeV t) = True"
| "dwf (DurationV d) = True"
| "dwf (SliceV xs) = list_all id (map vwf xs)"
| "dwf (MapV m) = (mwf m \<and> list_all (\<lambda>(k, b). b) (map (map_prod id vwf) m))"
| "dwf (RawV format bs) = True"

primrec awf :: "goany \<Rightarrow> bool" where
  "awf ANil = True"
| "awf (AVal v) = vwf v"
| "awf (ANumber s) = True"
| "awf (AStr s) = True"
| "awf (ABool b) = True"
| "awf (ATime t) = True"
| "awf (ADur d) = True"
| "awf (AAnys xs) = list_all id (map awf xs)"
| "awf (AVals xs) = list_all vwf xs"
| "awf (AAnyMap m) = (mwf m \<and> list_all (\<lambda>(k, b). b) (map (map_prod id awf) m))"
| "awf (AValMap m) = (mwf m \<and> list_all (\<lambda>(k, v). vwf v) m)"
| "awf (ANum x) = True"
| "awf (ASeq xs) = list_all id (map awf xs)"
| "awf (AStrMap m) = (mwf m \<and> list_all (\<lambda>(k, b). b) (map (map_prod id awf) m))"
| "awf (ABytes bs) = True"
| "awf (ARaw format bs) = True"
| "awf (AOther text) = True"

text \<open>A value without a \<open>RawValue\<close> anywhere, and a value with every source name dropped.\<close>

primrec rawFree :: "govalue \<Rightarrow> bool" and rawFreeD :: "vdata \<Rightarrow> bool" where
  "rawFree (Value d src) = rawFreeD d"
| "rawFreeD NullV = True"
| "rawFreeD (StringV s bu bi) = True"
| "rawFreeD (IntV i) = True"
| "rawFreeD (FloatV f) = True"
| "rawFreeD (BoolV b) = True"
| "rawFreeD (TimeV t) = True"
| "rawFreeD (DurationV d) = True"
| "rawFreeD (SliceV xs) = list_all id (map rawFree xs)"
| "rawFreeD (MapV m) = list_all (\<lambda>(k, b). b) (map (map_prod id rawFree) m)"
| "rawFreeD (RawV format bs) = False"

primrec dropSources :: "govalue \<Rightarrow> govalue" and dropSourcesD :: "vdata \<Rightarrow> vdata" where
  "dropSources (Value d src) = mk (dropSourcesD d)"
| "dropSourcesD NullV = NullV"
| "dropSourcesD (StringV s bu bi) = StringV s bu bi"
| "dropSourcesD (IntV i) = IntV i"
| "dropSourcesD (FloatV f) = FloatV f"
| "dropSourcesD (BoolV b) = BoolV b"
| "dropSourcesD (TimeV t) = TimeV t"
| "dropSourcesD (DurationV d) = DurationV d"
| "dropSourcesD (SliceV xs) = SliceV (map dropSources xs)"
| "dropSourcesD (MapV m) = MapV (map (map_prod id dropSources) m)"
| "dropSourcesD (RawV format bs) = RawV format bs"

lemma mkeys_map_prod [simp]: "mkeys (map (map_prod id f) m) = mkeys m"
  by (induction m) auto

lemma mwf_map_prod [simp]: "mwf (map (map_prod id f) m) = mwf m"
  by (simp add: mwf_def)

lemma mget_map_prod: "mget (map (map_prod id f) m) k = map_option f (mget m k)"
  by (induction m) auto

lemma withSource_simps [simp]:
  "vdata (withSource s v) = vdata v" "vsource (withSource s v) = s" "Kind (withSource s v) = Kind v"
  "withSource s (withSource t v) = withSource s v"
  by (simp_all add: withSource_def Kind_def)

lemma vwf_vdata: "vwf v = dwf (vdata v)"
  by (cases v) simp

lemma vwf_withSource [simp]: "vwf (withSource s v) = vwf v"
  by (simp add: vwf_vdata)

lemma vwf_mget: "dwf (MapV m) \<Longrightarrow> mget m k = Some v \<Longrightarrow> vwf v"
  by (induction m) (auto split: if_splits)

lemma AsMap_Inr: "AsMap v = Inr m \<longleftrightarrow> vdata v = MapV m"
  by (cases v) (auto simp: AsMap_def split: vdata.splits)

lemma AsSlice_Inr: "AsSlice v = Inr xs \<longleftrightarrow> vdata v = SliceV xs"
  by (cases v) (auto simp: AsSlice_def split: vdata.splits)

lemma Kind_MapKind: "Kind v = MapKind \<longleftrightarrow> (\<exists>m. vdata v = MapV m)"
  by (cases "vdata v") (auto simp: Kind_def)

lemma Kind_SliceKind: "Kind v = SliceKind \<longleftrightarrow> (\<exists>m. vdata v = SliceV m)"
  by (cases "vdata v") (auto simp: Kind_def)

lemma uintValue_wf [simp]: "vwf (uintValue u)"
proof (cases "2 ^ 63 - 1 < unat u")
  case True
  then have "2 ^ 63 \<le> unat u" by simp
  with True show ?thesis by (simp add: uintValue_def markWf_def)
next
  case False
  then show ?thesis by (simp add: uintValue_def)
qed

lemma numberValue_wf [simp]: "vwf (numberValue s)"
  by (auto simp: numberValue_def markWf_def split: option.splits)

lemma numericValue_wf [simp]: "vwf (numericValue x)"
  by (cases x) auto

lemma NewValue_wf: "awf a \<Longrightarrow> vwf (NewValue a)"
proof (induction a)
  case (AVals xs)
  then show ?case by (simp add: list.pred_map list_all_iff)
next
  case (AValMap m)
  then show ?case by (auto simp: list.pred_map list_all_iff)
next
  case (AAnyMap m)
  then show ?case by (fastforce simp: list.pred_map list_all_iff)
next
  case (AStrMap m)
  then show ?case by (fastforce simp: list.pred_map list_all_iff)
qed (auto simp: list.pred_map list_all_iff markWf_def)

lemma NewValue_anyData:
  "dwf d \<Longrightarrow> kindOf d \<noteq> RawKind \<Longrightarrow> NewValue (anyData d) = mk d"
proof (cases d)
  case (StringV s bu bi)
  assume wf: "dwf d"
  show ?thesis
  proof (cases bu)
    case True
    with wf StringV obtain u where "s = formatUint u" "2 ^ 63 \<le> unat u" "\<not> bi"
      by (auto simp: markWf_def split: option.splits)
    then show ?thesis using StringV True by (auto simp: uintValue_def)
  next
    case False
    then show ?thesis using StringV wf by (auto simp: markWf_def numberValue_def)
  qed
qed auto

lemma NewValue_unwrap:
  shows "vwf v \<Longrightarrow> rawFree v \<Longrightarrow> NewValue (unwrapValueDeep v) = dropSources v"
    and "dwf d \<Longrightarrow> rawFreeD d \<Longrightarrow> NewValue (unwrapData d) = mk (dropSourcesD d)"
proof (induction v and d)
  case (StringV s bu bi)
  then show ?case using NewValue_anyData[of "StringV s bu bi"] by simp
next
  case (MapV m)
  then show ?case by (fastforce simp: list.pred_map list_all_iff)
qed (auto simp: list.pred_map list_all_iff)


section \<open>Integers keep their value\<close>

fun gonumInt :: "gonum \<Rightarrow> int option" where
  "gonumInt (GInt x) = Some (sint x)"
| "gonumInt (GInt8 x) = Some (sint x)"
| "gonumInt (GInt16 x) = Some (sint x)"
| "gonumInt (GInt32 x) = Some (sint x)"
| "gonumInt (GInt64 x) = Some (sint x)"
| "gonumInt (GUint x) = Some (uint x)"
| "gonumInt (GUint8 x) = Some (uint x)"
| "gonumInt (GUint16 x) = Some (uint x)"
| "gonumInt (GUint32 x) = Some (uint x)"
| "gonumInt (GUint64 x) = Some (uint x)"
| "gonumInt (GFloat32 x) = None"
| "gonumInt (GFloat64 x) = None"

text \<open>The integer a Go value holds: a Go integer, or a \<open>json.Number\<close> of integer text.\<close>

fun anyInt :: "goany \<Rightarrow> int option" where
  "anyInt (ANum x) = gonumInt x"
| "anyInt (ANumber s) = (if isIntegerText s then textInt s else None)"
| "anyInt _ = None"

lemma unat_int: "unat u < n \<Longrightarrow> uint u < int n" "unat u \<le> n \<Longrightarrow> uint u \<le> int n"
  unfolding uint_nat by (simp_all only: of_nat_less_iff of_nat_le_iff)

lemma sint_small:
  fixes u :: uint64
  assumes "unat u < 2 ^ 63"
  shows "sint u = uint u"
proof -
  have "uint u < 2 ^ 63" using unat_int(1)[OF assms] by simp
  moreover have "- (2 ^ 63) \<le> uint u" by (rule order_trans[OF _ uint_ge_0]) simp
  ultimately have "signed_take_bit 63 (uint u) = uint u" by (intro signed_take_bit_int_eq_self) auto
  then show ?thesis by (simp add: sint_uint)
qed

lemma sint_small_uint: "uint u < 2 ^ 63 \<Longrightarrow> sint (u :: uint64) = uint u"
proof (rule sint_small)
  assume "uint u < 2 ^ 63"
  then have "int (unat u) < int (2 ^ 63)" unfolding uint_nat by simp
  then show "unat u < 2 ^ 63" by (simp only: of_nat_less_iff)
qed

lemma Any_uintValue: "anyInt (Any (uintValue u)) = Some (uint u)"
  using sint_small[of u] by (auto simp: uintValue_def Any_def)

lemma sint_scast64 [simp]:
  "sint (scast (x :: 8 word) :: int64) = sint x" "sint (scast (y :: 16 word) :: int64) = sint y"
  "sint (scast (z :: 32 word) :: int64) = sint z"
  by (auto intro!: sint_up_scast simp: is_up)

lemma sint_ucast64 [simp]:
  "sint (ucast (x :: 8 word) :: int64) = uint x" "sint (ucast (y :: 16 word) :: int64) = uint y"
  "sint (ucast (z :: 32 word) :: int64) = uint z"
proof -
  have a: "uint (ucast (x :: 8 word) :: int64) = uint x" "uint (ucast (y :: 16 word) :: int64) = uint y"
    "uint (ucast (z :: 32 word) :: int64) = uint z"
    by (auto intro!: uint_up_ucast simp: is_up)
  have b: "uint x < 2 ^ 8" "uint y < 2 ^ 16" "uint z < 2 ^ 32"
    using unsigned_less[of x] unsigned_less[of y] unsigned_less[of z] by simp_all
  show "sint (ucast x :: int64) = uint x" "sint (ucast y :: int64) = uint y"
    "sint (ucast z :: int64) = uint z"
    using a b by (simp_all add: sint_small_uint)
qed

lemma Any_numericValue: "gonumInt x = Some n \<Longrightarrow> anyInt (Any (numericValue x)) = Some n"
  by (cases x) (auto simp: Any_uintValue, auto simp: Any_def)

lemma digits_not_sign: "isDigit c \<Longrightarrow> c \<noteq> CHR ''-'' \<and> c \<noteq> CHR ''+''"
  by (auto simp: isDigit_iff)

lemma parseUint10_val:
  "parseUint10 s = Some u \<Longrightarrow> decVal 0 s = Some (unat u)"
  by (auto simp: parseUint10_def unat_of_nat take_bit_nat_eq_self split: if_splits option.splits)

lemma uint_sint_neg:
  fixes u :: int64
  assumes "unat u \<le> 2 ^ 63"
  shows "sint (- u) = - uint u"
proof -
  have lo: "- (2 ^ 63) \<le> - uint u" using unat_int(2)[OF assms] by simp
  have "sint (- u) = signed_take_bit 63 (- uint u)"
    using sint_sbintrunc'[of "- uint u", where ?'a = 64] by simp
  also have "\<dots> = - uint u"
  proof (rule signed_take_bit_int_eq_self)
    show "- uint u < 2 ^ 63" by (rule order.strict_trans1[of _ 0]) simp_all
  qed (rule lo)
  finally show ?thesis .
qed

lemma parseInt10_val:
  assumes "isIntegerText s" and "parseInt10 s = Some i"
  shows "textInt s = Some (sint i)"
proof (cases "hasPrefix s ''-''")
  case True
  then obtain t where s: "s = CHR ''-'' # t" by (auto simp: hasPrefix_iff)
  obtain u where u: "parseUint10 t = Some u" "unat u \<le> 2 ^ 63" "i = - u"
    using assms(2) by (auto simp: s parseInt10_def split: option.splits if_splits)
  then show ?thesis using parseUint10_val[OF u(1)] uint_sint_neg[OF u(2)]
    by (simp add: s textInt.simps)
next
  case False
  obtain c t where s: "s = c # t" "isDigit c"
    using assms(1) False by (cases s) (auto simp: isIntegerText_def trimPrefix_def Let_def)
  then obtain u where u: "parseUint10 s = Some u" "unat u < 2 ^ 63" "i = u"
    using assms(2) digits_not_sign[OF s(2)]
    by (auto simp: parseInt10_def split: option.splits if_splits)
  then show ?thesis using parseUint10_val[OF u(1)] sint_small[OF u(2)] digits_not_sign[OF s(2)] s
    by (simp add: textInt.simps)
qed

lemma Any_numberValue:
  assumes "isIntegerText s"
  shows "anyInt (Any (numberValue s)) = textInt s"
proof (cases "parseInt10 s")
  case (Some i)
  then show ?thesis using parseInt10_val[OF assms] assms by (simp add: numberValue_def Any_def)
next
  case None
  show ?thesis
  proof (cases "parseUint10 s")
    case (Some u)
    then obtain c t where "s = c # t" "c \<noteq> CHR ''-''"
      using decVal_digits[OF parseUint10_val[OF Some]] digits_not_sign
      by (cases s) (auto simp: parseUint10_def)
    then have "textInt s = Some (uint u)"
      using parseUint10_val[OF Some] by (simp add: textInt.simps)
    then show ?thesis using None Some assms Any_uintValue[of u] by (simp add: numberValue_def)
  qed (use None assms in \<open>simp add: numberValue_def Any_def\<close>)
qed


section \<open>Properties\<close>

text \<open>
  \<open>NewValue\<close> establishes the invariant of a value: every map in it is a map, the uint64 mark
  stands only on the decimal text of a uint64 above \<open>MaxInt64\<close>, and the big-integer mark only on
  integer text outside the ranges of int64 and uint64.
\<close>

theorem NewValue_invariant:
  assumes "awf a"
  shows "vwf (NewValue a)"
  using assms by (rule NewValue_wf)

lemma NewValue_invariant_witness:
  "vwf (NewValue (AAnyMap [(''k'', ANumber ''18446744073709551616''), (''n'', ANum (GUint64 18446744073709551615))]))"
  by (rule NewValue_invariant) simp

text \<open>
  \<open>NewValue\<close> inverts \<open>unwrapValueDeep\<close> and \<open>Value.Any\<close>: a well-formed value without raw bytes
  is rebuilt from its plain Go shape with nothing lost but its source names, big integers
  included, and from its \<open>Any\<close> form with nothing lost but its own source name.
\<close>

theorem unwrapValueDeep_roundtrip:
  assumes "vwf v" and "rawFree v"
  shows "NewValue (unwrapValueDeep v) = dropSources v \<and> NewValue (Any v) = withSource [] v"
proof -
  have "kindOf (vdata v) \<noteq> RawKind" using assms(2) by (cases v; cases "vdata v") auto
  then show ?thesis
    using assms NewValue_unwrap(1)[OF assms] NewValue_anyData[of "vdata v"]
    by (simp add: Any_def withSource_def vwf_vdata)
qed

lemma unwrapValueDeep_roundtrip_witness:
  "NewValue (unwrapValueDeep (Value (MapV [(''a'', Value (SliceV [Value (BoolV True) ''x'']) ''y'')]) ''z''))
    = mk (MapV [(''a'', mk (SliceV [mk (BoolV True)]))])"
  using unwrapValueDeep_roundtrip[of
      "Value (MapV [(''a'', Value (SliceV [Value (BoolV True) ''x'']) ''y'')]) ''z''"] by simp

text \<open>
  No integer is wrapped or rounded on the way in: whatever Go integer type \<open>NewValue\<close> is
  given, or a \<open>json.Number\<close> of integer text of any length, \<open>Value.Any\<close> gives back the same
  integer.
\<close>

theorem NewValue_integers_exact:
  "(gonumInt x = Some n \<longrightarrow> anyInt (Any (NewValue (ANum x))) = Some n)
   \<and> (isIntegerText s \<longrightarrow> anyInt (Any (NewValue (ANumber s))) = textInt s)"
  using Any_numericValue[of x n] Any_numberValue[of s] by simp

lemma NewValue_integers_exact_witness:
  "anyInt (Any (NewValue (ANum (GUint64 18446744073709551615)))) = Some 18446744073709551615
   \<and> anyInt (Any (NewValue (ANumber ''-12''))) = Some (- 12)"
proof -
  have t: "isIntegerText ''-12''" "textInt ''-12'' = Some (- 12)"
    by (simp_all add: isIntegerText_def trimPrefix_def isDigit_iff textInt.simps digitVal_def)
  have u: "gonumInt (GUint64 18446744073709551615) = Some 18446744073709551615" by simp
  show ?thesis
    using NewValue_integers_exact[of "GUint64 18446744073709551615" 18446744073709551615 "''-12''"] t u by simp
qed

text \<open>
  \<open>AsFloat64\<close> of an integer is exact up to \<open>2^53\<close> in magnitude; from there on an odd integer is
  never kept, whatever the comment of \<open>AsFloat64\<close> says of lossless widening.
\<close>

theorem AsFloat64_widening:
  "(abs (sint i) \<le> 2 ^ 53 \<longrightarrow> (\<exists>f. AsFloat64 (mk (IntV i)) = Inr f \<and> fscaled f = sint i * 2 ^ unitExp))
   \<and> (2 ^ 53 < abs (sint i) \<and> odd (sint i) \<longrightarrow>
       (\<exists>f. AsFloat64 (mk (IntV i)) = Inr f \<and> fscaled f \<noteq> sint i * 2 ^ unitExp))"
  using floatOfInt_exact[of i] fscaled_odd[of "floatOfInt i" "sint i"] by (auto simp: AsFloat64_def)

lemma AsFloat64_widening_witness:
  "(\<exists>f. AsFloat64 (mk (IntV 5)) = Inr f \<and> fscaled f = 5 * 2 ^ unitExp)
   \<and> (\<exists>f. AsFloat64 (mk (IntV 9007199254740993)) = Inr f \<and> fscaled f \<noteq> 9007199254740993 * 2 ^ unitExp)"
  using AsFloat64_widening[of 5] AsFloat64_widening[of 9007199254740993] by simp

text \<open>The maps of a decoded document have no key twice.\<close>

fun anyMapsOk :: "goany \<Rightarrow> bool" where
  "anyMapsOk (AAnyMap m) = (mwf m \<and> list_all (\<lambda>(k, v). anyMapsOk v) m)"
| "anyMapsOk (AAnys xs) = list_all anyMapsOk xs"
| "anyMapsOk v = True"

end
