(* ===== verification/Path.thy ===== *)
theory Path
  imports GoStrings "HOL-Library.Multiset"
begin

text \<open>
  \<open>path.go\<close>: paths, their canonical string form and its parser, the comparison that orders
  paths without rendering them, and the scan for top-level delimiters.

  A Go loop over a byte index \<open>i\<close> into \<open>s\<close> is a recursion over the suffix \<open>s[i:]\<close>; an index the
  code returns is counted from the start of that suffix. A Go slice that may be \<open>nil\<close> is an
  option.
\<close>

type_synonym path = "string list"

abbreviation delim :: char where "delim \<equiv> CHR ''.''"
abbreviation lbrack :: char where "lbrack \<equiv> CHR ''[''"
abbreviation rbrack :: char where "rbrack \<equiv> CHR '']''"

definition DefaultDelimiter :: string where
  "DefaultDelimiter = ''.''"

definition MakePath :: "string list \<Rightarrow> path" where
  "MakePath segments = segments"

text \<open>\<open>closingBracket(s, from)\<close> on the suffix \<open>s[from:]\<close>; \<open>None\<close> is \<open>-1\<close>.\<close>

fun closingBracket :: "string \<Rightarrow> nat option" where
  "closingBracket [] = None"
| "closingBracket [c] = (if c \<noteq> rbrack then None else Some 0)"
| "closingBracket (c # d # s) =
     (if c \<noteq> rbrack then map_option Suc (closingBracket (d # s))
      else if d = rbrack then map_option (\<lambda>n. Suc (Suc n)) (closingBracket s)
      else Some 0)"

text \<open>The loop of \<open>ParsePath\<close>: the rest of the input and the segment read so far.\<close>

fun parseLoop :: "string \<Rightarrow> string \<Rightarrow> path" where
  "parseLoop [] buf = [buf]"
| "parseLoop (c # s) buf =
     (if c = lbrack then
        (case closingBracket s of
           None \<Rightarrow> parseLoop s (buf @ [c])
         | Some e \<Rightarrow> parseLoop (drop (Suc e) s) (buf @ replaceAll (take e s) '']]'' '']''))
      else if c = delim then buf # parseLoop s []
      else parseLoop s (buf @ [c]))"

definition ParsePath :: "string \<Rightarrow> path" where
  "ParsePath s =
     (if s = '''' then []
      else if lbrack \<notin> set s then split s DefaultDelimiter
      else parseLoop s '''')"

definition needsBrackets :: "string \<Rightarrow> bool" where
  "needsBrackets seg = (containsStr seg DefaultDelimiter \<or> lbrack \<in> set seg)"

text \<open>One segment as \<open>Path.String\<close> writes it.\<close>

definition renderSeg :: "string \<Rightarrow> string" where
  "renderSeg seg =
     (if needsBrackets seg then lbrack # replaceAll seg '']'' '']]'' @ [rbrack] else seg)"

definition pathString :: "path \<Rightarrow> string" where
  "pathString p =
     (case p of
        [] \<Rightarrow> ''''
      | [seg] \<Rightarrow> (if seg = '''' then ''[]'' else if \<not> needsBrackets seg then seg
                 else join (map renderSeg p) DefaultDelimiter)
      | _ \<Rightarrow> join (map renderSeg p) DefaultDelimiter)"

text \<open>\<open>AppendCanonical\<close> writes the same form into a buffer, byte by byte.\<close>

fun appendEscaped :: "string \<Rightarrow> string \<Rightarrow> string" where
  "appendEscaped [] b = b"
| "appendEscaped (c # seg) b =
     appendEscaped seg ((if c = rbrack then b @ [rbrack] else b) @ [c])"

fun appendSegs :: "bool \<Rightarrow> path \<Rightarrow> string \<Rightarrow> string" where
  "appendSegs first [] b = b"
| "appendSegs first (seg # p) b =
     (let b' = (if first then b else b @ DefaultDelimiter)
      in if \<not> needsBrackets seg then appendSegs False p (b' @ seg)
         else appendSegs False p (appendEscaped seg (b' @ [lbrack]) @ [rbrack]))"

definition AppendCanonical :: "path \<Rightarrow> string \<Rightarrow> string" where
  "AppendCanonical p b =
     (if p = [] then b else if p = [''''] then b @ ''[]'' else appendSegs True p b)"

text \<open>\<open>strings.Compare\<close> and \<open>cmp.Compare\<close> on bytes.\<close>

definition compareStr :: "string \<Rightarrow> string \<Rightarrow> int" where
  "compareStr a b = (if a < b then -1 else if a = b then 0 else 1)"

definition compareByte :: "char \<Rightarrow> char \<Rightarrow> int" where
  "compareByte a b = (if a < b then -1 else if a = b then 0 else 1)"

definition bracketed :: "path \<Rightarrow> bool" where
  "bracketed p = (p = [''''] \<or> (\<exists>seg \<in> set p. needsBrackets seg))"

text \<open>
  The two segments at the first difference of two paths: where their bytes differ, or the byte
  of the longer one against the delimiter that follows the shorter one. The flags say whether
  each segment is the last of its path.
\<close>

fun compareSegs :: "bool \<Rightarrow> bool \<Rightarrow> string \<Rightarrow> string \<Rightarrow> int" where
  "compareSegs lastA lastB (x # sa) (y # sb) =
     (if x = y then compareSegs lastA lastB sa sb else compareByte x y)"
| "compareSegs lastA lastB [] (y # sb) = (if lastA then -1 else compareByte delim y)"
| "compareSegs lastA lastB (x # sa) [] = (if lastB then 1 else compareByte x delim)"
| "compareSegs lastA lastB [] [] = 0"

fun compareLoop :: "path \<Rightarrow> path \<Rightarrow> int" where
  "compareLoop [] [] = 0"
| "compareLoop [] (sb # b) = -1"
| "compareLoop (sa # a) [] = 1"
| "compareLoop (sa # a) (sb # b) =
     (if sa = sb then compareLoop a b else compareSegs (a = []) (b = []) sa sb)"

definition comparePaths :: "path \<Rightarrow> path \<Rightarrow> int" where
  "comparePaths a b =
     (if bracketed a \<or> bracketed b then compareStr (pathString a) (pathString b)
      else compareLoop a b)"

text \<open>\<open>slices.SortFunc(ps, comparePaths)\<close>, as an insertion sort by the comparator.\<close>

fun insertPath :: "path \<Rightarrow> path list \<Rightarrow> path list" where
  "insertPath p [] = [p]"
| "insertPath p (q # qs) = (if comparePaths p q \<le> 0 then p # q # qs else q # insertPath p qs)"

fun sortPaths :: "path list \<Rightarrow> path list" where
  "sortPaths [] = []"
| "sortPaths (p # ps) = insertPath p (sortPaths ps)"

text \<open>
  The indices \<open>topLevelDelims\<close> passes to its callback, in order; \<open>i\<close> is the index of the head
  of the suffix. A callback that returns false reads a prefix of this list.
\<close>

fun delimsFrom :: "string \<Rightarrow> nat \<Rightarrow> nat list" where
  "delimsFrom [] i = []"
| "delimsFrom (c # s) i =
     (if c = lbrack then
        (case closingBracket s of
           None \<Rightarrow> delimsFrom s (Suc i)
         | Some e \<Rightarrow> delimsFrom (drop (Suc e) s) (i + e + 2))
      else if c = delim then i # delimsFrom s (Suc i)
      else delimsFrom s (Suc i))"

definition topLevelDelims :: "string \<Rightarrow> nat list" where
  "topLevelDelims s = delimsFrom s 0"

fun pathEqual :: "path \<Rightarrow> path \<Rightarrow> bool" where
  "pathEqual [] [] = True"
| "pathEqual (x # p) (y # q) = (x = y \<and> pathEqual p q)"
| "pathEqual _ _ = False"

fun pathHasPrefix :: "path \<Rightarrow> path \<Rightarrow> bool" where
  "pathHasPrefix p [] = True"
| "pathHasPrefix [] (y # q) = False"
| "pathHasPrefix (x # p) (y # q) = (x = y \<and> pathHasPrefix p q)"

definition pathAfter :: "path \<Rightarrow> path \<Rightarrow> path option" where
  "pathAfter p pre = (if pathHasPrefix p pre then Some (drop (length pre) p) else None)"

definition pathAppend :: "path \<Rightarrow> string list \<Rightarrow> path" where
  "pathAppend p seg = p @ seg"


section \<open>Escaping\<close>

lemma replaceAll_Nil [simp]: "replaceAll [] (d # ds) new = []"
  by (subst replaceAll.simps) simp

lemma replaceAll_Cons:
  "replaceAll (c # s) (d # ds) new =
     (if hasPrefix (c # s) (d # ds)
      then new @ replaceAll (drop (length ds) s) (d # ds) new
      else c # replaceAll s (d # ds) new)"
proof (cases "hasPrefix (c # s) (d # ds)")
  case True
  then show ?thesis by (subst replaceAll.simps) simp
next
  case False
  then show ?thesis
    by (subst replaceAll.simps, subst (3) replaceAll.simps) (auto split: option.splits)
qed

lemma containsStr_byte: "containsStr s [d] \<longleftrightarrow> d \<in> set s"
  by (induction s) (auto simp: containsStr_def)

lemma needsBrackets_iff: "needsBrackets seg \<longleftrightarrow> delim \<in> set seg \<or> lbrack \<in> set seg"
  by (simp add: needsBrackets_def DefaultDelimiter_def containsStr_byte)

abbreviation esc :: "string \<Rightarrow> string" where
  "esc seg \<equiv> replaceAll seg '']'' '']]''"

lemma esc_Cons: "esc (c # s) = (if c = rbrack then rbrack # rbrack # esc s else c # esc s)"
  by (simp add: replaceAll_Cons)

lemma unesc_esc: "replaceAll (esc s) '']]'' '']'' = s"
proof (induction s)
  case (Cons c s)
  then show ?case by (cases "c = rbrack") (simp_all add: esc_Cons replaceAll_Cons)
qed simp

lemma closingBracket_Cons_other:
  "c \<noteq> rbrack \<Longrightarrow> closingBracket (c # s) = map_option Suc (closingBracket s)"
  by (cases s) auto

lemma closingBracket_esc:
  "r = [] \<or> hd r \<noteq> rbrack \<Longrightarrow> closingBracket (esc s @ rbrack # r) = Some (length (esc s))"
proof (induction s)
  case Nil
  then show ?case by (cases r) auto
next
  case (Cons c s)
  then show ?case
    by (cases "c = rbrack") (simp_all add: esc_Cons closingBracket_Cons_other)
qed


section \<open>Parsing inverts rendering\<close>

lemma parseLoop_plain:
  "delim \<notin> set seg \<Longrightarrow> lbrack \<notin> set seg \<Longrightarrow> parseLoop (seg @ r) buf = parseLoop r (buf @ seg)"
  by (induction seg arbitrary: buf) auto

lemma parseLoop_bracketed:
  "r = [] \<or> hd r \<noteq> rbrack \<Longrightarrow>
   parseLoop (lbrack # esc seg @ rbrack # r) buf = parseLoop r (buf @ seg)"
  by (simp add: closingBracket_esc unesc_esc)

lemma parseLoop_renderSeg:
  "r = [] \<or> hd r \<noteq> rbrack \<Longrightarrow> parseLoop (renderSeg seg @ r) buf = parseLoop r (buf @ seg)"
  by (cases "needsBrackets seg")
    (auto simp: renderSeg_def needsBrackets_iff parseLoop_plain parseLoop_bracketed
      simp del: parseLoop.simps)

lemma parseLoop_join:
  "p \<noteq> [] \<Longrightarrow> parseLoop (join (map renderSeg p) ''.'') [] = p"
proof (induction p)
  case (Cons seg p)
  show ?case
  proof (cases "p = []")
    case True
    then show ?thesis using parseLoop_renderSeg[of "[]" seg "[]"] by simp
  next
    case False
    then have "join (map renderSeg (seg # p)) ''.''
        = renderSeg seg @ ''.'' @ join (map renderSeg p) ''.''"
      by (simp add: join_Cons)
    with False Cons.IH show ?thesis by (simp add: parseLoop_renderSeg)
  qed
qed simp

lemma parseLoop_split:
  "lbrack \<notin> set s \<Longrightarrow>
   parseLoop s buf = (case split s ''.'' of [] \<Rightarrow> [buf] | t # ts \<Rightarrow> (buf @ t) # ts)"
proof (induction s arbitrary: buf)
  case (Cons c s)
  obtain t ts where t: "split s ''.'' = t # ts" by (meson split_byte_nonempty neq_Nil_conv)
  with Cons show ?case by (auto simp: split_byte_Cons)
qed simp

text \<open>The fast path for input without brackets agrees with the loop.\<close>

lemma ParsePath_loop: "ParsePath s = (if s = [] then [] else parseLoop s [])"
proof (cases "lbrack \<in> set s")
  case False
  moreover obtain t ts where "split s ''.'' = t # ts" by (meson split_byte_nonempty neq_Nil_conv)
  ultimately show ?thesis
    by (simp add: ParsePath_def DefaultDelimiter_def parseLoop_split)
qed (auto simp: ParsePath_def)

lemma pathString_join:
  "p \<noteq> [] \<Longrightarrow> p \<noteq> [[]] \<Longrightarrow> pathString p = join (map renderSeg p) ''.''"
  by (cases p rule: list.exhaust)
    (auto simp: pathString_def renderSeg_def DefaultDelimiter_def split: list.splits)

lemma join_render_nonempty:
  "p \<noteq> [] \<Longrightarrow> p \<noteq> [[]] \<Longrightarrow> join (map renderSeg p) ''.'' \<noteq> []"
  by (cases p rule: list.exhaust; cases "tl p")
    (auto simp: renderSeg_def)

lemma parse_pathString [simp]: "ParsePath (pathString p) = p"
proof (cases "p = [] \<or> p = [[]]")
  case True
  then show ?thesis
    by (auto simp: ParsePath_loop pathString_def replaceAll.simps)
next
  case False
  then show ?thesis
    by (simp add: ParsePath_loop pathString_join join_render_nonempty parseLoop_join)
qed

lemma pathString_inject [simp]: "pathString p = pathString q \<longleftrightarrow> p = q"
  by (metis parse_pathString)

lemma pathString_Nil [simp]: "pathString [] = []"
  by (simp add: pathString_def)

lemma pathString_eq_Nil [simp]: "pathString p = [] \<longleftrightarrow> p = []"
  by (metis parse_pathString pathString_Nil)

lemma ParsePath_Nil [simp]: "ParsePath [] = []"
  by (simp add: ParsePath_def)

text \<open>A string is canonical when it is the form of the path it parses to.\<close>

definition canonical :: "string \<Rightarrow> bool" where
  "canonical s \<longleftrightarrow> pathString (ParsePath s) = s"

lemma canonical_pathString [simp]: "canonical (pathString p)"
  by (simp add: canonical_def)

lemma canonical_no_bracket:
  assumes "lbrack \<notin> set s"
  shows "canonical s"
proof (cases "s = []")
  case False
  let ?ts = "split s ''.''"
  have segs: "\<forall>t \<in> set ?ts. \<not> needsBrackets t"
  proof
    fix t
    assume t: "t \<in> set ?ts"
    have "set t \<subseteq> set s"
      using t by (metis join_split_byte in_set_join_subset)
    then show "\<not> needsBrackets t" using t assms set_split_byte by (auto simp: needsBrackets_iff)
  qed
  have parse: "ParsePath s = ?ts"
    using False assms by (simp add: ParsePath_def DefaultDelimiter_def)
  have "?ts \<noteq> [[]]" using False join_split_byte[of s delim] by auto
  then have "pathString ?ts = join (map renderSeg ?ts) ''.''" by (simp add: pathString_join)
  also have "map renderSeg ?ts = ?ts" using segs by (simp add: renderSeg_def map_idI)
  finally show ?thesis by (simp add: canonical_def parse join_split_byte)
qed (simp add: canonical_def)


section \<open>Comparison without rendering\<close>

text \<open>What follows the first segment in the joined form: a delimiter before each segment.\<close>

definition tailForm :: "path \<Rightarrow> string" where
  "tailForm p = concat (map (\<lambda>seg. delim # seg) p)"

lemma tailForm_simps [simp]: "tailForm [] = []" "tailForm (seg # p) = delim # seg @ tailForm p"
  by (simp_all add: tailForm_def)

lemma join_tailForm: "join (seg # p) ''.'' = seg @ tailForm p"
  by (induction p arbitrary: seg) auto

lemma compareStr_refl [simp]: "compareStr s s = 0"
  by (simp add: compareStr_def)

lemma compareStr_Cons:
  "compareStr (x # s) (y # t) = (if x = y then compareStr s t else compareByte x y)"
  by (auto simp: compareStr_def compareByte_def)

lemma compareStr_append [simp]: "compareStr (s @ t) (s @ u) = compareStr t u"
  by (induction s) (simp_all add: compareStr_Cons)

lemma compareStr_Nil [simp]: "s \<noteq> [] \<Longrightarrow> compareStr [] s = -1" "s \<noteq> [] \<Longrightarrow> compareStr s [] = 1"
  by (cases s; simp add: compareStr_def)+

lemma compareByte_eq [simp]: "compareByte x y = 0 \<longleftrightarrow> x = y"
  by (simp add: compareByte_def)

lemma tailForm_eq_Nil [simp]: "tailForm p = [] \<longleftrightarrow> p = []"
  by (cases p) auto

lemma tailForm_Cons_ex: "p \<noteq> [] \<Longrightarrow> \<exists>r. tailForm p = delim # r"
  by (cases p) auto

lemma compareSegs_correct:
  "delim \<notin> set sa \<Longrightarrow> delim \<notin> set sb \<Longrightarrow> sa \<noteq> sb \<Longrightarrow>
   compareSegs (a = []) (b = []) sa sb = compareStr (sa @ tailForm a) (sb @ tailForm b)"
proof (induction "a = []" "b = []" sa sb rule: compareSegs.induct)
  case (1 x sa y sb)
  then show ?case by (auto simp: compareStr_Cons)
next
  case (2 y sb)
  then show ?case
    using tailForm_Cons_ex[of a] by (auto simp: compareStr_Cons)
next
  case (3 x sa)
  then show ?case
    using tailForm_Cons_ex[of b] by (auto simp: compareStr_Cons)
qed simp

lemma compareLoop_tailForm:
  "\<forall>s \<in> set a \<union> set b. delim \<notin> set s \<Longrightarrow>
   compareLoop a b = compareStr (tailForm a) (tailForm b)"
  by (induction a b rule: compareLoop.induct)
    (auto simp: compareSegs_correct compareStr_Cons)

lemma pathString_plain:
  assumes "\<not> bracketed (s # p)"
  shows "pathString (s # p) = s @ tailForm p"
proof -
  have "map renderSeg (s # p) = s # p"
    using assms by (auto simp: bracketed_def renderSeg_def intro!: map_idI)
  moreover have "s # p \<noteq> [[]]" using assms by (auto simp: bracketed_def)
  ultimately show ?thesis by (simp add: pathString_join join_tailForm del: list.map)
qed

lemma compareLoop_pathString:
  assumes "\<not> bracketed a" and "\<not> bracketed b"
  shows "compareLoop a b = compareStr (pathString a) (pathString b)"
proof -
  have nodelim: "\<forall>s \<in> set a \<union> set b. delim \<notin> set s"
    using assms by (auto simp: bracketed_def needsBrackets_iff)
  show ?thesis
  proof (cases a; cases b)
    fix sa a' sb b'
    assume a: "a = sa # a'" and b: "b = sb # b'"
    have "compareStr (pathString a) (pathString b)
        = compareStr (sa @ tailForm a') (sb @ tailForm b')"
      using assms a b by (simp add: pathString_plain)
    moreover have "compareLoop a b = compareStr (sa @ tailForm a') (sb @ tailForm b')"
      using nodelim a b by (auto simp: compareSegs_correct compareLoop_tailForm)
    ultimately show ?thesis by simp
  next
    fix sb b'
    assume "a = []" and "b = sb # b'"
    then show ?thesis using pathString_eq_Nil[of b] by simp
  next
    fix sa a'
    assume "a = sa # a'" and "b = []"
    then show ?thesis using pathString_eq_Nil[of a] by simp
  qed simp
qed

lemma comparePaths_compareStr: "comparePaths a b = compareStr (pathString a) (pathString b)"
  by (simp add: comparePaths_def compareLoop_pathString)

lemma comparePaths_le: "comparePaths a b \<le> 0 \<longleftrightarrow> pathString a \<le> pathString b"
  by (auto simp: comparePaths_compareStr compareStr_def)

lemma insertPath_insort: "insertPath p qs = insort_key pathString p qs"
  by (induction qs) (auto simp: comparePaths_le)

lemma sortPaths_sort_key: "sortPaths ps = sort_key pathString ps"
  by (induction ps) (auto simp: insertPath_insort sort_key_def)

lemma set_sortPaths [simp]: "set (sortPaths ps) = set ps"
  by (simp add: sortPaths_sort_key)


section \<open>Top-level delimiters\<close>

lemma delimsFrom_plain:
  "delim \<notin> set s \<Longrightarrow> lbrack \<notin> set s \<Longrightarrow> delimsFrom (s @ r) i = delimsFrom r (i + length s)"
  by (induction s arbitrary: i) auto

lemma delimsFrom_renderSeg:
  assumes "r = [] \<or> hd r \<noteq> rbrack"
  shows "delimsFrom (renderSeg s @ r) i = delimsFrom r (i + length (renderSeg s))"
proof (cases "needsBrackets s")
  case True
  with assms show ?thesis by (simp add: renderSeg_def closingBracket_esc add.commute add.left_commute)
next
  case False
  then show ?thesis by (simp add: renderSeg_def needsBrackets_iff delimsFrom_plain)
qed

text \<open>The joined form of a path, which is its canonical form but for the path \<open>[""]\<close>.\<close>

definition joinForm :: "path \<Rightarrow> string" where
  "joinForm p = join (map renderSeg p) ''.''"

lemma joinForm_single: "joinForm [s] = renderSeg s"
  by (simp add: joinForm_def)

lemma joinForm_Cons: "p \<noteq> [] \<Longrightarrow> joinForm (s # p) = renderSeg s @ delim # joinForm p"
  by (simp add: joinForm_def join_Cons)

lemma joinForm_pathString: "p \<noteq> [] \<Longrightarrow> p \<noteq> [[]] \<Longrightarrow> joinForm p = pathString p"
  by (simp add: joinForm_def pathString_join)

lemma delimsFrom_joinForm:
  "p \<noteq> [] \<Longrightarrow>
   delimsFrom (joinForm p) i = map (\<lambda>n. i + length (joinForm (take n p))) [1..<length p]"
proof (induction p arbitrary: i)
  case (Cons s p)
  show ?case
  proof (cases "p = []")
    case True
    then show ?thesis
      using delimsFrom_renderSeg[of "[]" s i] by (simp add: joinForm_single)
  next
    case False
    have "[1..<length (s # p)] = map Suc [0..<length p]"
      by (simp only: map_Suc_upt list.size One_nat_def add_Suc_right add_0_right)
    moreover have "[0..<length p] = 0 # [1..<length p]"
      using False by (simp add: upt_conv_Cons)
    ultimately have range: "[1..<length (s # p)] = 1 # map Suc [1..<length p]"
      by simp
    have "delimsFrom (joinForm (s # p)) i
        = (i + length (renderSeg s)) # delimsFrom (joinForm p) (Suc (i + length (renderSeg s)))"
      using False by (simp add: joinForm_Cons delimsFrom_renderSeg)
    also have "\<dots> = map (\<lambda>n. i + length (joinForm (take n (s # p)))) [1..<length (s # p)]"
      unfolding range using False
      by (auto simp: Cons.IH joinForm_single joinForm_Cons)
    finally show ?thesis .
  qed
qed simp

lemma joinForm_split:
  "0 < n \<Longrightarrow> n < length p \<Longrightarrow> joinForm p = joinForm (take n p) @ delim # joinForm (drop n p)"
proof (induction p arbitrary: n)
  case (Cons s p)
  then have "p \<noteq> []" by auto
  show ?case
  proof (cases "n = 1")
    case True
    with \<open>p \<noteq> []\<close> show ?thesis by (simp add: joinForm_Cons joinForm_single)
  next
    case False
    with Cons.prems obtain m where n: "n = Suc m" "0 < m" "m < length p" by (cases n) auto
    then have "take m p \<noteq> []" by auto
    with n Cons.IH[of m] \<open>p \<noteq> []\<close> show ?thesis by (simp add: joinForm_Cons)
  qed
qed simp

lemma pathHasPrefix_iff: "pathHasPrefix p q \<longleftrightarrow> (\<exists>r. p = q @ r)"
  by (induction p q rule: pathHasPrefix.induct) auto

lemma pathEqual_iff [simp]: "pathEqual p q \<longleftrightarrow> p = q"
  by (induction p q rule: pathEqual.induct) auto

lemma appendEscaped_esc: "appendEscaped seg b = b @ esc seg"
  by (induction seg arbitrary: b) (auto simp: esc_Cons)

lemma appendSegs_join:
  "appendSegs first p b = b @ (if p = [] then [] else (if first then [] else ''.'') @ joinForm p)"
  by (induction first p b rule: appendSegs.induct)
    (auto simp: Let_def appendEscaped_esc renderSeg_def DefaultDelimiter_def joinForm_single
      joinForm_Cons)


section \<open>Prefixes and the parent strings a delimiter scan sees\<close>

lemma pathAfter_append [simp]: "pathAfter (q @ r) q = Some r"
  by (auto simp: pathAfter_def pathHasPrefix_iff)

lemma pathAfter_Some: "pathAfter p q = Some r \<longleftrightarrow> p = q @ r"
  by (auto simp: pathAfter_def pathHasPrefix_iff)

text \<open>
  The prefixes \<open>s[:j]\<close> at the top-level delimiters of a rendered path are the joined forms of
  its proper nonempty prefixes, and \<open>s[j+1:]\<close> the joined form of what follows.
\<close>

definition delimSplits :: "string \<Rightarrow> (string \<times> string) list" where
  "delimSplits s = map (\<lambda>j. (take j s, drop (Suc j) s)) (topLevelDelims s)"

lemma delimSplits_joinForm:
  assumes "p \<noteq> []"
  shows "delimSplits (joinForm p)
    = map (\<lambda>n. (joinForm (take n p), joinForm (drop n p))) [1..<length p]"
  unfolding delimSplits_def topLevelDelims_def delimsFrom_joinForm[OF assms] map_map
proof (rule map_cong)
  fix n
  assume "n \<in> set [1..<length p]"
  then have "joinForm p = joinForm (take n p) @ delim # joinForm (drop n p)"
    by (simp add: joinForm_split)
  then show "((\<lambda>j. (take j (joinForm p), drop (Suc j) (joinForm p)))
      \<circ> (\<lambda>n. 0 + length (joinForm (take n p)))) n = (joinForm (take n p), joinForm (drop n p))"
    by simp
qed simp

lemma delimSplits_pathString:
  assumes "p \<noteq> []" and "p \<noteq> [[]]"
  shows "delimSplits (pathString p)
    = map (\<lambda>n. (joinForm (take n p), joinForm (drop n p))) [1..<length p]"
  using delimSplits_joinForm[OF assms(1)] assms by (simp add: joinForm_pathString)


lemma AppendCanonical_pathString: "AppendCanonical p b = b @ pathString p"
proof (cases "p = [] \<or> p = [[]]")
  case False
  then show ?thesis
    by (simp add: AppendCanonical_def appendSegs_join joinForm_pathString)
qed (auto simp: AppendCanonical_def pathString_def)

lemma sort_key_sorted: "sorted (map pathString (sortPaths ps))"
  by (simp add: sortPaths_sort_key)


section \<open>Properties\<close>

text \<open>
  C38: \<open>ParsePath\<close> inverts \<open>Path.String\<close> on every path, whatever bytes its segments hold (dots,
  brackets, empty segments), and \<open>AppendCanonical\<close> appends exactly that string.
\<close>

theorem path_string_roundtrip:
  "ParsePath (pathString p) = p \<and> AppendCanonical p b = b @ pathString p"
  by (simp add: AppendCanonical_pathString)

text \<open>
  \<open>comparePaths\<close>, which compares segment by segment without rendering, is the byte order of
  the canonical strings, and sorting with it gives a permutation sorted by canonical string.
\<close>

theorem comparePaths_string_order:
  "comparePaths a b = compareStr (pathString a) (pathString b)
   \<and> sorted (map pathString (sortPaths ps)) \<and> mset (sortPaths ps) = mset ps"
  by (simp add: comparePaths_compareStr sortPaths_sort_key)

text \<open>
  The byte indices \<open>topLevelDelims\<close> yields for a canonical key cut it into the joined forms of
  a proper nonempty prefix of its path and of the rest, one cut per prefix, in order: a dot
  inside a bracketed segment is never a cut.
\<close>

theorem topLevelDelims_cut_segments:
  assumes "p \<noteq> []" and "p \<noteq> [[]]"
  shows "map (\<lambda>j. (take j (pathString p), drop (Suc j) (pathString p))) (topLevelDelims (pathString p))
    = map (\<lambda>n. (joinForm (take n p), joinForm (drop n p))) [1..<length p]"
  using delimSplits_pathString[OF assms] by (simp add: delimSplits_def)

lemma topLevelDelims_cut_segments_witness:
  "map (\<lambda>j. (take j ''a.[b.c].d'', drop (Suc j) ''a.[b.c].d'')) (topLevelDelims ''a.[b.c].d'')
    = [(''a'', ''[b.c].d''), (''a.[b.c]'', ''d'')]"
proof -
  have s: "pathString [''a'', ''b.c'', ''d''] = ''a.[b.c].d''" by code_simp
  have "[1..<length [''a'', ''b.c'', ''d'']] = [1, 2]" by code_simp
  moreover have "joinForm [''a''] = ''a''" "joinForm [''b.c'', ''d''] = ''[b.c].d''"
    "joinForm [''a'', ''b.c''] = ''a.[b.c]''" "joinForm [''d''] = ''d''" by code_simp+
  ultimately show ?thesis
    using topLevelDelims_cut_segments[of "[''a'', ''b.c'', ''d'']"] by (simp add: s)
qed

end
