(* ===== verification/Source.thy ===== *)
theory Source
  imports Value Path
begin

text \<open>
  \<open>source.go\<close>: what the registry sees of a configuration source. \<open>Get\<close> returns Go's triple
  \<open>(Value, bool, error)\<close> as \<open>Inl\<close> an error, \<open>Inr None\<close> for "not present", \<open>Inr (Some v)\<close> for
  "set". The optional capability \<open>nativeKeyer\<close> is an optional function, and \<open>srcUnscoped\<close> says
  that the source is an \<open>OSEnvSource\<close> without a prefix, which \<open>Save\<close> tests by type; \<open>srcClose\<close> is
  the error its \<open>Close\<close> returns. The locale
  \<open>source_contract\<close> is the documented promise of the interface; the theories of the concrete
  sources interpret it.
\<close>

record source =
  srcName :: string
  srcGet :: "path \<Rightarrow> string + govalue option"
  srcKeys :: "path list"
  srcNative :: "(path \<Rightarrow> string) option"
  srcUnscoped :: bool
  srcClose :: "string option"

text \<open>\<open>map[string]struct{}\<close>, a set of strings.\<close>

type_synonym strset = "unit gomap"

definition sadd :: "string \<Rightarrow> strset \<Rightarrow> strset" where
  "sadd k m = mput k () m"

lemma mhas_sadd [simp]: "mhas (sadd j m) k \<longleftrightarrow> k = j \<or> mhas m k"
  by (auto simp: sadd_def mhas_def mget_mput)

lemma mwf_sadd [simp]: "mwf m \<Longrightarrow> mwf (sadd j m)"
  by (simp add: sadd_def)

text \<open>
  The documented promise of the interface, for a kind of source with states \<open>'s\<close>: \<open>Get\<close> reports
  no error and \<open>Keys\<close> is sorted by canonical string. A source is faithful when moreover every path
  it lists can be read, which is what lets the registry resolve every key it lists.
\<close>

locale source_base =
  fixes get :: "'s \<Rightarrow> path \<Rightarrow> string + govalue option"
    and keys :: "'s \<Rightarrow> path list"
  assumes get_no_error: "get s p \<noteq> Inl e"
    and keys_sorted: "sorted (map pathString (keys s))"
begin

lemma get_cases: "get s p = Inr None \<or> (\<exists>v. get s p = Inr (Some v))"
proof (cases "get s p")
  case (Inl e)
  with get_no_error show ?thesis by blast
next
  case (Inr v)
  then show ?thesis by (cases v) auto
qed

lemma keys_first: "keys s = p # ps \<Longrightarrow> q \<in> set (keys s) \<Longrightarrow> pathString p \<le> pathString q"
  using keys_sorted[of s] by auto

end

locale source_contract = source_base get keys
  for get :: "'s \<Rightarrow> path \<Rightarrow> string + govalue option" and keys :: "'s \<Rightarrow> path list" +
  fixes ok :: "'s \<Rightarrow> bool"
  assumes keys_readable: "ok s \<Longrightarrow> p \<in> set (keys s) \<Longrightarrow> \<exists>v. get s p = Inr (Some v)"
begin

lemma absent_unlisted: "ok s \<Longrightarrow> get s p = Inr None \<Longrightarrow> p \<notin> set (keys s)"
  using keys_readable by force

end

end
