(* ===== verification/Transforms.thy ===== *)
theory Transforms
  imports Source
begin

text \<open>
  \<open>transforms.go\<close>: the projections of a path onto the flat name a source uses, and the inverse the
  environment sources enumerate with. \<open>strings.ToUpper\<close> and \<open>ToLower\<close> are modelled on ASCII text,
  where they map each byte; the theorems ask for ASCII segments.
\<close>

definition toUpper :: "string \<Rightarrow> string" where
  "toUpper s = map upperByte s"

definition toLower :: "string \<Rightarrow> string" where
  "toLower s = map lowerByte s"

definition SnakeUpperTransform :: "path \<Rightarrow> string" where
  "SnakeUpperTransform p = (if p = [] then [] else toUpper (join p ''_''))"

definition SnakeUpperPrefixTransform :: "string \<Rightarrow> path \<Rightarrow> string" where
  "SnakeUpperPrefixTransform prefix =
     (if prefix = [] then SnakeUpperTransform
      else (\<lambda>p. if p = [] then prefix else prefix @ toUpper (join p ''_'')))"

definition KebabTransform :: "path \<Rightarrow> string" where
  "KebabTransform p = (if p = [] then [] else join p ''-'')"

definition DotTransform :: "path \<Rightarrow> string" where
  "DotTransform p = (if p = [] then [] else join p ''.'')"

definition IdentityTransform :: "path \<Rightarrow> string" where
  "IdentityTransform p = DotTransform p"

text \<open>\<open>envNamesFoldCase\<close>, true on Windows, is an argument of the functions that read it.\<close>

definition hasEnvPrefix :: "bool \<Rightarrow> string \<Rightarrow> string \<Rightarrow> bool" where
  "hasEnvPrefix foldCase name prefix =
     (if foldCase
      then length prefix \<le> length name \<and> toLower (take (length prefix) name) = toLower prefix
      else hasPrefix name prefix)"

definition parseSnakeUpper :: "bool \<Rightarrow> string \<Rightarrow> string \<Rightarrow> path" where
  "parseSnakeUpper foldCase name prefix =
     (if prefix \<noteq> [] \<and> \<not> hasEnvPrefix foldCase name prefix then []
      else let rest = (if prefix \<noteq> [] then drop (length prefix) name else name)
           in if rest = [] then [] else map toLower (split rest ''_''))"


section \<open>Case mapping\<close>

lemma length_case [simp]: "length (toUpper s) = length s" "length (toLower s) = length s"
  by (simp_all add: toUpper_def toLower_def)

lemma case_append [simp]:
  "toUpper (s @ t) = toUpper s @ toUpper t" "toLower (s @ t) = toLower s @ toLower t"
  by (simp_all add: toUpper_def toLower_def)

lemma case_Nil [simp]:
  "toUpper [] = []" "toLower [] = []" "toUpper s = [] \<longleftrightarrow> s = []" "toLower s = [] \<longleftrightarrow> s = []"
  by (simp_all add: toUpper_def toLower_def)

lemma code_less: "c \<le> d \<longleftrightarrow> (of_char c :: nat) \<le> of_char d"
  by (simp add: less_eq_char_def)

lemma char_code_eq: "c = d \<longleftrightarrow> (of_char c :: nat) = of_char d"
  by simp

definition isLowerByte :: "char \<Rightarrow> bool" where
  "isLowerByte c = (97 \<le> (of_char c :: nat) \<and> (of_char c :: nat) \<le> 122)"

definition isUpperByte :: "char \<Rightarrow> bool" where
  "isUpperByte c = (65 \<le> (of_char c :: nat) \<and> (of_char c :: nat) \<le> 90)"

lemma upperByte_alt: "upperByte c = (if isLowerByte c then char_of ((of_char c :: nat) - 32) else c)"
  by (simp add: upperByte_def isLowerByte_def code_less)

lemma lowerByte_alt: "lowerByte c = (if isUpperByte c then char_of ((of_char c :: nat) + 32) else c)"
  by (simp add: lowerByte_def isUpperByte_def code_less)

lemma upper_code: "isLowerByte c \<Longrightarrow> (of_char (upperByte c) :: nat) = of_char c - 32"
  by (auto simp: upperByte_alt isLowerByte_def)

lemma lower_code: "isUpperByte c \<Longrightarrow> (of_char (lowerByte c) :: nat) = of_char c + 32"
  by (auto simp: lowerByte_alt isUpperByte_def)

lemma lower_not_upper: "isLowerByte c \<Longrightarrow> \<not> isUpperByte c"
  by (simp add: isLowerByte_def isUpperByte_def)

lemma upper_is_upper: "isLowerByte c \<Longrightarrow> isUpperByte (upperByte c)"
  unfolding isUpperByte_def by (simp only: upper_code) (auto simp: isLowerByte_def)

lemma lower_is_lower: "isUpperByte c \<Longrightarrow> isLowerByte (lowerByte c)"
  unfolding isLowerByte_def by (simp add: lower_code) (simp add: isUpperByte_def)

lemma lower_upper: "lowerByte (upperByte c) = lowerByte c"
proof (cases "isLowerByte c")
  case True
  have "(of_char (lowerByte (upperByte c)) :: nat) = of_char c - 32 + 32"
    using lower_code[OF upper_is_upper[OF True]] upper_code[OF True] by simp
  also have "\<dots> = of_char c" using True by (simp add: isLowerByte_def)
  finally have "lowerByte (upperByte c) = c" unfolding char_code_eq .
  with True show ?thesis by (simp add: lowerByte_alt lower_not_upper)
qed (simp add: upperByte_alt)

lemma upper_lower: "upperByte (lowerByte c) = upperByte c"
proof (cases "isUpperByte c")
  case True
  have "(of_char (upperByte (lowerByte c)) :: nat) = of_char c"
    using upper_code[OF lower_is_lower[OF True]] lower_code[OF True] by simp
  then have "upperByte (lowerByte c) = c" unfolding char_code_eq .
  with True show ?thesis using lower_not_upper[of c] by (auto simp: upperByte_alt)
qed (simp add: lowerByte_alt)

lemma upper_underscore: "upperByte c = CHR ''_'' \<longleftrightarrow> c = CHR ''_''"
proof (cases "isLowerByte c")
  case True
  have "isUpperByte (upperByte c)" using upper_is_upper[OF True] .
  moreover have "\<not> isUpperByte CHR ''_''" "\<not> isLowerByte CHR ''_''"
    by (simp_all add: isUpperByte_def isLowerByte_def)
  ultimately show ?thesis using True by metis
qed (simp add: upperByte_alt)

lemma toLower_toUpper [simp]: "toLower (toUpper s) = toLower s"
  by (simp add: toLower_def toUpper_def lower_upper)

lemma toUpper_toLower [simp]: "toUpper (toLower s) = toUpper s"
  by (simp add: toLower_def toUpper_def upper_lower)

lemma toUpper_idem [simp]: "toUpper (toUpper s) = toUpper s"
  by (metis toLower_toUpper toUpper_toLower)


section \<open>The snake-upper round trip\<close>

lemma toUpper_join: "toUpper (join p ''_'') = join (map toUpper p) ''_''"
  by (induction p "''_''" rule: join.induct) (auto simp: toUpper_def upperByte_def code_less)

lemma underscore_toUpper [simp]: "CHR ''_'' \<in> set (toUpper s) \<longleftrightarrow> CHR ''_'' \<in> set s"
  unfolding toUpper_def set_map image_iff by (metis upper_underscore)

lemma hasEnvPrefix_append [simp]: "hasEnvPrefix foldCase (prefix @ s) prefix"
  by (simp add: hasEnvPrefix_def)

lemma join_empty: "join p ''_'' = [] \<longleftrightarrow> p = [] \<or> p = [[]]"
  by (induction p "''_''" rule: join.induct) auto

lemma parse_snake_upper:
  assumes "p \<noteq> []" and "p \<noteq> [[]]" and "\<forall>seg \<in> set p. CHR ''_'' \<notin> set seg"
  shows "parseSnakeUpper foldCase (SnakeUpperPrefixTransform prefix p) prefix = map toLower p"
proof -
  have "split (toUpper (join p ''_'')) ''_'' = map toUpper p"
    unfolding toUpper_join using assms by (intro split_join_byte) auto
  then have "map toLower (split (toUpper (join p ''_'')) ''_'') = map toLower p" by simp
  moreover have "toUpper (join p ''_'') \<noteq> []" using assms by (simp add: join_empty)
  ultimately show ?thesis
    using assms(1) by (simp add: parseSnakeUpper_def SnakeUpperPrefixTransform_def SnakeUpperTransform_def Let_def)
qed

lemma upper_join_lower: "toUpper (join (map toLower ts) ''_'') = toUpper (join ts ''_'')"
  by (simp add: toUpper_join comp_def)

lemma snake_upper_parse:
  assumes "parseSnakeUpper False name prefix \<noteq> []"
  shows "SnakeUpperPrefixTransform prefix (parseSnakeUpper False name prefix)
    = prefix @ toUpper (drop (length prefix) name)"
  using assms
  by (auto simp: parseSnakeUpper_def SnakeUpperPrefixTransform_def SnakeUpperTransform_def Let_def
      upper_join_lower join_split_byte split: if_splits)


section \<open>Property\<close>

text \<open>
  The environment variable name of a path parses back to the path in lower case, under any
  prefix and in both case modes, when no segment holds an underscore; and a name that parses is the
  prefix followed by its rest in upper case when spelled back.
\<close>

theorem env_name_roundtrip:
  "(p \<noteq> [] \<and> p \<noteq> [[]] \<and> (\<forall>seg \<in> set p. CHR ''_'' \<notin> set seg)
      \<longrightarrow> parseSnakeUpper foldCase (SnakeUpperPrefixTransform prefix p) prefix = map toLower p)
   \<and> (parseSnakeUpper False name prefix \<noteq> []
      \<longrightarrow> SnakeUpperPrefixTransform prefix (parseSnakeUpper False name prefix)
        = prefix @ toUpper (drop (length prefix) name))"
  using parse_snake_upper snake_upper_parse by blast

lemma env_name_roundtrip_witness:
  "parseSnakeUpper True (SnakeUpperPrefixTransform ''APP_'' [''Db'', ''host'']) ''APP_'' = [''db'', ''host'']
   \<and> SnakeUpperPrefixTransform ''APP_'' (parseSnakeUpper False ''APP_db_HOST'' ''APP_'') = ''APP_DB_HOST''"
proof -
  have f: "map toLower [''Db'', ''host''] = [''db'', ''host'']" "parseSnakeUpper False ''APP_db_HOST'' ''APP_'' \<noteq> []"
    "''APP_'' @ toUpper (drop (length ''APP_'') ''APP_db_HOST'') = ''APP_DB_HOST''"
    "\<forall>seg \<in> set [''Db'', ''host'']. CHR ''_'' \<notin> set seg" by code_simp+
  have "[''Db'', ''host''] \<noteq> []" "[''Db'', ''host''] \<noteq> [[]]" by simp_all
  with env_name_roundtrip[of "[''Db'', ''host'']" True "''APP_''" "''APP_db_HOST''"] f show ?thesis by metis
qed

end
