(* ===== verification/MapSource.thy ===== *)
theory MapSource
  imports Transforms
begin

text \<open>
  \<open>source_map.go\<close>: a source over the nested map a decoder produces, with the mode in which the
  top-level keys are environment variable names. \<open>map[string]any\<close> is \<open>AAnyMap\<close>; a value of any other
  dynamic type, a \<open>map[string]string\<close> included, is a leaf. The deep copies of the code rebuild an
  equal value, so a source never shares storage with its caller; \<open>owned\<close> maps are not copied.
\<close>

record mapSource =
  msName :: string
  msData :: "goany gomap"
  msEnvKeys :: "string option"

definition envKeyName :: "mapSource \<Rightarrow> path \<Rightarrow> string" where
  "envKeyName s p = (case msEnvKeys s of Some prefix \<Rightarrow> SnakeUpperPrefixTransform prefix p | None \<Rightarrow> [])"

definition mapNativeKey :: "mapSource \<Rightarrow> path \<Rightarrow> string" where
  "mapNativeKey s p = (if msEnvKeys s = None then pathString p else envKeyName s p)"

text \<open>\<open>deepCopyMap\<close> and \<open>deepCopyValue\<close>.\<close>

primrec deepCopyValue :: "goany \<Rightarrow> goany" where
  "deepCopyValue ANil = ANil"
| "deepCopyValue (AVal v) = AVal v"
| "deepCopyValue (ANumber s) = ANumber s"
| "deepCopyValue (AStr s) = AStr s"
| "deepCopyValue (ABool b) = ABool b"
| "deepCopyValue (ATime t) = ATime t"
| "deepCopyValue (ADur d) = ADur d"
| "deepCopyValue (AAnys xs) = AAnys (map deepCopyValue xs)"
| "deepCopyValue (AVals xs) = AVals xs"
| "deepCopyValue (AAnyMap m) = AAnyMap (map (map_prod id deepCopyValue) m)"
| "deepCopyValue (AValMap m) = AValMap m"
| "deepCopyValue (ANum x) = ANum x"
| "deepCopyValue (ASeq xs) = ASeq xs"
| "deepCopyValue (AStrMap m) = AStrMap m"
| "deepCopyValue (ABytes bs) = ABytes bs"
| "deepCopyValue (ARaw f bs) = ARaw f bs"
| "deepCopyValue (AOther t) = AOther t"

definition deepCopyMap :: "goany gomap \<Rightarrow> goany gomap" where
  "deepCopyMap m = map (map_prod id deepCopyValue) m"

definition NewMapSource :: "string \<Rightarrow> goany gomap \<Rightarrow> mapSource" where
  "NewMapSource name m = \<lparr>msName = name, msData = deepCopyMap m, msEnvKeys = None\<rparr>"

definition newFileMapSource :: "string \<Rightarrow> goany gomap \<Rightarrow> bool \<Rightarrow> string option \<Rightarrow> mapSource" where
  "newFileMapSource name decoded owned envKeys =
     \<lparr>msName = name, msData = (if owned then decoded else deepCopyMap decoded), msEnvKeys = envKeys\<rparr>"

definition mapReplace :: "goany gomap \<Rightarrow> mapSource \<Rightarrow> mapSource" where
  "mapReplace m s = s\<lparr>msData := deepCopyMap m\<rparr>"

definition replaceOwned :: "goany gomap \<Rightarrow> mapSource \<Rightarrow> mapSource" where
  "replaceOwned m s = s\<lparr>msData := m\<rparr>"

text \<open>The type assertion \<open>v.(map[string]any)\<close>, and the walk of \<open>Get\<close> along the path.\<close>

fun asAnyMap :: "goany \<Rightarrow> goany gomap option" where
  "asAnyMap (AAnyMap m) = Some m"
| "asAnyMap a = None"

fun walkAny :: "goany \<Rightarrow> path \<Rightarrow> goany option" where
  "walkAny a [] = Some a"
| "walkAny a (seg # p) =
     (case asAnyMap a of
        Some m \<Rightarrow> (case mget m seg of Some b \<Rightarrow> walkAny b p | None \<Rightarrow> None)
      | None \<Rightarrow> None)"

definition mapGet :: "mapSource \<Rightarrow> path \<Rightarrow> string + govalue option" where
  "mapGet s p =
     (if p = [] then Inr None
      else let p' = (if msEnvKeys s \<noteq> None then [envKeyName s p] else p)
           in Inr (map_option NewValue (walkAny (AAnyMap (msData s)) p')))"

text \<open>\<open>leafPaths\<close> and the walk of \<open>leafWriter\<close>, which collects the leaves below a prefix.\<close>

lemma size_entry: "(k, v) \<in> set m \<Longrightarrow> size v < size (AAnyMap m)"
  by (induction m) auto

lemma asAnyMap_Some [simp]: "asAnyMap a = Some m \<longleftrightarrow> a = AAnyMap m"
  by (cases a) auto

function leafWalk :: "path \<Rightarrow> goany gomap \<Rightarrow> path list" where
  "leafWalk prefix m =
     concat (map (\<lambda>(k, v). case asAnyMap v of
         Some sub \<Rightarrow> leafWalk (prefix @ [k]) sub
       | None \<Rightarrow> [prefix @ [k]]) m)"
  by pat_completeness auto
termination
  by (relation "measure (\<lambda>(prefix, m). size (AAnyMap m))") (auto dest: size_entry)

declare leafWalk.simps [simp del]

definition leafPaths :: "goany gomap \<Rightarrow> path list" where
  "leafPaths m = leafWalk [] m"

definition mapKeys :: "bool \<Rightarrow> mapSource \<Rightarrow> path list" where
  "mapKeys foldCase s =
     (case msEnvKeys s of
        Some prefix \<Rightarrow>
          sortPaths (filter (\<lambda>p. p \<noteq> []) (map (\<lambda>name.
              let p = parseSnakeUpper foldCase name prefix
              in if p \<noteq> [] \<and> envKeyName s p = name then p else []) (mkeys (msData s))))
      | None \<Rightarrow> sortPaths (leafPaths (msData s)))"


section \<open>Copies\<close>

lemma map_entries_id: "(\<And>k v. (k, v) \<in> set m \<Longrightarrow> f v = v) \<Longrightarrow> map (map_prod id f) m = m"
  by (rule map_idI) auto

lemma deepCopyValue_id [simp]: "deepCopyValue a = a"
  by (induction a) (auto simp: map_idI intro!: map_entries_id)

lemma deepCopyMap_id [simp]: "deepCopyMap m = m"
  by (simp add: deepCopyMap_def map_entries_id)


section \<open>Leaves\<close>

text \<open>What \<open>Keys\<close> lists: the paths that walk to a value that is not a map.\<close>

definition leafAt :: "goany \<Rightarrow> path \<Rightarrow> bool" where
  "leafAt a p = (\<exists>b. walkAny a p = Some b \<and> asAnyMap b = None)"

lemma leafWalk_in:
  "q \<in> set (leafWalk prefix m) \<longleftrightarrow>
     (\<exists>k v. (k, v) \<in> set m \<and>
        (case asAnyMap v of Some sub \<Rightarrow> q \<in> set (leafWalk (prefix @ [k]) sub) | None \<Rightarrow> q = prefix @ [k]))"
proof -
  define g where "g k v = (case asAnyMap v of Some sub \<Rightarrow> leafWalk (prefix @ [k]) sub | None \<Rightarrow> [prefix @ [k]])" for k v
  have "q \<in> set (leafWalk prefix m) \<longleftrightarrow> (\<exists>k v. (k, v) \<in> set m \<and> q \<in> set (g k v))"
    unfolding leafWalk.simps[of prefix m] g_def[symmetric] by auto
  also have "\<dots> \<longleftrightarrow> (\<exists>k v. (k, v) \<in> set m \<and>
      (case asAnyMap v of Some sub \<Rightarrow> q \<in> set (leafWalk (prefix @ [k]) sub) | None \<Rightarrow> q = prefix @ [k]))"
    by (intro ex_cong1 conj_cong refl) (simp add: g_def split: option.split)
  finally show ?thesis .
qed

lemma leafAt_Cons: "leafAt (AAnyMap m) (k # p) \<longleftrightarrow> (\<exists>v. mget m k = Some v \<and> leafAt v p)"
  by (auto simp: leafAt_def split: option.splits)

lemma leafAt_leaf: "asAnyMap a = None \<Longrightarrow> leafAt a p \<longleftrightarrow> p = []"
  by (cases p) (auto simp: leafAt_def)

lemma leafAt_map_Nil: "\<not> leafAt (AAnyMap m) []"
  by (simp add: leafAt_def)

lemma awf_entries: "awf (AAnyMap m) \<Longrightarrow> mwf m \<and> (\<forall>(k, v) \<in> set m. awf v)"
  by (auto simp: list_all_iff)

lemma leafWalk_iff:
  "awf (AAnyMap m) \<Longrightarrow> q \<in> set (leafWalk prefix m) \<longleftrightarrow> (\<exists>r. q = prefix @ r \<and> leafAt (AAnyMap m) r)"
proof (induction prefix m arbitrary: q rule: leafWalk.induct)
  case (1 prefix m)
  have wf: "mwf m" "\<And>k v. (k, v) \<in> set m \<Longrightarrow> awf v" using awf_entries[OF "1.prems"] by auto
  have sub: "q \<in> set (leafWalk (prefix @ [k]) n) \<longleftrightarrow> (\<exists>r. q = (prefix @ [k]) @ r \<and> leafAt (AAnyMap n) r)"
    if "(k, AAnyMap n) \<in> set m" for k n
    using that wf(2)[OF that] by (intro "1.IH") auto
  have "q \<in> set (leafWalk prefix m) \<longleftrightarrow> (\<exists>k v. (k, v) \<in> set m \<and> (\<exists>r. q = prefix @ k # r \<and> leafAt v r))"
    unfolding leafWalk_in[of q prefix m]
  proof (intro ex_cong1 conj_cong refl)
    fix k v assume kv: "(k, v) \<in> set m"
    show "(case asAnyMap v of None \<Rightarrow> q = prefix @ [k] | Some n \<Rightarrow> q \<in> set (leafWalk (prefix @ [k]) n))
        = (\<exists>r. q = prefix @ k # r \<and> leafAt v r)"
      using sub kv leafAt_leaf[of v] by (cases "asAnyMap v") auto
  qed
  also have "\<dots> \<longleftrightarrow> (\<exists>r. q = prefix @ r \<and> leafAt (AAnyMap m) r)"
    using leafAt_Cons leafAt_map_Nil mwf_mget_iff[OF wf(1)] by (metis neq_Nil_conv)
  finally show ?case .
qed

lemma leafPaths_iff: "awf (AAnyMap m) \<Longrightarrow> p \<in> set (leafPaths m) \<longleftrightarrow> leafAt (AAnyMap m) p"
  by (simp only: leafPaths_def leafWalk_iff) simp



section \<open>The contract\<close>

text \<open>The source value the registry holds for a map source.\<close>

definition mapAsSource :: "bool \<Rightarrow> mapSource \<Rightarrow> source" where
  "mapAsSource foldCase s =
     \<lparr>srcName = msName s, srcGet = mapGet s, srcKeys = mapKeys foldCase s,
      srcNative = Some (mapNativeKey s), srcUnscoped = False, srcClose = None\<rparr>"

lemma mapKeys_plain:
  "msEnvKeys s = None \<Longrightarrow> awf (AAnyMap (msData s)) \<Longrightarrow>
   p \<in> set (mapKeys foldCase s) \<longleftrightarrow> leafAt (AAnyMap (msData s)) p"
  by (simp add: mapKeys_def leafPaths_iff del: awf.simps)

lemma mapKeys_env:
  "msEnvKeys s = Some prefix \<Longrightarrow> p \<in> set (mapKeys foldCase s) \<longleftrightarrow>
   p \<noteq> [] \<and> (\<exists>name \<in> set (mkeys (msData s)). p = parseSnakeUpper foldCase name prefix \<and> envKeyName s p = name)"
  by (auto simp: mapKeys_def Let_def)

lemma mapKeys_readable:
  assumes wf: "awf (AAnyMap (msData s))" and p: "p \<in> set (mapKeys foldCase s)"
  shows "\<exists>v. mapGet s p = Inr (Some v)"
proof (cases "msEnvKeys s")
  case None
  then have leaf: "leafAt (AAnyMap (msData s)) p" using mapKeys_plain[OF _ wf] p by simp
  then have "p \<noteq> []" using leafAt_map_Nil by auto
  with None leaf show ?thesis by (auto simp: mapGet_def leafAt_def)
next
  case (Some prefix)
  then have "p \<noteq> []" "envKeyName s p \<in> set (mkeys (msData s))"
    using p by (auto simp: mapKeys_env)
  then show ?thesis
    using Some mget_None_iff[of "msData s" "envKeyName s p"] by (auto simp: mapGet_def)
qed

interpretation map_source: source_contract mapGet "mapKeys foldCase" "\<lambda>s. awf (AAnyMap (msData s))"
  for foldCase
proof
  show "mapGet s p \<noteq> Inl e" for s p e by (simp add: mapGet_def Let_def)
  show "sorted (map pathString (mapKeys foldCase s))" for s
    unfolding mapKeys_def by (auto simp: sort_key_sorted split: option.split)
  show "\<exists>v. mapGet s p = Inr (Some v)" if "awf (AAnyMap (msData s))" "p \<in> set (mapKeys foldCase s)" for s p
    using that by (rule mapKeys_readable)
qed


section \<open>Property\<close>

text \<open>
  A map source lists exactly the paths of the values in its map that are not maps, and answers
  each with that value.
\<close>

theorem map_keys_exact:
  assumes "msEnvKeys s = None" and "awf (AAnyMap (msData s))"
  shows "p \<in> set (mapKeys foldCase s) \<longleftrightarrow>
    (\<exists>a. walkAny (AAnyMap (msData s)) p = Some a \<and> asAnyMap a = None
       \<and> mapGet s p = Inr (Some (NewValue a)))"
  using assms leafAt_map_Nil[of "msData s"]
  by (auto simp: mapKeys_plain leafAt_def mapGet_def simp del: awf.simps)

lemma map_keys_exact_witness:
  "[''a'', ''b''] \<in> set (mapKeys False (NewMapSource ''m'' [(''a'', AAnyMap [(''b'', AStr ''x'')])]))"
  by (subst map_keys_exact) (simp_all add: NewMapSource_def mapGet_def mget_def)

end
