(* ===== verification/Alias.thy ===== *)
theory Alias
  imports Path
begin

text \<open>
  \<open>alias.go\<close>, and the inversion of the alias map of \<open>snapshot.go\<close>: the walk along an alias
  chain, bounded by \<open>maxAliasDepth\<close>, and the check that a new alias closes no cycle. The bound
  is fuel of the code itself; \<open>resolved_not_alias\<close> says when it is enough.
\<close>

definition maxAliasDepth :: nat where
  "maxAliasDepth = 32"

fun followAlias :: "nat \<Rightarrow> string \<Rightarrow> string gomap \<Rightarrow> string" where
  "followAlias 0 cur aliases = cur"
| "followAlias (Suc n) cur aliases =
     (case mget aliases cur of None \<Rightarrow> cur | Some nxt \<Rightarrow> followAlias n nxt aliases)"

definition resolveAliasChain :: "string \<Rightarrow> string gomap \<Rightarrow> string" where
  "resolveAliasChain start aliases = followAlias maxAliasDepth start aliases"

text \<open>The loop of \<open>validateNoAliasCycle\<close>; the offending chain is \<open>Some\<close>, Go's \<open>nil\<close> is \<open>None\<close>.\<close>

fun cycleWalk ::
  "nat \<Rightarrow> string \<Rightarrow> string list \<Rightarrow> path list \<Rightarrow> string \<Rightarrow> string gomap \<Rightarrow> path list option" where
  "cycleWalk 0 alias visited chain cur existing = Some chain"
| "cycleWalk (Suc n) alias visited chain cur existing =
     (case mget existing cur of
        None \<Rightarrow> None
      | Some nxt \<Rightarrow>
          if nxt = alias then Some (chain @ [ParsePath nxt])
          else if nxt \<in> set visited then Some (chain @ [ParsePath nxt])
          else cycleWalk n alias (nxt # visited) (chain @ [ParsePath nxt]) nxt existing)"

definition validateNoAliasCycle :: "string \<Rightarrow> string \<Rightarrow> string gomap \<Rightarrow> path list option" where
  "validateNoAliasCycle alias canon existing =
     (if alias = canon then Some [ParsePath alias]
      else cycleWalk maxAliasDepth alias [alias] [ParsePath alias, ParsePath canon] canon existing)"

text \<open>\<open>invertAliases\<close>: the alias paths that resolve to each canonical key, sorted by string.\<close>

definition aliasesResolvingTo :: "string gomap \<Rightarrow> string \<Rightarrow> path list" where
  "aliasesResolvingTo aliases canon =
     map ParsePath (sort (filter (\<lambda>a. resolveAliasChain a aliases = canon) (mkeys aliases)))"

definition invertAliases :: "string gomap \<Rightarrow> path list gomap" where
  "invertAliases aliases =
     fold (\<lambda>a m. let canon = resolveAliasChain a aliases
                  in mput canon (aliasesResolvingTo aliases canon) m) (mkeys aliases) []"


section \<open>The alias graph\<close>

definition aliasRel :: "string gomap \<Rightarrow> (string \<times> string) set" where
  "aliasRel al = {(a, b). mget al a = Some b}"

lemma aliasRel_iff [simp]: "(a, b) \<in> aliasRel al \<longleftrightarrow> mget al a = Some b"
  by (simp add: aliasRel_def)

lemma aliasRel_Nil [simp]: "aliasRel [] = {}"
  by (simp add: aliasRel_def)

text \<open>The keys visited by a walk of \<open>n\<close> lookups that all succeed.\<close>

fun walkKeys :: "nat \<Rightarrow> string \<Rightarrow> string gomap \<Rightarrow> string list" where
  "walkKeys 0 k al = [k]"
| "walkKeys (Suc n) k al =
     k # (case mget al k of None \<Rightarrow> [] | Some nxt \<Rightarrow> walkKeys n nxt al)"

lemma followAlias_terminal: "mget al k = None \<Longrightarrow> followAlias n k al = k"
  by (cases n) auto

lemma walkKeys_reach: "j \<in> set (walkKeys n k al) \<Longrightarrow> (k, j) \<in> (aliasRel al)\<^sup>*"
proof (induction n arbitrary: k)
  case (Suc n)
  show ?case
  proof (cases "mget al k")
    case (Some nxt)
    then show ?thesis
      using Suc by (auto intro: converse_rtrancl_into_rtrancl)
  qed (use Suc.prems in auto)
qed simp

lemma followAlias_reach: "(k, followAlias n k al) \<in> (aliasRel al)\<^sup>*"
proof (induction n arbitrary: k)
  case (Suc n)
  show ?case
  proof (cases "mget al k")
    case (Some nxt)
    then show ?thesis
      using Suc by (auto intro: converse_rtrancl_into_rtrancl)
  qed simp
qed simp

lemma walkKeys_full:
  "mget al (followAlias n k al) \<noteq> None \<Longrightarrow>
   length (walkKeys n k al) = Suc n \<and> set (walkKeys n k al) \<subseteq> set (mkeys al)"
proof (induction n arbitrary: k)
  case 0
  then have "k \<in> set (mkeys al)" using mget_None_iff[of al k] by simp
  then show ?case by simp
next
  case (Suc n)
  then show ?case using mget_None_iff[of al k] by (cases "mget al k") auto
qed

lemma walkKeys_distinct: "acyclic (aliasRel al) \<Longrightarrow> distinct (walkKeys n k al)"
proof (induction n arbitrary: k)
  case (Suc n)
  show ?case
  proof (cases "mget al k")
    case (Some nxt)
    have "k \<notin> set (walkKeys n nxt al)"
    proof
      assume "k \<in> set (walkKeys n nxt al)"
      then have "(nxt, k) \<in> (aliasRel al)\<^sup>*" by (rule walkKeys_reach)
      with Some have "(k, k) \<in> (aliasRel al)\<^sup>+" by (simp add: rtrancl_into_trancl2)
      with Suc.prems show False by (simp add: acyclic_def)
    qed
    with Some Suc show ?thesis by simp
  qed simp
qed simp

lemma followAlias_enough:
  assumes "acyclic (aliasRel al)" and "length al \<le> n"
  shows "mget al (followAlias n k al) = None"
proof (rule ccontr)
  assume "mget al (followAlias n k al) \<noteq> None"
  then have len: "length (walkKeys n k al) = Suc n" and sub: "set (walkKeys n k al) \<subseteq> set (mkeys al)"
    using walkKeys_full by blast+
  have "Suc n = card (set (walkKeys n k al))"
    using walkKeys_distinct[OF assms(1)] len distinct_card by metis
  also have "\<dots> \<le> card (set (mkeys al))" by (rule card_mono) (use sub in auto)
  also have "\<dots> \<le> length al" using card_length[of "mkeys al"] by (simp add: mkeys_def)
  finally show False using assms(2) by simp
qed

lemma resolved_not_alias:
  "acyclic (aliasRel al) \<Longrightarrow> length al \<le> maxAliasDepth \<Longrightarrow>
   mget al (resolveAliasChain k al) = None"
  unfolding resolveAliasChain_def by (rule followAlias_enough)

lemma followAlias_add:
  "mget al (followAlias n k al) = None \<Longrightarrow> followAlias (n + m) k al = followAlias n k al"
proof (induction n arbitrary: k)
  case 0
  then show ?case by (simp add: followAlias_terminal)
next
  case (Suc n)
  then show ?case by (cases "mget al k") auto
qed

lemma resolveAliasChain_id [simp]: "mget al k = None \<Longrightarrow> resolveAliasChain k al = k"
  by (simp add: resolveAliasChain_def followAlias_terminal)

lemma resolveAliasChain_Nil [simp]: "resolveAliasChain k [] = k"
  by simp


section \<open>The cycle check\<close>

lemma aliasRel_step:
  "(cur, a) \<in> (aliasRel al)\<^sup>* \<longleftrightarrow>
     cur = a \<or> (\<exists>nxt. mget al cur = Some nxt \<and> (nxt, a) \<in> (aliasRel al)\<^sup>*)"
  by (metis aliasRel_iff converse_rtranclE converse_rtrancl_into_rtrancl rtrancl.rtrancl_refl)

lemma cycleWalk_None_avoids:
  "cycleWalk n a vis ch cur al = None \<Longrightarrow> cur \<noteq> a \<Longrightarrow> (cur, a) \<notin> (aliasRel al)\<^sup>*"
proof (induction n arbitrary: vis ch cur)
  case (Suc n)
  show ?case
  proof (cases "mget al cur")
    case None
    with Suc.prems(2) show ?thesis by (subst aliasRel_step) simp
  next
    case (Some nxt)
    with Suc.prems(1) have "nxt \<noteq> a" and "cycleWalk n a (nxt # vis) (ch @ [ParsePath nxt]) nxt al = None"
      by (auto split: if_splits)
    then have "(nxt, a) \<notin> (aliasRel al)\<^sup>*" by (metis Suc.IH)
    with Some Suc.prems(2) show ?thesis by (subst aliasRel_step) simp
  qed
qed simp

lemma cycleWalk_None_terminal:
  "cycleWalk (Suc n) a vis ch cur al = None \<Longrightarrow> mget al (followAlias n cur al) = None"
proof (induction n arbitrary: vis ch cur)
  case 0
  then show ?case by (auto split: option.splits if_splits)
next
  case (Suc n)
  show ?case
  proof (cases "mget al cur")
    case (Some nxt)
    then have "cycleWalk (Suc n) a (nxt # vis) (ch @ [ParsePath nxt]) nxt al = None"
      using Suc.prems[unfolded cycleWalk.simps(2)[of "Suc n"]]
      by (simp split: if_splits del: cycleWalk.simps)
    with Some show ?thesis by (simp add: Suc.IH)
  qed simp
qed

lemma cycleWalk_complete:
  assumes "acyclic (aliasRel al)"
  shows "mget al (followAlias n cur al) = None \<Longrightarrow> (cur, a) \<notin> (aliasRel al)\<^sup>* \<Longrightarrow>
    \<forall>v \<in> set vis. v = a \<or> (v, cur) \<in> (aliasRel al)\<^sup>* \<Longrightarrow>
    cycleWalk (Suc n) a vis ch cur al = None"
proof (induction n arbitrary: vis ch cur)
  case 0
  then show ?case by simp
next
  case (Suc n)
  show ?case
  proof (cases "mget al cur")
    case (Some nxt)
    then have step: "(cur, nxt) \<in> aliasRel al" by simp
    have "(nxt, a) \<notin> (aliasRel al)\<^sup>*"
      using step Suc.prems(2) by (meson converse_rtrancl_into_rtrancl)
    moreover have "nxt \<noteq> a" using calculation by blast
    moreover have "nxt \<notin> set vis"
    proof
      assume "nxt \<in> set vis"
      with \<open>nxt \<noteq> a\<close> Suc.prems(3) have "(nxt, cur) \<in> (aliasRel al)\<^sup>*" by auto
      with step have "(cur, cur) \<in> (aliasRel al)\<^sup>+" by (rule rtrancl_into_trancl2)
      with assms show False by (simp add: acyclic_def)
    qed
    moreover have "\<forall>v \<in> set (nxt # vis). v = a \<or> (v, nxt) \<in> (aliasRel al)\<^sup>*"
      using Suc.prems(3) step by (auto intro: rtrancl_into_rtrancl)
    moreover have "mget al (followAlias n nxt al) = None"
      using Suc.prems(1) Some by simp
    ultimately show ?thesis
      using Suc.IH[of nxt "nxt # vis" "ch @ [ParsePath nxt]"] Some
      unfolding cycleWalk.simps(2)[of "Suc n"] by (simp del: cycleWalk.simps)
  qed simp
qed

lemma aliasRel_mput: "aliasRel (mput a c al) \<subseteq> insert (a, c) (aliasRel al)"
  by (auto simp: mget_mput split: if_splits)

lemma validate_acyclic:
  assumes "acyclic (aliasRel al)" and "validateNoAliasCycle a c al = None"
  shows "acyclic (aliasRel (mput a c al))"
proof -
  have "(c, a) \<notin> (aliasRel al)\<^sup>*"
    using assms(2) cycleWalk_None_avoids
    by (auto simp: validateNoAliasCycle_def split: if_splits)
  then have "acyclic (insert (a, c) (aliasRel al))"
    using assms(1) by simp
  then show ?thesis by (rule acyclic_subset) (rule aliasRel_mput)
qed

lemma validateNoAliasCycle_walk:
  "a \<noteq> c \<Longrightarrow> validateNoAliasCycle a c al =
     cycleWalk (Suc (maxAliasDepth - 1)) a [a] [ParsePath a, ParsePath c] c al"
  by (simp add: validateNoAliasCycle_def maxAliasDepth_def del: cycleWalk.simps)

lemma validate_None_iff:
  assumes "acyclic (aliasRel al)"
  shows "validateNoAliasCycle a c al = None \<longleftrightarrow>
    (c, a) \<notin> (aliasRel al)\<^sup>* \<and> mget al (followAlias (maxAliasDepth - 1) c al) = None"
proof (cases "a = c")
  case False
  note walk = validateNoAliasCycle_walk[OF False]
  show ?thesis
  proof
    assume "validateNoAliasCycle a c al = None"
    then have w: "cycleWalk (Suc (maxAliasDepth - 1)) a [a] [ParsePath a, ParsePath c] c al = None"
      by (simp only: walk)
    show "(c, a) \<notin> (aliasRel al)\<^sup>* \<and> mget al (followAlias (maxAliasDepth - 1) c al) = None"
      using cycleWalk_None_avoids[OF w] cycleWalk_None_terminal[OF w] False by blast
  next
    assume h: "(c, a) \<notin> (aliasRel al)\<^sup>* \<and> mget al (followAlias (maxAliasDepth - 1) c al) = None"
    show "validateNoAliasCycle a c al = None"
      unfolding walk using h by (intro cycleWalk_complete[OF assms]) auto
  qed
qed (simp add: validateNoAliasCycle_def)


section \<open>The inverted alias map\<close>

lemma mwf_fold_mput:
  "mwf m \<Longrightarrow> mwf (fold (\<lambda>a m. mput (f a) (g a) m) as m)"
  by (induction as arbitrary: m) auto

lemma mget_fold_mput:
  "mget (fold (\<lambda>a m. mput (f a) (h (f a)) m) as m) k
     = (if k \<in> f ` set as then Some (h k) else mget m k)"
  by (induction as arbitrary: m) (auto simp: mget_mput)

lemma mget_invertAliases:
  "mget (invertAliases al) k =
     (if \<exists>a \<in> set (mkeys al). resolveAliasChain a al = k
      then Some (aliasesResolvingTo al k) else None)"
  unfolding invertAliases_def Let_def
  using mget_fold_mput[where f = "\<lambda>a. resolveAliasChain a al" and h = "aliasesResolvingTo al"
      and as = "mkeys al" and m = "[]" and k = k]
  by auto

lemma mwf_invertAliases [simp]: "mwf (invertAliases al)"
  unfolding invertAliases_def Let_def by (rule mwf_fold_mput) simp

lemma set_aliasesResolvingTo:
  "p \<in> set (aliasesResolvingTo al k) \<longleftrightarrow>
     (\<exists>a. a \<in> set (mkeys al) \<and> resolveAliasChain a al = k \<and> p = ParsePath a)"
  by (auto simp: aliasesResolvingTo_def)


section \<open>Properties\<close>

text \<open>
  C39: On an acyclic alias graph, \<open>validateNoAliasCycle\<close> accepts a new alias exactly when the
  canonical key does not lead back to it and its chain ends within 31 links; what it accepts
  keeps the graph acyclic.
\<close>

theorem validateNoAliasCycle_exact:
  assumes "acyclic (aliasRel al)"
  shows "(validateNoAliasCycle a c al = None \<longleftrightarrow>
      (c, a) \<notin> (aliasRel al)\<^sup>* \<and> mget al (followAlias (maxAliasDepth - 1) c al) = None)
    \<and> (validateNoAliasCycle a c al = None \<longrightarrow> acyclic (aliasRel (mput a c al)))"
  using validate_None_iff[OF assms] validate_acyclic[OF assms] by blast

lemma acyclic_aliasRel_single: "a \<noteq> b \<Longrightarrow> acyclic (aliasRel [(a, b)])"
proof -
  assume "a \<noteq> b"
  moreover have "aliasRel [(a, b)] = {(a, b)}" by (auto simp: aliasRel_def split: if_splits)
  ultimately show ?thesis by (simp add: acyclic_def trancl_insert)
qed

lemma validateNoAliasCycle_exact_witness:
  "validateNoAliasCycle ''x'' ''a'' [(''a'', ''b'')] = None
   \<and> acyclic (aliasRel (mput ''x'' ''a'' [(''a'', ''b'')]))"
proof -
  have "validateNoAliasCycle ''x'' ''a'' [(''a'', ''b'')] = None" by code_simp
  moreover have "acyclic (aliasRel [(''a'', ''b'')])" by (rule acyclic_aliasRel_single) simp
  ultimately show ?thesis
    using validateNoAliasCycle_exact[of "[(''a'', ''b'')]" "''x''" "''a''"] by blast
qed

text \<open>
  C40: On an acyclic alias graph with at most \<open>maxAliasDepth\<close> entries, the bounded walk of
  \<open>resolveAliasChain\<close> always ends at a key that is not an alias, reached by following links.
\<close>

theorem resolveAliasChain_terminates_at_canonical:
  assumes "acyclic (aliasRel al)" and "length al \<le> maxAliasDepth"
  shows "mget al (resolveAliasChain k al) = None \<and> (k, resolveAliasChain k al) \<in> (aliasRel al)\<^sup>*"
  using resolved_not_alias[OF assms] followAlias_reach by (simp add: resolveAliasChain_def)

lemma resolveAliasChain_terminates_witness:
  "mget [(''a'', ''b'')] (resolveAliasChain ''a'' [(''a'', ''b'')]) = None
   \<and> (''a'', resolveAliasChain ''a'' [(''a'', ''b'')]) \<in> (aliasRel [(''a'', ''b'')])\<^sup>*"
  by (rule resolveAliasChain_terminates_at_canonical)
    (simp_all add: acyclic_aliasRel_single maxAliasDepth_def)

end
