(* ===== verification/Precedence.thy ===== *)
theory Precedence
  imports Alias Source
begin

text \<open>
  \<open>precedence.go\<close>: the walk that resolves one key over explicit overrides, pins, the source chain
  and defaults, in the order of the code, and the merge of \<open>MergeAppend\<close>.

  \<open>resolveShadow\<close> writes provenance lists either to a fresh slice or to the shared arena of a
  snapshot build; the model passes the arena as an option and returns it with what was appended.
  A result \<open>(Value, []string, bool)\<close> is an option.
\<close>

datatype mergeStrategy = MergeShadow | MergeAppend | MergeReplace

record snapshotInputs =
  isSources :: "source list"
  isExplicits :: "goany gomap"
  isDefaults :: "goany gomap"
  isAliases :: "string gomap"
  isPins :: "string gomap"
  isBound :: strset
  isSecretKeys :: strset
  isRedactor :: "(string \<Rightarrow> string) option"
  isMerge :: mergeStrategy
  isAliasesOf :: "path list gomap"

definition srcExplicit :: string where
  "srcExplicit = ''explicit''"

definition srcDefault :: string where
  "srcDefault = ''default''"

definition isReservedSourceName :: "string \<Rightarrow> bool" where
  "isReservedSourceName name = (name = srcExplicit \<or> name = srcDefault)"

definition aliasPaths :: "snapshotInputs \<Rightarrow> string \<Rightarrow> path list" where
  "aliasPaths is ks = (case mget (isAliasesOf is) ks of None \<Rightarrow> [] | Some ps \<Rightarrow> ps)"

fun firstInLayer :: "goany gomap \<Rightarrow> path list \<Rightarrow> goany option" where
  "firstInLayer layer [] = None"
| "firstInLayer layer (a # as) =
     (case mget layer (pathString a) of Some raw \<Rightarrow> Some raw | None \<Rightarrow> firstInLayer layer as)"

definition layerGet :: "goany gomap \<Rightarrow> string \<Rightarrow> snapshotInputs \<Rightarrow> goany option" where
  "layerGet layer ks is =
     (case mget layer ks of
        Some raw \<Rightarrow> Some raw
      | None \<Rightarrow> firstInLayer layer (aliasPaths is ks))"

fun firstInSource :: "source \<Rightarrow> path list \<Rightarrow> govalue option" where
  "firstInSource s [] = None"
| "firstInSource s (a # as) =
     (case srcGet s a of Inr (Some v) \<Rightarrow> Some v | _ \<Rightarrow> firstInSource s as)"

definition sourceGet :: "source \<Rightarrow> path \<Rightarrow> string \<Rightarrow> snapshotInputs \<Rightarrow> govalue option" where
  "sourceGet s p ks is =
     (case srcGet s p of
        Inr (Some v) \<Rightarrow> Some v
      | _ \<Rightarrow> firstInSource s (aliasPaths is ks))"

fun shadowWalk ::
  "source list \<Rightarrow> path \<Rightarrow> string \<Rightarrow> snapshotInputs \<Rightarrow> govalue \<Rightarrow> string \<Rightarrow> string list
   \<Rightarrow> govalue \<times> string \<times> string list" where
  "shadowWalk [] p ks is winner winnerName srcs = (winner, winnerName, srcs)"
| "shadowWalk (s # ss) p ks is winner winnerName srcs =
     (case sourceGet s p ks is of
        None \<Rightarrow> shadowWalk ss p ks is winner winnerName srcs
      | Some rawVal \<Rightarrow>
          if winnerName = []
          then shadowWalk ss p ks is (withSource (srcName s) rawVal) (srcName s) (srcs @ [srcName s])
          else shadowWalk ss p ks is winner winnerName (srcs @ [srcName s]))"

definition resolveShadow ::
  "path \<Rightarrow> string \<Rightarrow> snapshotInputs \<Rightarrow> string list option
   \<Rightarrow> (govalue \<times> string list) option \<times> string list option" where
  "resolveShadow p ks is arena =
     (let a0 = (case arena of None \<Rightarrow> [] | Some a \<Rightarrow> a);
          (winner, winnerName, a) = shadowWalk (isSources is) p ks is zeroValue [] a0;
          arena' = map_option (\<lambda>_. a) arena
      in if winnerName \<noteq> [] then (Some (winner, drop (length a0) a), arena')
         else case layerGet (isDefaults is) ks is of
                Some raw \<Rightarrow> (Some (withSource srcDefault (NewValue raw), [srcDefault]), arena')
              | None \<Rightarrow> (None, arena'))"

lemma size_in_map: "(k, v) \<in> set m \<Longrightarrow> size v < size (MapV m)"
  by (induction m) auto

lemma size_mget: "mget m k = Some v \<Longrightarrow> size v < size (MapV m)"
  by (rule size_in_map) (rule mget_in_set)

lemma size_vdata: "size (vdata v) < size v"
  by (cases v) simp

function mergeValues :: "govalue \<Rightarrow> govalue \<Rightarrow> govalue" where
  "mergeValues lo hi =
     (case vdata lo of
        SliceV ls \<Rightarrow>
          (case vdata hi of
             SliceV hs \<Rightarrow> NewValue (AAnys (map Any ls @ map Any hs))
           | _ \<Rightarrow> hi)
      | MapV lm \<Rightarrow>
          (case vdata hi of
             MapV hm \<Rightarrow>
               NewValue (AAnyMap
                 (mcopy (map (map_prod id Any) lm)
                    (map (\<lambda>(k, hv). (k, case mget lm k of
                                           Some lv \<Rightarrow> Any (mergeValues lv hv)
                                         | None \<Rightarrow> Any hv)) hm)))
           | _ \<Rightarrow> hi)
      | _ \<Rightarrow> hi)"
  by pat_completeness auto
termination
proof (relation "measure (\<lambda>(lo, hi). size lo)")
  fix lo hi :: govalue and lm hm x k hv lv
  assume "vdata lo = MapV lm" and "mget lm k = Some lv"
  then show "((lv, hv), lo, hi) \<in> measure (\<lambda>(lo, hi). size lo)"
    using size_mget[of lm k lv] size_vdata[of lo] by simp
qed simp

declare mergeValues.simps [simp del]

text \<open>The contributions of the chain in descending precedence, with their source names.\<close>

fun sourceContributions ::
  "source list \<Rightarrow> path \<Rightarrow> string \<Rightarrow> snapshotInputs \<Rightarrow> (govalue \<times> string) list" where
  "sourceContributions [] p ks is = []"
| "sourceContributions (s # ss) p ks is =
     (case sourceGet s p ks is of
        None \<Rightarrow> sourceContributions ss p ks is
      | Some rawVal \<Rightarrow> (rawVal, srcName s) # sourceContributions ss p ks is)"

definition resolveAppend :: "path \<Rightarrow> string \<Rightarrow> snapshotInputs \<Rightarrow> (govalue \<times> string list) option" where
  "resolveAppend p ks is =
     (let descending = sourceContributions (isSources is) p ks is
            @ (case layerGet (isDefaults is) ks is of
                 Some raw \<Rightarrow> [(NewValue raw, srcDefault)] | None \<Rightarrow> [])
      in if descending = [] then None
         else let merged = fold (\<lambda>c merged. mergeValues merged (fst c))
                             (rev (butlast descending)) (fst (last descending))
              in Some (withSource (snd (hd descending)) merged, map snd descending))"

definition findSource :: "source list \<Rightarrow> string \<Rightarrow> source option" where
  "findSource ss name = find (\<lambda>s. srcName s = name) ss"

definition resolveKey ::
  "path \<Rightarrow> string \<Rightarrow> snapshotInputs \<Rightarrow> string list option
   \<Rightarrow> (govalue \<times> string list) option \<times> string list option" where
  "resolveKey p ks is arena =
     (case layerGet (isExplicits is) ks is of
        Some raw \<Rightarrow> (Some (withSource srcExplicit (NewValue raw), [srcExplicit]), arena)
      | None \<Rightarrow>
          (case mget (isPins is) ks of
             Some pinName \<Rightarrow>
               (case findSource (isSources is) pinName of
                  Some s \<Rightarrow>
                    (case sourceGet s p ks is of
                       None \<Rightarrow> (None, arena)
                     | Some rawVal \<Rightarrow> (Some (withSource (srcName s) rawVal, [srcName s]), arena))
                | None \<Rightarrow> (None, arena))
           | None \<Rightarrow>
               if isMerge is = MergeAppend then (resolveAppend p ks is, arena)
               else resolveShadow p ks is arena))"


section \<open>The walk against its contributions\<close>

lemma shadowWalk_srcs:
  "shadowWalk ss p ks is w wn srcs =
     (fst (shadowWalk ss p ks is w wn []), fst (snd (shadowWalk ss p ks is w wn [])),
      srcs @ map snd (sourceContributions ss p ks is))"
proof (induction ss arbitrary: w wn srcs)
  case (Cons s ss)
  show ?case
  proof (cases "sourceGet s p ks is")
    case None
    with Cons[of w wn srcs] show ?thesis by simp
  next
    case (Some v)
    show ?thesis
      using Some Cons[of "withSource (srcName s) v" "srcName s" "srcs @ [srcName s]"]
        Cons[of "withSource (srcName s) v" "srcName s" "[srcName s]"]
        Cons[of w wn "srcs @ [srcName s]"] Cons[of w wn "[srcName s]"]
      by simp
  qed
qed simp

lemma shadowWalk_found:
  "wn \<noteq> [] \<Longrightarrow>
   shadowWalk ss p ks is w wn srcs = (w, wn, srcs @ map snd (sourceContributions ss p ks is))"
  by (induction ss arbitrary: srcs) (auto split: option.splits)

lemma sourceContributions_names:
  "(v, n) \<in> set (sourceContributions ss p ks is) \<Longrightarrow> \<exists>s \<in> set ss. srcName s = n"
  by (induction ss) (auto split: option.splits)

text \<open>The rule of the doc comment: the first source of the chain that has the key.\<close>

definition chainResult :: "(govalue \<times> string) list \<Rightarrow> (govalue \<times> string list) option" where
  "chainResult cs =
     (case cs of [] \<Rightarrow> None | (v, n) # _ \<Rightarrow> Some (withSource n v, map snd cs))"

definition defaultResult :: "string \<Rightarrow> snapshotInputs \<Rightarrow> (govalue \<times> string list) option" where
  "defaultResult ks is =
     map_option (\<lambda>raw. (withSource srcDefault (NewValue raw), [srcDefault]))
       (layerGet (isDefaults is) ks is)"

lemma shadowWalk_named:
  assumes "\<forall>s \<in> set ss. srcName s \<noteq> []"
  shows "shadowWalk ss p ks is zeroValue [] srcs =
    (case sourceContributions ss p ks is of
       [] \<Rightarrow> (zeroValue, [], srcs)
     | (v, n) # cs \<Rightarrow> (withSource n v, n, srcs @ n # map snd cs))"
  using assms by (induction ss) (auto simp: shadowWalk_found split: option.splits list.splits)

lemma resolveShadow_chain:
  assumes "\<forall>s \<in> set (isSources is). srcName s \<noteq> []"
  shows "fst (resolveShadow p ks is arena) =
    (case chainResult (sourceContributions (isSources is) p ks is) of
       Some r \<Rightarrow> Some r | None \<Rightarrow> defaultResult ks is)"
proof -
  have "\<forall>(v, n) \<in> set (sourceContributions (isSources is) p ks is). n \<noteq> []"
    using sourceContributions_names[of _ _ "isSources is" p ks "is"] assms by fastforce
  then show ?thesis
    unfolding resolveShadow_def Let_def shadowWalk_named[OF assms]
    by (auto simp: chainResult_def defaultResult_def split: list.splits option.splits)
qed

text \<open>The arena only saves allocations.\<close>

lemma resolveKey_arena:
  "fst (resolveKey p ks is arena) = fst (resolveKey p ks is None)"
proof -
  have "fst (resolveShadow p ks is arena) = fst (resolveShadow p ks is None)"
    unfolding resolveShadow_def Let_def shadowWalk_srcs[of _ _ _ _ _ _ "case arena of None \<Rightarrow> [] | Some a \<Rightarrow> a"]
      shadowWalk_srcs[of _ _ _ _ _ _ "case None of None \<Rightarrow> [] | Some a \<Rightarrow> a"]
    by (simp split: option.splits)
  then show ?thesis by (simp add: resolveKey_def split: option.splits)
qed


section \<open>Provenance\<close>

lemma chainResult_tag:
  "chainResult cs = Some (v, srcs) \<Longrightarrow> srcs \<noteq> [] \<and> vsource v = hd srcs"
  by (auto simp: chainResult_def split: list.splits)

lemma resolveAppend_tag:
  "resolveAppend p ks is = Some (v, srcs) \<Longrightarrow> srcs \<noteq> [] \<and> vsource v = hd srcs"
proof -
  define ds where "ds = sourceContributions (isSources is) p ks is
    @ (case layerGet (isDefaults is) ks is of Some raw \<Rightarrow> [(NewValue raw, srcDefault)] | None \<Rightarrow> [])"
  assume "resolveAppend p ks is = Some (v, srcs)"
  then have "ds \<noteq> []" "srcs = map snd ds" "vsource v = snd (hd ds)"
    unfolding resolveAppend_def Let_def ds_def[symmetric] by (auto split: if_splits)
  then show ?thesis by (simp add: hd_map)
qed

lemma resolveKey_tag:
  assumes "\<forall>s \<in> set (isSources is). srcName s \<noteq> []"
    and "fst (resolveKey p ks is arena) = Some (v, srcs)"
  shows "srcs \<noteq> [] \<and> vsource v = hd srcs"
  using assms(2) chainResult_tag[of _ v srcs] resolveAppend_tag[of p ks "is" v srcs]
  by (auto simp: resolveKey_def resolveShadow_chain[OF assms(1)] defaultResult_def
      split: option.splits if_splits)


section \<open>Merging\<close>

lemma awf_Any: "vwf v \<Longrightarrow> awf (Any v)"
  by (cases v; cases "vdata v") (auto simp: Any_def list.pred_map list_all_iff split: option.splits)

lemma dwf_MapV: "dwf (MapV m) \<longleftrightarrow> mwf m \<and> (\<forall>(k, v) \<in> set m. vwf v)"
  by (auto simp: list.pred_map list_all_iff)

lemma dwf_SliceV: "dwf (SliceV xs) \<longleftrightarrow> (\<forall>v \<in> set xs. vwf v)"
  by (simp add: list.pred_map list_all_iff)

lemma awf_AAnyMap: "awf (AAnyMap m) \<longleftrightarrow> mwf m \<and> (\<forall>k a. mget m k = Some a \<longrightarrow> awf a)"
proof -
  have "mwf m \<Longrightarrow> (\<forall>(k, a) \<in> set m. awf a) \<longleftrightarrow> (\<forall>k a. mget m k = Some a \<longrightarrow> awf a)"
    by (auto simp: mwf_mget_iff)
  then have "mwf m \<Longrightarrow> (\<forall>e \<in> set m. awf (snd e)) \<longleftrightarrow> (\<forall>k a. mget m k = Some a \<longrightarrow> awf a)"
    by (simp add: case_prod_unfold)
  then show ?thesis by (auto simp: list.pred_map list_all_iff case_prod_unfold)
qed

lemma mwf_map_keys: "(\<And>e. fst (f e) = fst e) \<Longrightarrow> mwf (map f m) = mwf m"
  by (simp add: mwf_def comp_def)

lemma mget_map_entries: "mget (map (\<lambda>(k, v). (k, g k v)) m) k = map_option (g k) (mget m k)"
  by (induction m) auto

text \<open>The entry the merge of two maps writes under a key.\<close>

definition mergedEntry :: "(string \<times> govalue) list \<Rightarrow> (string \<times> govalue) list \<Rightarrow> string \<Rightarrow> goany option" where
  "mergedEntry lm hm k =
     (case mget hm k of
        Some hv \<Rightarrow> Some (case mget lm k of Some lv \<Rightarrow> Any (mergeValues lv hv) | None \<Rightarrow> Any hv)
      | None \<Rightarrow> map_option Any (mget lm k))"

lemma mergeValues_maps:
  assumes "vdata lo = MapV lm" and "vdata hi = MapV hm" and "mwf lm" and "mwf hm"
  shows "\<exists>m. mergeValues lo hi = NewValue (AAnyMap m) \<and> mwf m \<and> (\<forall>k. mget m k = mergedEntry lm hm k)"
proof -
  define g where "g k hv = (case mget lm k of Some lv \<Rightarrow> Any (mergeValues lv hv) | None \<Rightarrow> Any hv)"
    for k hv
  define m where "m = mcopy (map (map_prod id Any) lm) (map (\<lambda>(k, hv). (k, g k hv)) hm)"
  have "mergeValues lo hi = NewValue (AAnyMap m)"
    by (subst mergeValues.simps) (simp add: assms m_def g_def)
  moreover have "mwf m" using assms(3) by (simp add: m_def)
  moreover have "mwf (map (\<lambda>(k, hv). (k, g k hv)) hm)"
    using assms(4) by (subst mwf_map_keys) auto
  then have "mget m k = mergedEntry lm hm k" for k
    by (simp add: m_def mget_mcopy mget_map_entries mget_map_prod mergedEntry_def g_def split: option.splits)
  ultimately show ?thesis by blast
qed

lemma mergeValues_other:
  "\<not> (\<exists>ls hs. vdata lo = SliceV ls \<and> vdata hi = SliceV hs) \<Longrightarrow>
   \<not> (\<exists>lm hm. vdata lo = MapV lm \<and> vdata hi = MapV hm) \<Longrightarrow> mergeValues lo hi = hi"
  by (subst mergeValues.simps) (auto split: vdata.splits)

lemma mergeValues_slices:
  "vdata lo = SliceV ls \<Longrightarrow> vdata hi = SliceV hs \<Longrightarrow>
   mergeValues lo hi = mk (SliceV (map (\<lambda>v. NewValue (Any v)) (ls @ hs)))"
  by (subst mergeValues.simps) simp

lemma mergeValues_wf: "vwf lo \<Longrightarrow> vwf hi \<Longrightarrow> vwf (mergeValues lo hi)"
proof (induction lo hi rule: mergeValues.induct)
  case (1 lo hi)
  consider (s) ls hs where "vdata lo = SliceV ls" "vdata hi = SliceV hs"
    | (m) lm hm where "vdata lo = MapV lm" "vdata hi = MapV hm"
    | (other) "mergeValues lo hi = hi"
    using mergeValues_other[of lo hi] by blast
  then show ?case
  proof cases
    case s
    then have "\<forall>v \<in> set (ls @ hs). vwf v" using 1(2,3) by (auto simp: vwf_vdata dwf_SliceV simp del: dwf.simps)
    then show ?thesis
      using s by (auto simp: mergeValues_slices dwf_SliceV NewValue_wf awf_Any simp del: dwf.simps)
  next
    case m
    have wf: "dwf (MapV lm)" "dwf (MapV hm)" using 1(2,3) m by (metis vwf_vdata)+
    then have sorted: "mwf lm" "mwf hm" by auto
    obtain n where n: "mergeValues lo hi = NewValue (AAnyMap n)" "mwf n"
      "\<And>k. mget n k = mergedEntry lm hm k"
      using mergeValues_maps[OF m sorted] by blast
    have "awf a" if "mget n k = Some a" for k a
    proof -
      have rec: "vwf (mergeValues lv hv)" if "mget lm k = Some lv" "mget hm k = Some hv" for lv hv
        using 1(1)[OF m(1) m(2) _ _ that(1)] that vwf_mget[OF wf(1)] vwf_mget[OF wf(2)]
          mget_in_set[OF that(2)] by blast
      show ?thesis using that n(3)[of k] rec vwf_mget[OF wf(1)] vwf_mget[OF wf(2)]
        by (auto simp: mergedEntry_def awf_Any split: option.splits)
    qed
    then have "awf (AAnyMap n)" using n(2) by (simp only: awf_AAnyMap) blast
    then show ?thesis unfolding n(1) by (rule NewValue_wf)
  qed (use 1 in simp)
qed


section \<open>Properties\<close>

lemma sourceContributions_append:
  "sourceContributions (as @ bs) p ks is = sourceContributions as p ks is @ sourceContributions bs p ks is"
  by (induction as) (auto split: option.splits)

lemma sourceContributions_none:
  "(\<forall>s \<in> set ss. sourceGet s p ks is = None) \<Longrightarrow> sourceContributions ss p ks is = []"
  by (induction ss) auto

lemma named_contributions:
  assumes "\<forall>s \<in> set (isSources is). srcName s \<noteq> []" and "isMerge is \<noteq> MergeAppend"
    and "layerGet (isExplicits is) ks is = None" and "mget (isPins is) ks = None"
  shows "fst (resolveKey p ks is arena) =
    (case chainResult (sourceContributions (isSources is) p ks is) of
       Some r \<Rightarrow> Some r | None \<Rightarrow> defaultResult ks is)"
  using assms by (simp add: resolveKey_def resolveShadow_chain)

text \<open>
  C29: First set wins: with no override and no pin, unless the strategy is append, and when every source
  has a name, the value is that of the first source in the chain that has the key, under its own path or an alias,
  tagged with that source; the provenance is its name followed by every later source that also
  has the key; and a key no source has comes from the defaults. Writing provenance to the shared
  arena changes nothing.
\<close>

theorem resolveKey_first_set_wins:
  assumes "\<forall>s \<in> set (isSources is). srcName s \<noteq> []" and "isMerge is \<noteq> MergeAppend"
    and "layerGet (isExplicits is) ks is = None" and "mget (isPins is) ks = None"
  shows "(isSources is = as @ s # bs \<and> (\<forall>t \<in> set as. sourceGet t p ks is = None)
            \<and> sourceGet s p ks is = Some v
          \<longrightarrow> fst (resolveKey p ks is arena)
              = Some (withSource (srcName s) v, srcName s # map snd (sourceContributions bs p ks is)))
       \<and> ((\<forall>t \<in> set (isSources is). sourceGet t p ks is = None)
          \<longrightarrow> fst (resolveKey p ks is arena) = defaultResult ks is)"
  unfolding named_contributions[OF assms]
  by (auto simp: sourceContributions_append sourceContributions_none chainResult_def)

definition demoSource :: "string \<Rightarrow> path \<Rightarrow> govalue \<Rightarrow> source" where
  "demoSource name p v =
     \<lparr>srcName = name, srcGet = (\<lambda>q. Inr (if q = p then Some v else None)), srcKeys = [p],
      srcNative = None, srcUnscoped = False, srcClose = None\<rparr>"

definition demoInputs :: "source list \<Rightarrow> mergeStrategy \<Rightarrow> snapshotInputs" where
  "demoInputs ss m =
     \<lparr>isSources = ss, isExplicits = [], isDefaults = [(''b'', ABool True)], isAliases = [],
      isPins = [(''p'', ''two'')], isBound = [], isSecretKeys = [], isRedactor = None,
      isMerge = m, isAliasesOf = []\<rparr>"

abbreviation demoChain :: "source list" where
  "demoChain \<equiv> [demoSource ''zero'' [''z''] (mk NullV), demoSource ''one'' [''a''] (mk (IntV 1)),
     demoSource ''two'' [''a''] (mk (IntV 2))]"

lemma resolveKey_first_set_wins_witness:
  "fst (resolveKey [''a''] ''a'' (demoInputs demoChain MergeShadow) (Some [''x'']))
     = Some (Value (IntV 1) ''one'', [''one'', ''two''])
   \<and> fst (resolveKey [''b''] ''b'' (demoInputs demoChain MergeShadow) None)
     = Some (Value (BoolV True) ''default'', [''default''])"
proof -
  let ?is = "demoInputs demoChain MergeShadow"
  have h: "\<forall>s \<in> set (isSources ?is). srcName s \<noteq> []" "isMerge ?is \<noteq> MergeAppend"
    "layerGet (isExplicits ?is) ''a'' ?is = None" "mget (isPins ?is) ''a'' = None"
    "layerGet (isExplicits ?is) ''b'' ?is = None" "mget (isPins ?is) ''b'' = None"
    by (simp_all add: demoInputs_def demoSource_def layerGet_def aliasPaths_def)
  have "isSources ?is = [demoSource ''zero'' [''z''] (mk NullV)] @ demoSource ''one'' [''a''] (mk (IntV 1))
      # [demoSource ''two'' [''a''] (mk (IntV 2))]"
    by (simp add: demoInputs_def)
  moreover have "\<forall>t \<in> set [demoSource ''zero'' [''z''] (mk NullV)]. sourceGet t [''a''] ''a'' ?is = None"
    "sourceGet (demoSource ''one'' [''a''] (mk (IntV 1))) [''a''] ''a'' ?is = Some (mk (IntV 1))"
    by (simp_all add: demoSource_def sourceGet_def aliasPaths_def demoInputs_def)
  ultimately have "fst (resolveKey [''a''] ''a'' ?is (Some [''x'']))
     = Some (withSource (srcName (demoSource ''one'' [''a''] (mk (IntV 1)))) (mk (IntV 1)),
         srcName (demoSource ''one'' [''a''] (mk (IntV 1)))
         # map snd (sourceContributions [demoSource ''two'' [''a''] (mk (IntV 2))] [''a''] ''a'' ?is))"
    using resolveKey_first_set_wins[OF h(1-4), THEN conjunct1] by blast
  then have "fst (resolveKey [''a''] ''a'' ?is (Some [''x'']))
     = Some (withSource ''one'' (mk (IntV 1)), ''one'' # [''two''])"
    by (simp add: demoSource_def sourceGet_def aliasPaths_def)
  moreover have "fst (resolveKey [''b''] ''b'' ?is None) = defaultResult ''b'' ?is"
    using resolveKey_first_set_wins[OF h(1,2,5,6)]
    by (auto simp: demoSource_def sourceGet_def aliasPaths_def demoInputs_def)
  ultimately show ?thesis
    by (simp add: withSource_def defaultResult_def demoInputs_def layerGet_def aliasPaths_def srcDefault_def)
qed

text \<open>
  An explicit override, under the key or an alias of it, always wins and is the whole
  provenance; without one a pinned key is resolved by the pinned source alone: when that source
  is not registered or does not have the key there is no value, whatever other sources and the
  defaults hold.
\<close>

theorem resolveKey_override_and_pin:
  "(layerGet (isExplicits is) ks is = Some raw
      \<longrightarrow> resolveKey p ks is arena = (Some (withSource srcExplicit (NewValue raw), [srcExplicit]), arena))
   \<and> (layerGet (isExplicits is) ks is = None \<and> mget (isPins is) ks = Some pin
      \<longrightarrow> fst (resolveKey p ks is arena) =
          (if pin \<notin> srcName ` set (isSources is) then None
           else map_option (\<lambda>v. (withSource pin v, [pin]))
                  (sourceGet (the (findSource (isSources is) pin)) p ks is)))"
proof (cases "findSource (isSources is) pin")
  case None
  then have "pin \<notin> srcName ` set (isSources is)"
    by (auto simp: findSource_def find_None_iff)
  with None show ?thesis by (simp add: resolveKey_def)
next
  case (Some s)
  then have "s \<in> set (isSources is)" "srcName s = pin"
    by (auto simp: findSource_def find_Some_iff)
  with Some show ?thesis by (auto simp: resolveKey_def split: option.splits)
qed

lemma resolveKey_override_and_pin_witness:
  "fst (resolveKey [''p''] ''p'' (demoInputs demoChain MergeShadow) None) = None
   \<and> fst (resolveKey [''p''] ''p'' (demoInputs [] MergeShadow) None) = None
   \<and> resolveKey [''a''] ''a'' (demoInputs demoChain MergeShadow\<lparr>isExplicits := [(''a'', ABool False)]\<rparr>) None
       = (Some (Value (BoolV False) ''explicit'', [''explicit'']), None)"
  using resolveKey_override_and_pin[of "demoInputs demoChain MergeShadow" "''p''" _ "[''p'']" None "''two''"]
    resolveKey_override_and_pin[of "demoInputs [] MergeShadow" "''p''" _ "[''p'']" None "''two''"]
    resolveKey_override_and_pin[of "demoInputs demoChain MergeShadow\<lparr>isExplicits := [(''a'', ABool False)]\<rparr>"
      "''a''" "ABool False" "[''a'']" None]
  by (simp add: demoInputs_def demoSource_def layerGet_def aliasPaths_def sourceGet_def findSource_def
      withSource_def srcExplicit_def)

text \<open>
  \<open>mergeValues\<close> concatenates two lists, the lower one first; merges two maps key by key, a key
  of one side keeping its value and a key of both being merged in turn; lets the higher value win
  everywhere else; and keeps values well formed.
\<close>

theorem mergeValues_spec:
  assumes "vwf lo" and "vwf hi"
  shows "vwf (mergeValues lo hi)
    \<and> (vdata lo = SliceV ls \<and> vdata hi = SliceV hs \<longrightarrow>
         mergeValues lo hi = mk (SliceV (map (\<lambda>v. NewValue (Any v)) (ls @ hs))))
    \<and> (vdata lo = MapV lm \<and> vdata hi = MapV hm \<longrightarrow>
         (\<exists>m. mergeValues lo hi = NewValue (AAnyMap m) \<and> mwf m \<and> (\<forall>k. mget m k = mergedEntry lm hm k)))
    \<and> (Kind lo \<noteq> Kind hi \<or> Kind lo \<noteq> SliceKind \<and> Kind lo \<noteq> MapKind \<longrightarrow> mergeValues lo hi = hi)"
proof -
  have "mwf lm" if "vdata lo = MapV lm" using assms(1) that by (simp add: vwf_vdata)
  moreover have "mwf hm" if "vdata hi = MapV hm" using assms(2) that by (simp add: vwf_vdata)
  moreover have "Kind lo \<noteq> Kind hi \<or> Kind lo \<noteq> SliceKind \<and> Kind lo \<noteq> MapKind \<Longrightarrow> mergeValues lo hi = hi"
    by (rule mergeValues_other) (auto simp: Kind_def)
  ultimately show ?thesis
    using mergeValues_wf[OF assms] mergeValues_slices[of lo ls hi hs] mergeValues_maps[of lo lm hi hm]
    by blast
qed

lemma mergeValues_spec_witness:
  "mergeValues (mk (SliceV [mk (IntV 1)])) (mk (SliceV [mk (IntV 2)])) = mk (SliceV [mk (IntV 1), mk (IntV 2)])
   \<and> mergeValues (mk (IntV 1)) (mk (SliceV [])) = mk (SliceV [])"
  using mergeValues_spec[of "mk (SliceV [mk (IntV 1)])" "mk (SliceV [mk (IntV 2)])"]
    mergeValues_spec[of "mk (IntV 1)" "mk (SliceV [])"]
  by (simp add: Any_def Kind_def)

end
