(* ===== verification/Snapshot.thy ===== *)
theory Snapshot
  imports Precedence
begin

text \<open>
  \<open>snapshot.go\<close>: the frozen, fully resolved view of a registry, its construction from the
  registry's layers, and its reads.

  A pass of Go's \<open>range\<close> over a map is a fold over the map's entries in key order; where the code
  fills a memo on first use (the rank index, the rank of a key, the native names of a source) the
  model recomputes the value. \<open>topLevelDelims\<close> with a callback is a fold over the indices it
  yields. A \<open>Path\<close> argument that may be \<open>nil\<close> is an option.
\<close>

record snapshot =
  snValues :: "govalue gomap"
  snSources :: "string list gomap"
  snKeys :: "path list"
  snKeyStrs :: "string list"
  snLookupKeys :: "string list"
  snLookupPaths :: "path list"
  snOverridden :: strset
  snInParent :: strset
  snSourceNames :: "string list"
  snAliases :: "string gomap"
  snSecretKeys :: strset
  snRedactor :: "(string \<Rightarrow> string) option"

datatype readMode = ReadExact | ReadGet | ReadSection


section \<open>Ranks\<close>

definition rankIndex :: "snapshot \<Rightarrow> nat gomap" where
  "rankIndex s = fold (\<lambda>(i, n) m. mput n (i + 1) m) (enumerate 0 (snSourceNames s)) []"

definition rankFor :: "nat gomap \<Rightarrow> string \<Rightarrow> nat \<Rightarrow> nat" where
  "rankFor ranks name n =
     (if name = srcExplicit then 0
      else if name = srcDefault then n + 1
      else case mget ranks name of Some r \<Rightarrow> r | None \<Rightarrow> n + 1)"

definition rankOf :: "snapshot \<Rightarrow> string \<Rightarrow> nat" where
  "rankOf s k =
     (let winner = (case mget (snSources s) k of Some (n # _) \<Rightarrow> n | _ \<Rightarrow> [])
      in rankFor (rankIndex s) winner (length (snSourceNames s)))"


section \<open>Secrets\<close>

definition secretMarked :: "strset \<Rightarrow> string gomap \<Rightarrow> string \<Rightarrow> bool" where
  "secretMarked keys aliases ks =
     (mhas keys ks \<or>
      (\<exists>(alias, canon) \<in> set aliases. mhas keys alias \<and> resolveAliasChain canon aliases = ks))"

definition secretMatches :: "strset \<Rightarrow> string gomap \<Rightarrow> string \<Rightarrow> bool" where
  "secretMatches keys aliases ks =
     (secretMarked keys aliases ks \<or>
      (\<exists>i \<in> set (topLevelDelims ks). secretMarked keys aliases (take i ks)))"

definition secretHas :: "strset \<Rightarrow> string gomap \<Rightarrow> string \<Rightarrow> bool" where
  "secretHas keys aliases ks =
     (if keys = [] then False
      else if secretMatches keys aliases ks then True
      else let canon = resolveAliasChain ks aliases
           in if canon \<noteq> ks then secretMatches keys aliases canon else False)"

definition snSecrets :: "snapshot \<Rightarrow> string \<Rightarrow> bool" where
  "snSecrets s ks = secretHas (snSecretKeys s) (snAliases s) ks"

definition snIsSecret :: "snapshot \<Rightarrow> path \<Rightarrow> bool" where
  "snIsSecret s p = snSecrets s (pathString p)"


section \<open>Nested maps\<close>

text \<open>\<open>setNested\<close>: a non-map value in the way is replaced by a map.\<close>

definition submap :: "(string \<times> goany) list \<Rightarrow> string \<Rightarrow> (string \<times> goany) list" where
  "submap m seg = (case mget m seg of Some (AAnyMap n) \<Rightarrow> n | _ \<Rightarrow> [])"

fun setNested :: "(string \<times> goany) list \<Rightarrow> path \<Rightarrow> goany \<Rightarrow> (string \<times> goany) list" where
  "setNested m [] v = m"
| "setNested m [seg] v = mput seg v m"
| "setNested m (seg # seg' # p) v = mput seg (AAnyMap (setNested (submap m seg) (seg' # p) v)) m"

fun entryAt :: "govalue \<Rightarrow> path \<Rightarrow> govalue option" where
  "entryAt cur [] = Some cur"
| "entryAt cur (seg # p) =
     (case AsMap cur of
        Inl e \<Rightarrow> None
      | Inr mm \<Rightarrow> (case mget mm seg of None \<Rightarrow> None | Some nxt \<Rightarrow> entryAt nxt p))"

definition entryIn :: "govalue \<Rightarrow> string \<Rightarrow> govalue option" where
  "entryIn m rest = entryAt m (ParsePath rest)"


section \<open>Reads\<close>

definition parentStep ::
  "snapshot \<Rightarrow> string \<Rightarrow> nat \<Rightarrow> (govalue \<times> string) option \<Rightarrow> (govalue \<times> string) option" where
  "parentStep s ks i st =
     (case mget (snValues s) (take i ks) of
        None \<Rightarrow> st
      | Some parent \<Rightarrow>
          if Kind parent \<noteq> MapKind then st
          else case entryIn parent (drop (i + 1) ks) of
                 None \<Rightarrow> st
               | Some v \<Rightarrow>
                   (case st of
                      None \<Rightarrow> Some (withSource (vsource parent) v, take i ks)
                    | Some (found, foundAt) \<Rightarrow>
                        if rankOf s (take i ks) > rankOf s foundAt then st
                        else Some (withSource (vsource parent) v, take i ks)))"

definition lookupInParent :: "snapshot \<Rightarrow> string \<Rightarrow> govalue option" where
  "lookupInParent s ks = map_option fst (fold (parentStep s ks) (topLevelDelims ks) None)"

text \<open>\<open>keysBelow\<close>: \<open>sort.SearchStrings\<close> finds the first key not below the prefix.\<close>

definition keysBelow :: "snapshot \<Rightarrow> string list \<Rightarrow> path list \<Rightarrow> string \<Rightarrow> (string \<times> path) list" where
  "keysBelow s strs paths prefix =
     filter (\<lambda>(k, p). \<not> mhas (snAliases s) k)
       (takeWhile (\<lambda>(k, p). hasPrefix k prefix)
         (dropWhile (\<lambda>(k, p). k < prefix) (zip strs paths)))"

definition shadowStep :: "nat gomap \<Rightarrow> string \<Rightarrow> nat \<Rightarrow> strset \<Rightarrow> strset" where
  "shadowStep rank k j out =
     (case (mget rank (take j k), mget rank k) of
        (Some ra, Some rk) \<Rightarrow>
          if ra < rk then sadd k out else if rk < ra then sadd (take j k) out else out
      | _ \<Rightarrow> out)"

definition shadowedKeys :: "snapshot \<Rightarrow> string list \<Rightarrow> strset" where
  "shadowedKeys s keys =
     (let rank = fold (\<lambda>k m. mput k (rankOf s k) m) keys []
      in fold (\<lambda>k out. fold (shadowStep rank k) (topLevelDelims k) out) keys [])"

definition shadowedAmong :: "snapshot \<Rightarrow> nat list \<Rightarrow> strset" where
  "shadowedAmong s idx = shadowedKeys s (map (\<lambda>i. snKeyStrs s ! i) idx)"

definition valueAt :: "snapshot \<Rightarrow> string \<Rightarrow> govalue" where
  "valueAt s k = (case mget (snValues s) k of Some v \<Rightarrow> v | None \<Rightarrow> zeroValue)"

text \<open>The assembly loop of \<open>lookupSubtree\<close>: the map so far and the best contributor with its rank.\<close>

definition subtreeStep ::
  "snapshot \<Rightarrow> strset \<Rightarrow> nat \<Rightarrow> string \<times> path
   \<Rightarrow> (string \<times> goany) list \<times> string \<times> nat option
   \<Rightarrow> (string \<times> goany) list \<times> string \<times> nat option" where
  "subtreeStep s shadowed depth = (\<lambda>(k, path) (out, best, bestRank).
     if mhas shadowed k then (out, best, bestRank)
     else let v = valueAt s k;
              out' = setNested out (drop depth path) (unwrapValueDeep v);
              r = rankFor (rankIndex s) (vsource v) (length (snSourceNames s))
          in if bestRank = None \<or> r < the bestRank then (out', vsource v, Some r)
             else (out', best, bestRank))"

definition lookupSubtree :: "snapshot \<Rightarrow> string \<Rightarrow> path option \<Rightarrow> govalue option" where
  "lookupSubtree s ks p =
     (if ks = [] then None
      else let prefix = ks @ DefaultDelimiter;
               listed = keysBelow s (snKeyStrs s) (snKeys s) prefix;
               below = (if listed = [] \<and> length (snKeyStrs s) < length (snLookupKeys s)
                        then keysBelow s (snLookupKeys s) (snLookupPaths s) prefix else listed)
           in if below = [] then None
              else let q = (case p of Some q \<Rightarrow> q | None \<Rightarrow> ParsePath ks);
                       shadowed = shadowedKeys s (map fst below);
                       (out, best, _) = fold (subtreeStep s shadowed (length q)) below ([], [], None)
                   in Some (withSource best (NewValue (AAnyMap out))))"

definition readSnap :: "snapshot \<Rightarrow> string \<Rightarrow> path option \<Rightarrow> readMode \<Rightarrow> govalue option" where
  "readSnap s ks p mode =
     (case mget (snValues s) ks of
        Some v \<Rightarrow>
          (let own = (mode = ReadExact \<or> (mode = ReadGet \<and> Kind v \<noteq> NullKind))
           in if snInParent s = [] \<and> own then Some v
              else let (canon, p') = (if mhas (snAliases s) ks
                                      then (resolveAliasChain ks (snAliases s), None) else (ks, p));
                       inPar = (if mhas (snInParent s) canon then lookupInParent s canon else None)
                   in case inPar of
                        Some pv \<Rightarrow> Some pv
                      | None \<Rightarrow>
                          if own then Some v
                          else if \<not> mhas (snOverridden s) canon then Some v
                          else (case lookupSubtree s canon p' of Some sv \<Rightarrow> Some sv | None \<Rightarrow> Some v))
      | None \<Rightarrow>
          (case lookupInParent s ks of
             Some v \<Rightarrow> Some v
           | None \<Rightarrow> lookupSubtree s ks p))"

definition snGet :: "snapshot \<Rightarrow> path \<Rightarrow> govalue option" where
  "snGet s p = readSnap s (pathString p) (Some p) ReadGet"

definition SourceFor :: "snapshot \<Rightarrow> path \<Rightarrow> string list" where
  "SourceFor s p = (case mget (snSources s) (pathString p) of Some srcs \<Rightarrow> srcs | None \<Rightarrow> [])"

definition AsMapSnap :: "snapshot \<Rightarrow> (string \<times> goany) list" where
  "AsMapSnap s =
     (let idx = filter (\<lambda>i. \<not> mhas (snAliases s) (snKeyStrs s ! i)) [0..<length (snKeyStrs s)];
          shadowed = shadowedAmong s idx
      in fold (\<lambda>i out.
           let k = snKeyStrs s ! i
           in if mhas shadowed k then out
              else setNested out (snKeys s ! i) (unwrapValueDeep (valueAt s k))) idx [])"

definition snString :: "formatters \<Rightarrow> snapshot \<Rightarrow> string" where
  "snString fm s =
     (if snKeys s = [] then ''recon.Snapshot{}''
      else ''recon.Snapshot{'' @ [CHR 0x0A] @
        concat (map (\<lambda>ks.
          let v = valueAt s ks;
              text = valueString fm v;
              shown = (case snRedactor s of
                         Some red \<Rightarrow> if snSecrets s ks then red text else text
                       | None \<Rightarrow> text)
          in ''  '' @ ks @ '' = '' @ shown
             @ (if vsource v \<noteq> [] then ''  (from '' @ vsource v @ '')'' else []) @ [CHR 0x0A])
          (snKeyStrs s)) @ ''}'')"


section \<open>Construction\<close>

definition isNonEmptyMap :: "goany \<Rightarrow> bool" where
  "isNonEmptyMap a =
     (case a of
        AVal v \<Rightarrow> (case AsMap v of Inr m \<Rightarrow> m \<noteq> [] | Inl e \<Rightarrow> False)
      | AAnyMap m \<Rightarrow> m \<noteq> []
      | AValMap m \<Rightarrow> m \<noteq> []
      | AStrMap m \<Rightarrow> m \<noteq> []
      | _ \<Rightarrow> False)"

lemma size_entries: "size_list (\<lambda>(k, v). size v) m < size (MapV m)"
  by (induction m) auto

lemma size_entries_value: "vdata v = MapV m \<Longrightarrow> size_list (\<lambda>(k, v). size v) m + 1 < size v"
  using size_vdata[of v] size_entries[of m] by simp

function flattenInto :: "goany gomap \<Rightarrow> path \<Rightarrow> govalue \<Rightarrow> goany gomap"
  and flattenEntries :: "goany gomap \<Rightarrow> path \<Rightarrow> (string \<times> govalue) list \<Rightarrow> goany gomap" where
  "flattenInto out p v =
     (case AsMap v of
        Inr m \<Rightarrow> if m \<noteq> [] then flattenEntries out p m else mput (pathString p) (AVal v) out
      | Inl e \<Rightarrow> mput (pathString p) (AVal v) out)"
| "flattenEntries out p [] = out"
| "flattenEntries out p ((k, e) # m) = flattenEntries (flattenInto out (pathAppend p [k]) e) p m"
  by pat_completeness auto
termination
  by (relation "measure (\<lambda>x. case x of Inl (out, p, v) \<Rightarrow> 2 * size v
      | Inr (out, p, m) \<Rightarrow> 2 * size_list (\<lambda>(k, v). size v) m + 1)")
    (auto simp: AsMap_Inr dest!: size_entries_value)


declare flattenInto.simps [simp del]

text \<open>\<open>slices.SortFunc\<close> orders the map-valued keys by the number of segments of their path.\<close>

definition flattenLayer :: "goany gomap \<Rightarrow> goany gomap" where
  "flattenLayer m =
     (let mapKeys = map fst (filter (\<lambda>(k, v). isNonEmptyMap v) m)
      in if mapKeys = [] then m
         else let sorted_keys = sort_key (\<lambda>k. length (ParsePath k)) mapKeys;
                  out = fold (\<lambda>k out. case mget m k of
                                        Some v \<Rightarrow> flattenInto out (ParsePath k) (NewValue v)
                                      | None \<Rightarrow> out) sorted_keys []
              in fold (\<lambda>(k, v) out. if isNonEmptyMap v then out else mput k v out) m out)"

definition collectCandidateKeys :: "snapshotInputs \<Rightarrow> path option gomap" where
  "collectCandidateKeys is =
     (let nils = mkeys (isExplicits is) @ mkeys (isDefaults is) @ mkeys (isAliases is)
            @ mkeys (isBound is);
          out = fold (\<lambda>k m. mput k None m) nils []
      in fold (\<lambda>s m. fold (\<lambda>p m. mput (pathString p) (Some p) m) (srcKeys s) m) (isSources is) out)"

text \<open>The loop over the candidates: the paths, values and provenance so far, and the arena.\<close>

type_synonym buildState =
  "path gomap \<times> govalue gomap \<times> string list gomap \<times> string list option"

definition resolveStep :: "snapshotInputs \<Rightarrow> string \<times> path option \<Rightarrow> buildState \<Rightarrow> buildState" where
  "resolveStep is = (\<lambda>(keyStr, keyPath) (paths, vals, srcs, arena).
     let canonStr = resolveAliasChain keyStr (isAliases is)
     in if mhas paths canonStr then (paths, vals, srcs, arena)
        else let canon = (case keyPath of
                            Some p \<Rightarrow> if canonStr \<noteq> keyStr then ParsePath canonStr else p
                          | None \<Rightarrow> ParsePath canonStr);
                 paths' = mput canonStr canon paths
             in case resolveKey canon canonStr is arena of
                  (None, arena') \<Rightarrow> (paths', vals, srcs, arena')
                | (Some (v, ss), arena') \<Rightarrow>
                    (paths', mput canonStr v vals, mput canonStr ss srcs, arena'))"

definition stampAlias ::
  "string gomap \<Rightarrow> string \<Rightarrow> govalue gomap \<times> string list gomap \<Rightarrow> govalue gomap \<times> string list gomap" where
  "stampAlias aliases aliasStr = (\<lambda>(vals, srcs).
     let canonStr = resolveAliasChain aliasStr aliases
     in case mget vals canonStr of
          Some v \<Rightarrow> (mput aliasStr v vals,
                     case mget srcs canonStr of
                       Some ss \<Rightarrow> mput aliasStr ss srcs | None \<Rightarrow> mput aliasStr [] srcs)
        | None \<Rightarrow> (vals, srcs))"

definition boundOnly :: "string \<Rightarrow> snapshotInputs \<Rightarrow> path option gomap \<Rightarrow> bool" where
  "boundOnly k is candidates =
     (if \<not> mhas (isBound is) k \<or> (case mget candidates k of Some (Some p) \<Rightarrow> True | _ \<Rightarrow> False)
      then False
      else if mhas (isExplicits is) k then False
      else if mhas (isDefaults is) k then False
      else \<not> mhas (isAliases is) k)"

definition duplicateSpellings :: "snapshot \<Rightarrow> snapshotInputs \<Rightarrow> path option gomap \<Rightarrow> strset" where
  "duplicateSpellings s is candidates =
     fold (\<lambda>b hidden.
       if \<not> boundOnly b is candidates then hidden
       else case mget (snSources s) b of
              Some (w # _) \<Rightarrow>
                (case (case findSource (isSources is) w of Some src \<Rightarrow> srcNative src | None \<Rightarrow> None) of
                   None \<Rightarrow> hidden
                 | Some nk \<Rightarrow>
                     fold (\<lambda>(e, ep) hidden.
                       case ep of
                         None \<Rightarrow> hidden
                       | Some p \<Rightarrow>
                           (case mget (snSources s) e of
                              Some (w' # _) \<Rightarrow>
                                if w' = w \<and> nk p = nk (ParsePath b) \<and> e \<noteq> b then sadd e hidden
                                else hidden
                            | _ \<Rightarrow> hidden)) candidates hidden)
            | _ \<Rightarrow> hidden) (mkeys (isBound is)) []"

definition hideBoundParents ::
  "snapshot \<Rightarrow> snapshotInputs \<Rightarrow> path option gomap \<Rightarrow> string list" where
  "hideBoundParents s is candidates =
     (if isBound is = [] then snKeyStrs s
      else filter (\<lambda>k.
        \<not> (Kind (valueAt s k) = MapKind \<and> boundOnly k is candidates \<and>
           (case dropWhile (\<lambda>x. x < k @ DefaultDelimiter) (snKeyStrs s) of
              [] \<Rightarrow> False | x # _ \<Rightarrow> hasPrefix x (k @ DefaultDelimiter)))) (snKeyStrs s))"

definition overriddenStep :: "snapshot \<Rightarrow> string \<Rightarrow> nat \<Rightarrow> strset \<Rightarrow> strset" where
  "overriddenStep s k j out =
     (let a = take j k
      in case mget (snValues s) a of
           None \<Rightarrow> out
         | Some av \<Rightarrow>
             if mhas (snAliases s) a then out
             else let rk = rankOf s k; ra = rankOf s a
                  in if rk < ra \<or> (rk = ra \<and> Kind av \<noteq> MapKind) then sadd a out else out)"

definition overriddenParents :: "snapshot \<Rightarrow> strset" where
  "overriddenParents s =
     fold (\<lambda>k out. if mhas (snAliases s) k then out
                   else fold (overriddenStep s k) (topLevelDelims k) out) (snKeyStrs s) []"

text \<open>Whether a parent of \<open>k\<close> of higher precedence holds an entry for it.\<close>

definition parentHolds :: "snapshot \<Rightarrow> string \<Rightarrow> nat \<Rightarrow> bool" where
  "parentHolds s k j =
     (case mget (snValues s) (take j k) of
        None \<Rightarrow> False
      | Some av \<Rightarrow> Kind av = MapKind \<and> rankOf s (take j k) < rankOf s k
                   \<and> entryIn av (drop (j + 1) k) \<noteq> None)"

definition parentMapWins :: "snapshot \<Rightarrow> strset" where
  "parentMapWins s =
     (if \<forall>(k, v) \<in> set (snValues s). Kind v \<noteq> MapKind then []
      else fold (\<lambda>k out. if mhas (snAliases s) k then out
                         else if \<exists>j \<in> set (topLevelDelims k). parentHolds s k j then sadd k out
                         else out) (snLookupKeys s) [])"

definition flattenInputs :: "snapshotInputs \<Rightarrow> snapshotInputs" where
  "flattenInputs is =
     is\<lparr>isExplicits := flattenLayer (isExplicits is), isDefaults := flattenLayer (isDefaults is),
        isAliasesOf := invertAliases (isAliases is)\<rparr>"

definition resolvedPaths :: "path gomap \<Rightarrow> string list \<Rightarrow> path list" where
  "resolvedPaths paths ks = map (\<lambda>k. case mget paths k of Some p \<Rightarrow> p | None \<Rightarrow> ParsePath k) ks"

text \<open>\<open>buildSnapshot\<close> up to the listing of the keys, and its last two statements.\<close>

definition listSnapshot :: "snapshotInputs \<Rightarrow> snapshot" where
  "listSnapshot is0 =
     (let is = flattenInputs is0;
          candidates = collectCandidateKeys is;
          (paths, vals0, srcs0, _) = fold (resolveStep is) candidates ([], [], [], Some []);
          (vals, srcs) = fold (stampAlias (isAliases is)) (mkeys (isAliases is)) (vals0, srcs0);
          s0 = \<lparr>snValues = vals, snSources = srcs, snKeys = [], snKeyStrs = [], snLookupKeys = [],
                snLookupPaths = [], snOverridden = [], snInParent = [],
                snSourceNames = map srcName (isSources is), snAliases = isAliases is,
                snSecretKeys = isSecretKeys is, snRedactor = isRedactor is\<rparr>;
          hidden = duplicateSpellings s0 is candidates;
          s1 = s0\<lparr>snKeyStrs := sort (filter (\<lambda>k. \<not> mhas hidden k) (mkeys vals))\<rparr>;
          keyStrs = hideBoundParents s1 is candidates;
          keys = resolvedPaths paths keyStrs;
          lookupKeys = (if length keyStrs < length vals then sort (mkeys vals) else keyStrs);
          lookupPaths = (if length keyStrs < length vals then resolvedPaths paths lookupKeys else keys);
          s2 = s1\<lparr>snKeyStrs := keyStrs, snKeys := keys, snLookupKeys := lookupKeys,
                  snLookupPaths := lookupPaths\<rparr>
      in s2)"

definition buildSnapshot :: "snapshotInputs \<Rightarrow> snapshot" where
  "buildSnapshot is0 =
     (let s2 = listSnapshot is0;
          s3 = s2\<lparr>snOverridden := overriddenParents s2\<rparr>
      in s3\<lparr>snInParent := parentMapWins s3\<rparr>)"

end
