(* ===== verification/SnapshotBuild.thy ===== *)
theory SnapshotBuild
  imports Snapshot
begin

text \<open>
  What \<open>buildSnapshot\<close> computes: the loop over the candidates and the stamping of aliases give,
  for every key, the result of the precedence walk at the canonical key, whatever order the
  candidates come in.
\<close>

section \<open>Candidates\<close>

definition candidatesOk :: "path option gomap \<Rightarrow> bool" where
  "candidatesOk cs = (\<forall>(k, p) \<in> set cs. p = None \<or> p = Some (ParsePath k))"

text \<open>The set of keys \<open>collectCandidateKeys\<close> collects.\<close>

definition candidateKeys :: "snapshotInputs \<Rightarrow> string set" where
  "candidateKeys is =
     set (mkeys (isExplicits is)) \<union> set (mkeys (isDefaults is)) \<union> set (mkeys (isAliases is))
     \<union> set (mkeys (isBound is)) \<union> (\<Union>s \<in> set (isSources is). pathString ` set (srcKeys s))"

lemma fold_nil_keys:
  "mwf m \<Longrightarrow> mwf (fold (\<lambda>k m. mput k None m) ks m)
   \<and> set (mkeys (fold (\<lambda>k m. mput k None m) ks m)) = set ks \<union> set (mkeys m)"
  by (induction ks arbitrary: m) (auto simp: mkeys_mput)

lemma fold_path_keys:
  "mwf m \<Longrightarrow> mwf (fold (\<lambda>p m. mput (pathString p) (Some p) m) ps m)
   \<and> set (mkeys (fold (\<lambda>p m. mput (pathString p) (Some p) m) ps m))
       = pathString ` set ps \<union> set (mkeys m)"
  by (induction ps arbitrary: m) (auto simp: mkeys_mput)

lemma fold_source_keys:
  "mwf m \<Longrightarrow> mwf (fold (\<lambda>s m. fold (\<lambda>p m. mput (pathString p) (Some p) m) (srcKeys s) m) ss m)
   \<and> set (mkeys (fold (\<lambda>s m. fold (\<lambda>p m. mput (pathString p) (Some p) m) (srcKeys s) m) ss m))
       = (\<Union>s \<in> set ss. pathString ` set (srcKeys s)) \<union> set (mkeys m)"
  by (induction ss arbitrary: m) (auto simp: fold_path_keys)

lemma collect_keys:
  "mwf (collectCandidateKeys is) \<and> set (mkeys (collectCandidateKeys is)) = candidateKeys is"
proof -
  define ks where "ks = mkeys (isExplicits is) @ mkeys (isDefaults is) @ mkeys (isAliases is)
    @ mkeys (isBound is)"
  define m where "m = fold (\<lambda>k m. mput k None m) ks ([] :: path option gomap)"
  have m: "mwf m" "set (mkeys m) = set ks"
    using fold_nil_keys[of "[] :: path option gomap" ks] by (simp_all add: m_def)
  show ?thesis
    unfolding collectCandidateKeys_def Let_def ks_def[symmetric] m_def[symmetric]
    using fold_source_keys[OF m(1), of "isSources is"] m(2) by (auto simp: ks_def candidateKeys_def)
qed

lemma candidatesOk_mput: "candidatesOk m \<Longrightarrow> p = None \<or> p = Some (ParsePath k) \<Longrightarrow> candidatesOk (mput k p m)"
  unfolding candidatesOk_def by (induction m) (auto split: if_splits)

lemma collect_ok: "candidatesOk (collectCandidateKeys is)"
proof -
  have a: "candidatesOk m \<Longrightarrow> candidatesOk (fold (\<lambda>k m. mput k None m) ks m)" for ks m
    by (induction ks arbitrary: m) (auto simp: candidatesOk_mput)
  have b: "candidatesOk m \<Longrightarrow> candidatesOk (fold (\<lambda>p m. mput (pathString p) (Some p) m) ps m)" for ps m
    by (induction ps arbitrary: m) (auto simp: candidatesOk_mput)
  have c: "candidatesOk m \<Longrightarrow>
      candidatesOk (fold (\<lambda>s m. fold (\<lambda>p m. mput (pathString p) (Some p) m) (srcKeys s) m) ss m)" for ss m
    by (induction ss arbitrary: m) (auto simp: b)
  show ?thesis
    unfolding collectCandidateKeys_def Let_def by (intro a c) (simp add: candidatesOk_def)
qed


section \<open>The resolution loop\<close>

text \<open>What the precedence walk gives for a canonical key.\<close>

definition resolved :: "snapshotInputs \<Rightarrow> string \<Rightarrow> (govalue \<times> string list) option" where
  "resolved is k = fst (resolveKey (ParsePath k) k is None)"

definition buildInv :: "snapshotInputs \<Rightarrow> string set \<Rightarrow> buildState \<Rightarrow> bool" where
  "buildInv is K = (\<lambda>(paths, vals, srcs, arena).
     mwf paths \<and> mwf vals \<and> mwf srcs
     \<and> (\<forall>k. mget paths k = (if k \<in> K then Some (ParsePath k) else None))
     \<and> (\<forall>k. mget vals k = (if k \<in> K then map_option fst (resolved is k) else None))
     \<and> (\<forall>k. mget srcs k = (if k \<in> K then map_option snd (resolved is k) else None)))"

lemma buildInv_empty: "buildInv is {} ([], [], [], arena)"
  by (simp add: buildInv_def)

lemma resolveStep_inv:
  assumes inv: "buildInv is K st" and ok: "p = None \<or> p = Some (ParsePath k)"
  shows "buildInv is (insert (resolveAliasChain k (isAliases is)) K) (resolveStep is (k, p) st)"
proof -
  obtain paths vals srcs arena where st: "st = (paths, vals, srcs, arena)" by (cases st) auto
  let ?c = "resolveAliasChain k (isAliases is)"
  show ?thesis
  proof (cases "?c \<in> K")
    case True
    then have "mhas paths ?c" using inv by (auto simp: buildInv_def st mhas_def)
    then have "resolveStep is (k, p) st = st" by (simp add: resolveStep_def st Let_def)
    with inv True show ?thesis by (simp add: insert_absorb)
  next
    case False
    then have fresh: "\<not> mhas paths ?c" using inv by (auto simp: buildInv_def st mhas_def)
    define canon where "canon = (case p of
        Some p \<Rightarrow> if ?c \<noteq> k then ParsePath ?c else p | None \<Rightarrow> ParsePath ?c)"
    have canon: "canon = ParsePath ?c" using ok by (auto simp: canon_def)
    obtain r arena' where r: "resolveKey (ParsePath ?c) ?c is arena = (r, arena')" by force
    then have rr: "r = resolved is ?c"
      unfolding resolved_def by (metis fst_conv resolveKey_arena)
    show ?thesis
    proof (cases r)
      case None
      then have "resolveStep is (k, p) st = (mput ?c (ParsePath ?c) paths, vals, srcs, arena')"
        using fresh r canon by (simp add: resolveStep_def st Let_def canon_def)
      then show ?thesis using inv False None rr by (auto simp: buildInv_def st mget_mput)
    next
      case (Some vs)
      obtain v ss where vs: "vs = (v, ss)" by force
      then have "resolveStep is (k, p) st
          = (mput ?c (ParsePath ?c) paths, mput ?c v vals, mput ?c ss srcs, arena')"
        using fresh r canon Some by (simp add: resolveStep_def st Let_def canon_def)
      moreover have "resolved is ?c = Some (v, ss)" using Some rr vs by simp
      ultimately show ?thesis using inv False by (auto simp: buildInv_def st mget_mput)
    qed
  qed
qed

lemma resolve_fold:
  "buildInv is K st \<Longrightarrow> candidatesOk cs \<Longrightarrow>
   buildInv is ((\<lambda>k. resolveAliasChain k (isAliases is)) ` set (mkeys cs) \<union> K) (fold (resolveStep is) cs st)"
proof (induction cs arbitrary: st K)
  case (Cons e cs)
  obtain k p where e: "e = (k, p)" by force
  have "buildInv is (insert (resolveAliasChain k (isAliases is)) K) (resolveStep is e st)"
    unfolding e by (rule resolveStep_inv[OF Cons.prems(1)]) (use Cons.prems(2) e in \<open>auto simp: candidatesOk_def\<close>)
  moreover have "candidatesOk cs" using Cons.prems(2) by (auto simp: candidatesOk_def)
  ultimately show ?case using Cons.IH by (fastforce simp: e)
qed simp


section \<open>Aliases\<close>

lemma stamp_fold:
  assumes ends: "\<And>a. a \<in> set as \<Longrightarrow> mget al (resolveAliasChain a al) = None"
    and sub: "set as \<subseteq> set (mkeys al)"
    and dom: "\<And>k. (mget vals k = None) = (mget srcs k = None)"
    and wf: "mwf vals" "mwf srcs"
    and r: "fold (stampAlias al) as (vals, srcs) = (vals', srcs')"
  shows "mwf vals' \<and> mwf srcs'
    \<and> (\<forall>k. mget vals' k = (if k \<in> set as \<and> mget vals (resolveAliasChain k al) \<noteq> None
                           then mget vals (resolveAliasChain k al) else mget vals k))
    \<and> (\<forall>k. mget srcs' k = (if k \<in> set as \<and> mget vals (resolveAliasChain k al) \<noteq> None
                           then mget srcs (resolveAliasChain k al) else mget srcs k))"
  using assms
proof (induction as arbitrary: vals srcs)
  case (Cons a as)
  let ?c = "resolveAliasChain a al"
  show ?case
  proof (cases "mget vals ?c")
    case None
    then have "stampAlias al a (vals, srcs) = (vals, srcs)"
      by (simp add: stampAlias_def Let_def)
    then have "fold (stampAlias al) as (vals, srcs) = (vals', srcs')"
      using Cons.prems(6) by simp
    then show ?thesis using Cons.IH[of vals srcs] Cons.prems None by auto
  next
    case (Some v)
    obtain ss where ss: "mget srcs ?c = Some ss" using Cons.prems(3)[of ?c] Some by auto
    then have "stampAlias al a (vals, srcs) = (mput a v vals, mput a ss srcs)"
      using Some by (simp add: stampAlias_def Let_def)
    then have step: "fold (stampAlias al) as (mput a v vals, mput a ss srcs) = (vals', srcs')"
      using Cons.prems(6) by simp
    have na: "b \<in> set (a # as) \<Longrightarrow> resolveAliasChain b al \<noteq> a" for b
    proof
      assume "b \<in> set (a # as)" and "resolveAliasChain b al = a"
      then have "mget al a = None" using Cons.prems(1)[of b] by simp
      then show False using Cons.prems(2) by (auto simp: mget_None_iff)
    qed
    have ih: "mwf vals' \<and> mwf srcs'
      \<and> (\<forall>k. mget vals' k = (if k \<in> set as \<and> mget (mput a v vals) (resolveAliasChain k al) \<noteq> None
                             then mget (mput a v vals) (resolveAliasChain k al) else mget (mput a v vals) k))
      \<and> (\<forall>k. mget srcs' k = (if k \<in> set as \<and> mget (mput a v vals) (resolveAliasChain k al) \<noteq> None
                             then mget (mput a ss srcs) (resolveAliasChain k al) else mget (mput a ss srcs) k))"
      by (rule Cons.IH) (use Cons.prems step in \<open>auto simp: mget_mput\<close>)
    show ?thesis
    proof (intro conjI allI)
      fix k
      show "mget vals' k = (if k \<in> set (a # as) \<and> mget vals (resolveAliasChain k al) \<noteq> None
          then mget vals (resolveAliasChain k al) else mget vals k)"
        using ih na[of k] Some by (auto simp: mget_mput)
      show "mget srcs' k = (if k \<in> set (a # as) \<and> mget vals (resolveAliasChain k al) \<noteq> None
          then mget srcs (resolveAliasChain k al) else mget srcs k)"
        using ih na[of k] Some ss by (auto simp: mget_mput)
    qed (use ih in auto)
  qed
qed auto


section \<open>The built snapshot\<close>

definition canonicalKeys :: "snapshotInputs \<Rightarrow> string set" where
  "canonicalKeys is = (\<lambda>k. resolveAliasChain k (isAliases is)) ` candidateKeys is"

definition resolveAll :: "snapshotInputs \<Rightarrow> buildState" where
  "resolveAll is = fold (resolveStep is) (collectCandidateKeys is) ([], [], [], Some [])"

lemma resolveAll_inv: "buildInv is (canonicalKeys is) (resolveAll is)"
  unfolding resolveAll_def canonicalKeys_def
  using resolve_fold[OF buildInv_empty[of "is" "Some []"] collect_ok[of "is"]] collect_keys[of "is"]
  by simp

definition stamped :: "snapshotInputs \<Rightarrow> govalue gomap \<times> string list gomap" where
  "stamped is = (case resolveAll is of (paths, vals, srcs, arena) \<Rightarrow>
     fold (stampAlias (isAliases is)) (mkeys (isAliases is)) (vals, srcs))"

lemma flattenInputs_simps [simp]:
  "isAliases (flattenInputs is) = isAliases is" "isSources (flattenInputs is) = isSources is"
  "isPins (flattenInputs is) = isPins is" "isBound (flattenInputs is) = isBound is"
  "isMerge (flattenInputs is) = isMerge is" "isSecretKeys (flattenInputs is) = isSecretKeys is"
  "isAliasesOf (flattenInputs is) = invertAliases (isAliases is)"
  "isExplicits (flattenInputs is) = flattenLayer (isExplicits is)"
  "isDefaults (flattenInputs is) = flattenLayer (isDefaults is)"
  "isRedactor (flattenInputs is) = isRedactor is"
  by (simp_all add: flattenInputs_def)

lemma snMaps_build:
  "snValues (buildSnapshot is) = fst (stamped (flattenInputs is))"
  "snSources (buildSnapshot is) = snd (stamped (flattenInputs is))"
  by (simp_all add: buildSnapshot_def listSnapshot_def Let_def stamped_def resolveAll_def split: prod.splits)

lemma snAliases_build [simp]: "snAliases (buildSnapshot is) = isAliases is"
  "snSecretKeys (buildSnapshot is) = isSecretKeys is"
  "snSourceNames (buildSnapshot is) = map srcName (isSources is)"
  "snRedactor (buildSnapshot is) = isRedactor is"
  by (simp_all add: buildSnapshot_def listSnapshot_def Let_def split: prod.splits)

text \<open>What every key of a snapshot reads, for keys and aliases alike.\<close>

definition resolvedAt :: "snapshotInputs \<Rightarrow> string \<Rightarrow> (govalue \<times> string list) option" where
  "resolvedAt is k =
     (let c = resolveAliasChain k (isAliases is)
      in if c \<in> canonicalKeys (flattenInputs is) then resolved (flattenInputs is) c else None)"

lemma alias_canonical: "mget (isAliases is) k = Some c \<Longrightarrow> resolveAliasChain k (isAliases is) \<in> canonicalKeys is"
  by (auto simp: canonicalKeys_def candidateKeys_def mkeys_def dest!: mget_in_set intro!: imageI)
    (metis fst_conv image_eqI)

lemma build_maps:
  assumes "acyclic (aliasRel (isAliases is))" and "length (isAliases is) \<le> maxAliasDepth"
  shows "mwf (snValues (buildSnapshot is)) \<and> mwf (snSources (buildSnapshot is))
    \<and> mget (snValues (buildSnapshot is)) k = map_option fst (resolvedAt is k)
    \<and> mget (snSources (buildSnapshot is)) k = map_option snd (resolvedAt is k)"
proof -
  let ?is = "flattenInputs is"
  let ?al = "isAliases is"
  obtain paths vals srcs arena where ra: "resolveAll ?is = (paths, vals, srcs, arena)"
    by (cases "resolveAll ?is") auto
  have inv: "buildInv ?is (canonicalKeys ?is) (paths, vals, srcs, arena)"
    using resolveAll_inv[of ?is] ra by simp
  have wf: "mwf vals" "mwf srcs"
    and vals: "\<And>k. mget vals k = (if k \<in> canonicalKeys ?is then map_option fst (resolved ?is k) else None)"
    and srcs: "\<And>k. mget srcs k = (if k \<in> canonicalKeys ?is then map_option snd (resolved ?is k) else None)"
    using inv by (auto simp: buildInv_def)
  obtain vals' srcs' where st: "fold (stampAlias ?al) (mkeys ?al) (vals, srcs) = (vals', srcs')" by force
  have res: "\<And>a. mget ?al (resolveAliasChain a ?al) = None"
    using assms by (rule resolved_not_alias)
  have dom: "(mget vals k = None) = (mget srcs k = None)" for k by (simp add: vals srcs)
  have stamp: "mwf vals' \<and> mwf srcs'
    \<and> (\<forall>k. mget vals' k = (if k \<in> set (mkeys ?al) \<and> mget vals (resolveAliasChain k ?al) \<noteq> None
                           then mget vals (resolveAliasChain k ?al) else mget vals k))
    \<and> (\<forall>k. mget srcs' k = (if k \<in> set (mkeys ?al) \<and> mget vals (resolveAliasChain k ?al) \<noteq> None
                           then mget srcs (resolveAliasChain k ?al) else mget srcs k))"
    using stamp_fold[OF res order_refl dom wf st] by blast
  have fin: "snValues (buildSnapshot is) = vals'" "snSources (buildSnapshot is) = srcs'"
    using snMaps_build[of "is"] ra st by (simp_all add: stamped_def)
  have noalias: "k \<in> set (mkeys ?al) \<Longrightarrow> k \<notin> canonicalKeys ?is" for k
    using res mget_None_iff[of ?al k] by (auto simp: canonicalKeys_def)
  have chain: "k \<notin> set (mkeys ?al) \<Longrightarrow> resolveAliasChain k ?al = k" for k
    by (simp add: mget_None_iff)
  show ?thesis
  proof (cases "k \<in> set (mkeys ?al)")
    case True
    then show ?thesis
      unfolding fin using stamp noalias[of k] vals[of k] srcs[of k]
        vals[of "resolveAliasChain k ?al"] srcs[of "resolveAliasChain k ?al"]
      by (auto simp: resolvedAt_def Let_def)
  next
    case False
    then show ?thesis
      unfolding fin using stamp chain[of k] vals[of k] srcs[of k] by (auto simp: resolvedAt_def Let_def)
  qed
qed

end
