(* ===== verification/SnapshotRead.thy ===== *)
theory SnapshotRead
  imports SnapshotBuild
begin

text \<open>
  What the reads of a snapshot compute: the choice among parents that hold a key, the conflicts
  \<open>shadowedKeys\<close> resolves by rank, the nested form \<open>AsMap\<close> writes, and which keys a secret mark
  covers.
\<close>

section \<open>Delimiters are increasing\<close>

lemma delimsFrom_ge: "j \<in> set (delimsFrom s i) \<Longrightarrow> i \<le> j"
  by (induction s i rule: delimsFrom.induct) (force split: if_splits option.splits)+

lemma delimsFrom_sorted: "sorted_wrt (<) (delimsFrom s i)"
proof (induction s i rule: delimsFrom.induct)
  case (2 c s i)
  then show ?case using delimsFrom_ge[of _ s "Suc i"] by (auto split: option.splits simp: less_eq_Suc_le)
qed simp


section \<open>Sets built by folds\<close>

lemma mhas_fold_sadd:
  assumes "\<And>x out. mhas (f x out) k \<longleftrightarrow> mhas out k \<or> P x"
  shows "mhas (fold f xs out) k \<longleftrightarrow> mhas out k \<or> (\<exists>x \<in> set xs. P x)"
  using assms by (induction xs arbitrary: out) auto

lemma mhas_fold_sadd_Nil:
  assumes "\<And>x out. mhas (f x out) k \<longleftrightarrow> mhas out k \<or> P x"
  shows "mhas (fold f xs []) k \<longleftrightarrow> (\<exists>x \<in> set xs. P x)"
  using mhas_fold_sadd[of f k P xs "[]"] assms by (simp add: mhas_def)

lemma mget_fold_const: "mget (fold (\<lambda>k m. mput k (f k) m) ks m) k = (if k \<in> set ks then Some (f k) else mget m k)"
  by (induction ks arbitrary: m) (auto simp: mget_mput)

lemma mhas_Nil [simp]: "\<not> mhas [] k"
  by (simp add: mhas_def)

text \<open>Two keys of one list in conflict: one is a parent of the other and they rank differently.\<close>

definition parentOf :: "string \<Rightarrow> string \<Rightarrow> bool" where
  "parentOf a k = (\<exists>j \<in> set (topLevelDelims k). a = take j k)"

lemma shadowedKeys_iff:
  "mhas (shadowedKeys s keys) x \<longleftrightarrow> x \<in> set keys \<and>
     (\<exists>a \<in> set keys. parentOf a x \<and> rankOf s a < rankOf s x
        \<or> parentOf x a \<and> rankOf s a < rankOf s x)"
proof -
  define rank where "rank = fold (\<lambda>k m. mput k (rankOf s k) m) keys []"
  have rank: "mget rank k = (if k \<in> set keys then Some (rankOf s k) else None)" for k
    by (simp add: rank_def mget_fold_const)
  define P where "P k j = (take j k \<in> set keys \<and> k \<in> set keys \<and>
    (rankOf s (take j k) < rankOf s k \<and> x = k \<or> rankOf s k < rankOf s (take j k) \<and> x = take j k))"
    for k j
  have step: "mhas (shadowStep rank k j out) x \<longleftrightarrow> mhas out x \<or> P k j" for k j out
    by (auto simp: shadowStep_def rank P_def)
  have "mhas (fold (shadowStep rank k) (topLevelDelims k) out) x \<longleftrightarrow>
      mhas out x \<or> (\<exists>j \<in> set (topLevelDelims k). P k j)" for k out
    by (rule mhas_fold_sadd[where P = "P k"]) (rule step)
  then have "mhas (shadowedKeys s keys) x \<longleftrightarrow>
      (\<exists>k \<in> set keys. \<exists>j \<in> set (topLevelDelims k). P k j)"
    unfolding shadowedKeys_def Let_def rank_def[symmetric]
    by (rule mhas_fold_sadd_Nil[where P = "\<lambda>k. \<exists>j \<in> set (topLevelDelims k). P k j"])
  then show ?thesis by (auto simp: P_def parentOf_def)
qed

lemma overridden_iff:
  "mhas (overriddenParents s) a \<longleftrightarrow>
     (\<exists>k \<in> set (snKeyStrs s). \<not> mhas (snAliases s) k \<and> parentOf a k \<and> \<not> mhas (snAliases s) a
        \<and> (\<exists>av. mget (snValues s) a = Some av \<and>
             (rankOf s k < rankOf s a \<or> rankOf s k = rankOf s a \<and> Kind av \<noteq> MapKind)))"
proof -
  define P where "P k j = (a = take j k \<and> \<not> mhas (snAliases s) a \<and>
    (\<exists>av. mget (snValues s) a = Some av \<and>
       (rankOf s k < rankOf s a \<or> rankOf s k = rankOf s a \<and> Kind av \<noteq> MapKind)))" for k j
  have step: "mhas (overriddenStep s k j out) a \<longleftrightarrow> mhas out a \<or> P k j" for k j out
    by (auto simp: overriddenStep_def Let_def P_def split: option.splits)
  have inner: "mhas (fold (overriddenStep s k) (topLevelDelims k) out) a \<longleftrightarrow>
      mhas out a \<or> (\<exists>j \<in> set (topLevelDelims k). P k j)" for k out
    by (rule mhas_fold_sadd[where P = "P k"]) (rule step)
  have "mhas (overriddenParents s) a \<longleftrightarrow>
      (\<exists>k \<in> set (snKeyStrs s). \<not> mhas (snAliases s) k \<and> (\<exists>j \<in> set (topLevelDelims k). P k j))"
    unfolding overriddenParents_def
    by (rule mhas_fold_sadd_Nil[where P = "\<lambda>k. \<not> mhas (snAliases s) k
          \<and> (\<exists>j \<in> set (topLevelDelims k). P k j)"])
      (simp add: inner)
  then show ?thesis by (auto simp: P_def parentOf_def)
qed

lemma parentMapWins_iff:
  "mhas (parentMapWins s) k \<longleftrightarrow>
     k \<in> set (snLookupKeys s) \<and> \<not> mhas (snAliases s) k
     \<and> (\<exists>j \<in> set (topLevelDelims k). parentHolds s k j)"
proof (cases "\<forall>(k, v) \<in> set (snValues s). Kind v \<noteq> MapKind")
  case True
  then have "\<not> parentHolds s k j" for j
    by (auto simp: parentHolds_def split: option.splits dest!: mget_in_set)
  with True show ?thesis by (simp add: parentMapWins_def)
next
  case False
  have "mhas (fold (\<lambda>k out. if mhas (snAliases s) k then out
          else if \<exists>j \<in> set (topLevelDelims k). parentHolds s k j then sadd k out else out)
        (snLookupKeys s) []) k \<longleftrightarrow> (\<exists>x \<in> set (snLookupKeys s). x = k \<and>
          \<not> mhas (snAliases s) x \<and> (\<exists>j \<in> set (topLevelDelims x). parentHolds s x j))"
    by (rule mhas_fold_sadd_Nil[where P = "\<lambda>x. x = k \<and>
          \<not> mhas (snAliases s) x \<and> (\<exists>j \<in> set (topLevelDelims x). parentHolds s x j)"]) auto
  moreover have "parentMapWins s = fold (\<lambda>k out. if mhas (snAliases s) k then out
          else if \<exists>j \<in> set (topLevelDelims k). parentHolds s k j then sadd k out else out)
        (snLookupKeys s) []"
    unfolding parentMapWins_def using False by (simp only: if_False)
  ultimately show ?thesis by auto
qed


section \<open>The entry of the best parent\<close>

definition heldAt :: "snapshot \<Rightarrow> string \<Rightarrow> nat \<Rightarrow> govalue option" where
  "heldAt s ks i =
     (case mget (snValues s) (take i ks) of
        None \<Rightarrow> None
      | Some parent \<Rightarrow>
          if Kind parent \<noteq> MapKind then None
          else map_option (withSource (vsource parent)) (entryIn parent (drop (i + 1) ks)))"

lemma parentStep_held:
  "parentStep s ks i st =
     (case heldAt s ks i of
        None \<Rightarrow> st
      | Some v \<Rightarrow>
          (case st of
             None \<Rightarrow> Some (v, take i ks)
           | Some (found, foundAt) \<Rightarrow>
               if rankOf s (take i ks) > rankOf s foundAt then st else Some (v, take i ks)))"
  by (auto simp: parentStep_def heldAt_def split: option.splits)

definition bestHeld :: "snapshot \<Rightarrow> string \<Rightarrow> nat list \<Rightarrow> (govalue \<times> string) option \<Rightarrow> bool" where
  "bestHeld s ks is st =
     (case st of
        None \<Rightarrow> \<forall>i \<in> set is. heldAt s ks i = None
      | Some (v, at) \<Rightarrow>
          (\<exists>i \<in> set is. at = take i ks \<and> heldAt s ks i = Some v \<and>
             (\<forall>j \<in> set is. heldAt s ks j \<noteq> None \<longrightarrow>
                rankOf s (take i ks) < rankOf s (take j ks)
                \<or> rankOf s (take i ks) = rankOf s (take j ks) \<and> j \<le> i)))"

lemma bestHeld_fold:
  "sorted_wrt (<) is \<Longrightarrow> bestHeld s ks is (fold (parentStep s ks) is None)"
proof (induction "is" rule: rev_induct)
  case Nil
  then show ?case by (simp add: bestHeld_def)
next
  case (snoc i "is")
  then have less: "\<forall>j \<in> set is. j < i" and ih: "bestHeld s ks is (fold (parentStep s ks) is None)"
    by (auto simp: sorted_wrt_append)
  show ?case
  proof (cases "heldAt s ks i")
    case None
    then have "fold (parentStep s ks) (is @ [i]) None = fold (parentStep s ks) is None"
      by (simp add: parentStep_held[of s ks i])
    then show ?thesis using ih None by (cases "fold (parentStep s ks) is None") (auto simp: bestHeld_def)
  next
    case (Some v)
    show ?thesis
    proof (cases "fold (parentStep s ks) is None")
      case None
      then show ?thesis using ih Some by (auto simp: parentStep_held[of s ks i] bestHeld_def)
    next
      case st: (Some e)
      obtain w at where e: "e = (w, at)" by force
      obtain k where k: "k \<in> set is" "at = take k ks" "heldAt s ks k = Some w"
        "\<forall>j \<in> set is. heldAt s ks j \<noteq> None \<longrightarrow>
           rankOf s (take k ks) < rankOf s (take j ks)
           \<or> rankOf s (take k ks) = rankOf s (take j ks) \<and> j \<le> k"
        using ih st e by (auto simp: bestHeld_def)
      show ?thesis
      proof (cases "rankOf s (take i ks) > rankOf s at")
        case True
        then show ?thesis using k st e Some by (auto simp: parentStep_held[of s ks i] bestHeld_def)
      next
        case False
        have "\<forall>j \<in> set (is @ [i]). heldAt s ks j \<noteq> None \<longrightarrow>
            rankOf s (take i ks) < rankOf s (take j ks)
            \<or> rankOf s (take i ks) = rankOf s (take j ks) \<and> j \<le> i"
          using k(4) False k(2) less by (fastforce intro: less_imp_le)
        then show ?thesis using False st e Some by (auto simp: parentStep_held[of s ks i] bestHeld_def)
      qed
    qed
  qed
qed

lemma lookupInParent_best:
  "(lookupInParent s ks = None \<longleftrightarrow> (\<forall>i \<in> set (topLevelDelims ks). heldAt s ks i = None))
   \<and> (lookupInParent s ks = Some v \<longrightarrow>
        (\<exists>i \<in> set (topLevelDelims ks). heldAt s ks i = Some v \<and>
           (\<forall>j \<in> set (topLevelDelims ks). heldAt s ks j \<noteq> None \<longrightarrow>
              rankOf s (take i ks) < rankOf s (take j ks)
              \<or> rankOf s (take i ks) = rankOf s (take j ks) \<and> j \<le> i)))"
proof -
  have "bestHeld s ks (topLevelDelims ks) (fold (parentStep s ks) (topLevelDelims ks) None)"
    by (rule bestHeld_fold) (simp add: topLevelDelims_def delimsFrom_sorted)
  then show ?thesis
    unfolding lookupInParent_def bestHeld_def by (auto split: option.splits)
qed

lemma parentHolds_held:
  "parentHolds s k j \<Longrightarrow> heldAt s k j \<noteq> None \<and> rankOf s (take j k) < rankOf s k"
  by (auto simp: parentHolds_def heldAt_def split: option.splits)


section \<open>Nested maps\<close>

fun getNested :: "(string \<times> goany) list \<Rightarrow> path \<Rightarrow> goany option" where
  "getNested m [] = None"
| "getNested m [seg] = mget m seg"
| "getNested m (seg # seg' # p) = getNested (submap m seg) (seg' # p)"

definition comparable :: "path \<Rightarrow> path \<Rightarrow> bool" where
  "comparable p q = ((\<exists>r. p = q @ r) \<or> (\<exists>r. q = p @ r))"

lemma submap_mput [simp]:
  "submap (mput seg (AAnyMap n) m) seg' = (if seg' = seg then n else submap m seg')"
  by (simp add: submap_def mget_mput)

lemma getNested_setNested_same: "p \<noteq> [] \<Longrightarrow> getNested (setNested m p v) p = Some v"
  by (induction m p v rule: setNested.induct) (auto simp: mget_mput)

lemma comparable_Cons: "comparable (x # p) (y # q) \<longleftrightarrow> x = y \<and> comparable p q"
  by (auto simp: comparable_def)

lemma comparable_Nil [simp]: "comparable [] q" "comparable p []"
  by (auto simp: comparable_def)

lemma getNested_setNested_other:
  "\<not> comparable p q \<Longrightarrow> getNested (setNested m p v) q = getNested m q"
proof (induction m p v arbitrary: q rule: setNested.induct)
  case (2 m seg v)
  then obtain x q' where q: "q = x # q'" "x \<noteq> seg" by (cases q) (auto simp: comparable_Cons)
  then show ?case by (cases q') (auto simp: mget_mput submap_def)
next
  case (3 m seg seg' p v)
  then obtain x q' where q: "q = x # q'" by (cases q) auto
  show ?case
  proof (cases q')
    case Nil
    then show ?thesis using 3 q by (auto simp: comparable_Cons mget_mput)
  next
    case (Cons y q'')
    then show ?thesis using 3 q by (auto simp: comparable_Cons mget_mput)
  qed
qed simp

lemma getNested_fold_other:
  "\<forall>i \<in> set is. \<not> comparable (P i) q \<Longrightarrow>
   getNested (fold (\<lambda>i out. if D i then out else setNested out (P i) (V i)) is m) q = getNested m q"
  by (induction "is" arbitrary: m) (auto simp: getNested_setNested_other)

lemma getNested_fold_kept:
  assumes "i \<in> set is" and "distinct is" and "\<not> D i" and "P i \<noteq> []"
    and "\<forall>j \<in> set is. j \<noteq> i \<and> \<not> D j \<longrightarrow> \<not> comparable (P j) (P i)"
  shows "getNested (fold (\<lambda>i out. if D i then out else setNested out (P i) (V i)) is m) (P i) = Some (V i)"
proof -
  let ?f = "\<lambda>i out. if D i then out else setNested out (P i) (V i)"
  obtain as bs where split: "is = as @ i # bs" using assms(1) split_list by metis
  have drop: "fold ?f bs m = fold ?f (filter (\<lambda>j. \<not> D j) bs) m" for bs m
    by (induction bs arbitrary: m) auto
  have nc: "\<forall>j \<in> set (filter (\<lambda>j. \<not> D j) bs). \<not> comparable (P j) (P i)"
    using assms(2,5) split by auto
  have "fold ?f is m = fold ?f bs (setNested (fold ?f as m) (P i) (V i))"
    using split assms(3) by simp
  then show ?thesis
    using getNested_fold_other[OF nc, of D V] getNested_setNested_same[OF assms(4)]
    by (simp add: drop[of bs])
qed


section \<open>Secrets\<close>

lemma parent_prefix:
  assumes "p \<noteq> []" and "p \<noteq> [[]]" and "r \<noteq> []"
  shows "parentOf (pathString p) (pathString (p @ r))"
proof -
  let ?q = "p @ r"
  have q: "?q \<noteq> []" "?q \<noteq> [[]]" using assms by (auto simp: append_eq_Cons_conv)
  have "length p \<in> set [1..<length ?q]" using assms by (simp add: Suc_le_eq)
  then have "joinForm (take (length p) ?q) \<in> fst ` set (delimSplits (pathString ?q))"
    unfolding delimSplits_pathString[OF q] by (force simp del: set_upt)
  then obtain j where j: "j \<in> set (topLevelDelims (pathString ?q))"
    "take j (pathString ?q) = joinForm p"
    by (auto simp: delimSplits_def)
  have "joinForm p = pathString p" using assms by (simp add: joinForm_pathString)
  with j show ?thesis unfolding parentOf_def by metis
qed

lemma secretMatches_below:
  assumes "mhas keys (pathString p)" and "p \<noteq> []" and "p \<noteq> [[]]"
  shows "secretMatches keys al (pathString (p @ r))"
proof (cases "r = []")
  case True
  then show ?thesis using assms(1) by (simp add: secretMatches_def secretMarked_def)
next
  case False
  then show ?thesis
    using parent_prefix[OF assms(2,3) False] assms(1)
    by (auto simp: secretMatches_def secretMarked_def parentOf_def)
qed

end
