(* ===== verification/SnapshotProps.thy ===== *)
theory SnapshotProps
  imports SnapshotRead
begin

text \<open>
  The listing of a built snapshot, and the properties of the precedence walk, of \<open>buildSnapshot\<close>
  and of the reads, on the snapshots the registry builds.
\<close>

section \<open>Listing\<close>

lemma hideBoundParents_filter: "\<exists>P. hideBoundParents s is cs = filter P (snKeyStrs s)"
  unfolding hideBoundParents_def by (metis filter_True)

lemma resolvedPaths_parse:
  "buildInv is K (paths, vals, srcs, arena) \<Longrightarrow> resolvedPaths paths ks = map ParsePath ks"
  by (auto simp: resolvedPaths_def buildInv_def)

lemma build_listing:
  fixes "is" :: snapshotInputs
  defines "s \<equiv> buildSnapshot is"
  assumes al: "acyclic (aliasRel (isAliases is))" "length (isAliases is) \<le> maxAliasDepth"
  shows "sorted (snKeyStrs s)" and "distinct (snKeyStrs s)"
    and "set (snKeyStrs s) \<subseteq> set (mkeys (snValues s))"
    and "snKeys s = map ParsePath (snKeyStrs s)"
    and "snLookupKeys s = mkeys (snValues s)"
    and "snLookupPaths s = map ParsePath (snLookupKeys s)"
proof -
  let ?is = "flattenInputs is"
  obtain paths vals0 srcs0 arena where ra: "resolveAll ?is = (paths, vals0, srcs0, arena)"
    by (cases "resolveAll ?is") auto
  have rp: "resolvedPaths paths ks = map ParsePath ks" for ks
    using resolvedPaths_parse resolveAll_inv[of ?is] ra by metis
  obtain vals srcs where st: "fold (stampAlias (isAliases ?is)) (mkeys (isAliases ?is)) (vals0, srcs0)
      = (vals, srcs)" by force
  have vals: "snValues s = vals"
    using snMaps_build(1)[of "is"] ra st by (simp add: s_def stamped_def)
  have wf: "mwf vals" using build_maps[OF al] vals by (simp add: s_def)
  define hid where "hid = duplicateSpellings \<lparr>snValues = vals, snSources = srcs, snKeys = [], snKeyStrs = [], snLookupKeys = [],
                snLookupPaths = [], snOverridden = [], snInParent = [],
                snSourceNames = map srcName (isSources ?is), snAliases = isAliases ?is,
                snSecretKeys = isSecretKeys ?is, snRedactor = isRedactor ?is\<rparr> ?is (collectCandidateKeys ?is)"
  define s1 where "s1 = \<lparr>snValues = vals, snSources = srcs, snKeys = [],
                snKeyStrs = sort (filter (\<lambda>k. \<not> mhas hid k) (mkeys vals)), snLookupKeys = [],
                snLookupPaths = [], snOverridden = [], snInParent = [],
                snSourceNames = map srcName (isSources ?is), snAliases = isAliases ?is,
                snSecretKeys = isSecretKeys ?is, snRedactor = isRedactor ?is\<rparr>"
  define ks where "ks = hideBoundParents s1 ?is (collectCandidateKeys ?is)"
  note ra' = ra[unfolded resolveAll_def]
  have fields: "snKeyStrs s = ks" "snKeys s = map ParsePath ks"
    "snLookupKeys s = (if length ks < length vals then sort (mkeys vals) else ks)"
    "snLookupPaths s = map ParsePath (snLookupKeys s)"
    unfolding s_def buildSnapshot_def listSnapshot_def
    using ra' st by (simp_all add: Let_def rp ks_def s1_def hid_def)
  obtain P where "ks = filter P (sort (filter (\<lambda>k. \<not> mhas hid k) (mkeys vals)))"
    using hideBoundParents_filter[of s1 ?is "collectCandidateKeys ?is"] by (auto simp: ks_def s1_def)
  moreover have "sort (filter (\<lambda>k. \<not> mhas hid k) (mkeys vals)) = filter (\<lambda>k. \<not> mhas hid k) (mkeys vals)"
    using mwf_sorted[OF wf] by (intro sorted_sort_id sorted_wrt_filter)
  ultimately have ks: "ks = filter (\<lambda>k. P k \<and> \<not> mhas hid k) (mkeys vals)"
    by (simp add: conj_commute)
  show "sorted (snKeyStrs s)"
    unfolding fields(1) ks using mwf_sorted[OF wf] by (intro sorted_wrt_filter)
  show "distinct (snKeyStrs s)"
    unfolding fields(1) ks using mwf_distinct[OF wf] by simp
  show "set (snKeyStrs s) \<subseteq> set (mkeys (snValues s))"
    unfolding fields(1) vals ks by auto
  show "snKeys s = map ParsePath (snKeyStrs s)" by (simp add: fields)
  show "snLookupKeys s = mkeys (snValues s)"
  proof (cases "length ks < length vals")
    case True
    then show ?thesis using mwf_sorted[OF wf] by (simp add: fields vals sorted_sort_id)
  next
    case False
    then have "length (filter (\<lambda>k. P k \<and> \<not> mhas hid k) (mkeys vals)) \<ge> length (mkeys vals)"
      by (simp add: ks mkeys_def)
    then have "ks = mkeys vals"
      unfolding ks by (metis filter_id_conv length_filter_less linorder_not_less)
    with False show ?thesis by (simp add: fields vals)
  qed
  show "snLookupPaths s = map ParsePath (snLookupKeys s)" by (rule fields(4))
qed

lemma rankOf_update [simp]:
  "rankOf (s\<lparr>snInParent := x\<rparr>) = rankOf s" "rankOf (s\<lparr>snOverridden := x\<rparr>) = rankOf s"
  by (auto simp: rankOf_def rankIndex_def)

lemma parentHolds_update [simp]: "parentHolds (s\<lparr>snInParent := x\<rparr>) = parentHolds s"
  by (simp add: parentHolds_def fun_eq_iff split: option.splits)

lemma build_inParent:
  "mhas (snInParent (buildSnapshot is)) k \<longleftrightarrow>
     k \<in> set (snLookupKeys (buildSnapshot is)) \<and> \<not> mhas (isAliases is) k
     \<and> (\<exists>j \<in> set (topLevelDelims k). parentHolds (buildSnapshot is) k j)"
proof -
  obtain s3 where s: "buildSnapshot is = s3\<lparr>snInParent := parentMapWins s3\<rparr>"
    unfolding buildSnapshot_def Let_def by blast
  have "snAliases s3 = isAliases is"
    using snAliases_build(1)[of "is"] unfolding s by simp
  then show ?thesis unfolding s by (simp add: parentMapWins_iff)
qed


section \<open>Provenance of a built snapshot\<close>

lemma resolvedAt_tag:
  assumes "\<forall>s \<in> set (isSources is). srcName s \<noteq> []" and "resolvedAt is k = Some (v, srcs)"
  shows "srcs \<noteq> [] \<and> vsource v = hd srcs"
proof (rule resolveKey_tag)
  show "\<forall>s \<in> set (isSources (flattenInputs is)). srcName s \<noteq> []" using assms(1) by simp
  show "fst (resolveKey (ParsePath (resolveAliasChain k (isAliases is)))
      (resolveAliasChain k (isAliases is)) (flattenInputs is) None) = Some (v, srcs)"
    using assms(2) by (auto simp: resolvedAt_def resolved_def Let_def split: if_splits)
qed

lemma sourceContributions_set:
  "n \<in> snd ` set (sourceContributions ss p ks is) \<Longrightarrow> n \<in> srcName ` set ss"
  using sourceContributions_names by force

lemma chainResult_names: "chainResult cs = Some (v, srcs) \<Longrightarrow> srcs = map snd cs"
  by (auto simp: chainResult_def split: list.splits)

lemma resolveAppend_names:
  assumes "resolveAppend p ks is = Some (v, srcs)"
  shows "set srcs \<subseteq> insert srcDefault (srcName ` set (isSources is))"
proof -
  have "srcs = map snd (sourceContributions (isSources is) p ks is
      @ (case layerGet (isDefaults is) ks is of Some raw \<Rightarrow> [(NewValue raw, srcDefault)] | None \<Rightarrow> []))"
    using assms by (simp add: resolveAppend_def Let_def split: if_splits)
  then show ?thesis using sourceContributions_set by (fastforce split: option.splits)
qed

lemma resolveKey_names:
  assumes "\<forall>s \<in> set (isSources is). srcName s \<noteq> []"
    and "fst (resolveKey p ks is None) = Some (v, srcs)"
  shows "set srcs \<subseteq> {srcExplicit, srcDefault} \<union> srcName ` set (isSources is)"
proof (cases "layerGet (isExplicits is) ks is")
  case (Some raw)
  then show ?thesis using assms(2) by (auto simp: resolveKey_def)
next
  case no_override: None
  show ?thesis
  proof (cases "mget (isPins is) ks")
    case (Some pin)
    have "findSource (isSources is) n = Some s \<Longrightarrow> srcName s \<in> srcName ` set (isSources is)" for n s
      by (auto simp: findSource_def find_Some_iff)
    then show ?thesis using Some assms(2) no_override
      by (auto simp: resolveKey_def split: option.splits)
  next
    case None
    show ?thesis
    proof (cases "isMerge is = MergeAppend")
      case True
      then show ?thesis using assms(2) no_override None resolveAppend_names[of p ks "is" v srcs]
        by (auto simp: resolveKey_def)
    next
      case False
      then have "(case chainResult (sourceContributions (isSources is) p ks is) of
          Some r \<Rightarrow> Some r | None \<Rightarrow> defaultResult ks is) = Some (v, srcs)"
        using assms named_contributions[OF assms(1) False no_override None] by metis
      then consider "chainResult (sourceContributions (isSources is) p ks is) = Some (v, srcs)"
        | "defaultResult ks is = Some (v, srcs)"
        by (auto split: option.splits)
      then show ?thesis
      proof cases
        case 1
        then have "srcs = map snd (sourceContributions (isSources is) p ks is)"
          by (rule chainResult_names)
        then show ?thesis using sourceContributions_set by fastforce
      next
        case 2
        then show ?thesis by (auto simp: defaultResult_def)
      qed
    qed
  qed
qed


section \<open>Properties\<close>

abbreviation aliasesFit :: "snapshotInputs \<Rightarrow> bool" where
  "aliasesFit is \<equiv> acyclic (aliasRel (isAliases is)) \<and> length (isAliases is) \<le> maxAliasDepth"

text \<open>
  C3: On an acyclic alias graph of at most 32 aliases a built snapshot holds, at every key string, exactly
  the result of the precedence walk at the canonical key its alias chain ends at (so an alias reads as its canonical key), and holds
  nothing at keys no layer, alias, bind or source enumerates; provenance is stored for the same
  keys. The order in which the candidate map is visited does not matter.
\<close>

theorem buildSnapshot_resolves:
  assumes "aliasesFit is"
  shows "mget (snValues (buildSnapshot is)) k = map_option fst (resolvedAt is k)
    \<and> mget (snSources (buildSnapshot is)) k = map_option snd (resolvedAt is k)
    \<and> (\<forall>a. mget (isAliases is) a \<noteq> None \<longrightarrow>
          mget (snValues (buildSnapshot is)) a
            = mget (snValues (buildSnapshot is)) (resolveAliasChain a (isAliases is)))"
proof -
  have "resolveAliasChain (resolveAliasChain a (isAliases is)) (isAliases is)
      = resolveAliasChain a (isAliases is)" for a
    using assms by (simp add: resolved_not_alias)
  then have "resolvedAt is (resolveAliasChain a (isAliases is)) = resolvedAt is a" for a
    by (simp add: resolvedAt_def)
  then show ?thesis using assms build_maps[of "is"] by simp
qed

abbreviation demoAliased :: snapshotInputs where
  "demoAliased \<equiv> demoInputs demoChain MergeShadow\<lparr>isAliases := [(''old'', ''a'')]\<rparr>"

lemma demo_fits: "aliasesFit (demoInputs demoChain MergeShadow\<lparr>isAliases := [(''old'', ''a'')]\<rparr>)"
  by (simp add: demoInputs_def acyclic_aliasRel_single maxAliasDepth_def)

lemma buildSnapshot_resolves_witness:
  "mget (snValues (buildSnapshot demoAliased)) ''old'' = mget (snValues (buildSnapshot demoAliased)) ''a''"
proof -
  have "mget (isAliases demoAliased) ''old'' \<noteq> None" by (simp add: demoInputs_def)
  moreover have "resolveAliasChain ''old'' (isAliases demoAliased) = ''a''"
    by (simp add: demoInputs_def resolveAliasChain_def maxAliasDepth_def numeral_eq_Suc)
  ultimately show ?thesis using buildSnapshot_resolves[OF demo_fits] by metis
qed

text \<open>
  In a built snapshot every value carries the name of its winner: its provenance is a
  nonempty list that starts with the value's own source name, and every name in it is a
  registered source or a reserved label.
\<close>

theorem buildSnapshot_provenance:
  assumes "aliasesFit is" and "\<forall>s \<in> set (isSources is). srcName s \<noteq> []"
    and "mget (snValues (buildSnapshot is)) k = Some v"
  shows "\<exists>n rest. mget (snSources (buildSnapshot is)) k = Some (n # rest) \<and> vsource v = n
    \<and> set (n # rest) \<subseteq> {srcExplicit, srcDefault} \<union> set (snSourceNames (buildSnapshot is))"
proof -
  obtain srcs where r: "resolvedAt is k = Some (v, srcs)"
    using assms build_maps[of "is" k] by auto
  then have "set srcs \<subseteq> {srcExplicit, srcDefault} \<union> srcName ` set (isSources is)"
    using resolveKey_names[of "flattenInputs is"] assms(2)
    by (auto simp: resolvedAt_def resolved_def Let_def split: if_splits)
  then show ?thesis
    using r resolvedAt_tag[OF assms(2) r] assms build_maps[of "is" k] by (cases srcs) auto
qed

lemma demo_value: "mget (snValues (buildSnapshot demoAliased)) ''b'' = Some (Value (BoolV True) ''default'')"
proof -
  have r: "resolveAliasChain ''b'' (isAliases demoAliased) = ''b''" by (simp add: demoInputs_def)
  have d: "isDefaults (flattenInputs demoAliased) = [(''b'', ABool True)]"
    by (simp add: demoInputs_def flattenLayer_def isNonEmptyMap_def)
  have inv: "isAliasesOf (flattenInputs demoAliased) = [(''a'', [[''old'']])]"
    by (simp add: demoInputs_def invertAliases_def aliasesResolvingTo_def resolveAliasChain_def
        maxAliasDepth_def numeral_eq_Suc ParsePath_def DefaultDelimiter_def split_byte_none)
  have "''b'' \<in> canonicalKeys (flattenInputs demoAliased)"
    unfolding canonicalKeys_def using r d by (intro image_eqI[of _ _ "''b''"]) (simp_all add: candidateKeys_def)
  moreover have "resolved (flattenInputs demoAliased) ''b'' = Some (Value (BoolV True) ''default'', [''default''])"
    using d inv
    by (simp add: resolved_def resolveKey_def resolveShadow_def layerGet_def aliasPaths_def demoInputs_def
        demoSource_def sourceGet_def withSource_def srcDefault_def ParsePath_def DefaultDelimiter_def
        split_byte_none flattenLayer_def)
  ultimately have "resolvedAt demoAliased ''b'' = Some (Value (BoolV True) ''default'', [''default''])"
    by (simp add: resolvedAt_def r)
  then show ?thesis using build_maps[of demoAliased "''b''"] demo_fits by simp
qed

lemma buildSnapshot_provenance_witness:
  "\<exists>rest. mget (snSources (buildSnapshot demoAliased)) ''b'' = Some (''default'' # rest)"
  using buildSnapshot_provenance[OF demo_fits _ demo_value]
  by (auto simp: demoInputs_def demoSource_def)

text \<open>
  The listing of a built snapshot is sorted without duplicates, lists only keys that have a
  value, and pairs each key string with its parsed path; the lookup index holds every key that has
  a value, also those left out of the listing.
\<close>

theorem buildSnapshot_listing:
  assumes "aliasesFit is"
  shows "sorted (snKeyStrs (buildSnapshot is)) \<and> distinct (snKeyStrs (buildSnapshot is))
    \<and> set (snKeyStrs (buildSnapshot is)) \<subseteq> set (mkeys (snValues (buildSnapshot is)))
    \<and> snKeys (buildSnapshot is) = map ParsePath (snKeyStrs (buildSnapshot is))
    \<and> snLookupKeys (buildSnapshot is) = mkeys (snValues (buildSnapshot is))
    \<and> snLookupPaths (buildSnapshot is) = map ParsePath (snLookupKeys (buildSnapshot is))"
  using assms build_listing[of "is"] by blast

lemma buildSnapshot_listing_witness: "sorted (snKeyStrs (buildSnapshot demoAliased))"
  using buildSnapshot_listing[OF demo_fits] by blast

text \<open>
  When a key is marked as held by a parent map, reading it always finds an entry there: the
  one of the parent of highest precedence, the nearest among equals, and that parent outranks the
  layer of the key's own value. So a read never falls back to the lower value.
\<close>

theorem inParent_read_wins:
  assumes "mhas (snInParent (buildSnapshot is)) k"
  shows "\<exists>i v. i \<in> set (topLevelDelims k) \<and> heldAt (buildSnapshot is) k i = Some v
    \<and> readSnap (buildSnapshot is) k p mode = Some v
    \<and> rankOf (buildSnapshot is) (take i k) < rankOf (buildSnapshot is) k
    \<and> (\<forall>j \<in> set (topLevelDelims k). heldAt (buildSnapshot is) k j \<noteq> None \<longrightarrow>
         rankOf (buildSnapshot is) (take i k) < rankOf (buildSnapshot is) (take j k)
         \<or> rankOf (buildSnapshot is) (take i k) = rankOf (buildSnapshot is) (take j k) \<and> j \<le> i)"
proof -
  let ?s = "buildSnapshot is"
  obtain j where j: "\<not> mhas (isAliases is) k" "j \<in> set (topLevelDelims k)" "parentHolds ?s k j"
    using assms by (auto simp: build_inParent)
  then have held: "heldAt ?s k j \<noteq> None" "rankOf ?s (take j k) < rankOf ?s k"
    using parentHolds_held by blast+
  then obtain v where v: "lookupInParent ?s k = Some v"
    using lookupInParent_best[of ?s k] j(2) by fastforce
  then obtain i where i: "i \<in> set (topLevelDelims k)" "heldAt ?s k i = Some v"
    "\<forall>j \<in> set (topLevelDelims k). heldAt ?s k j \<noteq> None \<longrightarrow>
       rankOf ?s (take i k) < rankOf ?s (take j k)
       \<or> rankOf ?s (take i k) = rankOf ?s (take j k) \<and> j \<le> i"
    using lookupInParent_best[of ?s k v] by blast
  moreover have "rankOf ?s (take i k) < rankOf ?s k"
    using i(3) j(2) held by fastforce
  moreover have "readSnap ?s k p mode = Some v"
  proof -
    have "snInParent ?s \<noteq> []" using assms by auto
    then show ?thesis using v assms j(1)
      by (auto simp: readSnap_def Let_def split: option.splits)
  qed
  ultimately show ?thesis by blast
qed

abbreviation demoShadow :: snapshotInputs where
  "demoShadow \<equiv> demoInputs [demoSource ''one'' [''a''] (mk (MapV [(''b'', mk (IntV 1))])),
     demoSource ''two'' [''a'', ''b''] (mk (IntV 2))] MergeShadow"

lemma inParent_read_wins_witness:
  "\<exists>i v. i \<in> set (topLevelDelims ''a.b'') \<and> heldAt (buildSnapshot demoShadow) ''a.b'' i = Some v
    \<and> readSnap (buildSnapshot demoShadow) ''a.b'' None ReadExact = Some v"
proof -
  have "mhas (snInParent (buildSnapshot demoShadow)) ''a.b''" by code_simp
  from inParent_read_wins[OF this, of None ReadExact] show ?thesis by blast
qed

text \<open>
  A key is dropped from a written tree exactly when another key of the same list is its
  parent or its child, as paths, and comes from a layer of strictly higher precedence; keys of one
  layer never drop each other.
\<close>

theorem shadowedKeys_exact:
  "mhas (shadowedKeys s keys) x \<longleftrightarrow> x \<in> set keys \<and>
     (\<exists>a \<in> set keys. (parentOf a x \<or> parentOf x a) \<and> rankOf s a < rankOf s x)"
  unfolding shadowedKeys_iff by blast

lemma map_nth_filter: "map (\<lambda>i. xs ! i) (filter (\<lambda>i. Q (xs ! i)) [0..<length xs]) = filter Q xs"
proof -
  have "filter Q xs = filter Q (map (\<lambda>i. xs ! i) [0..<length xs])" by (simp add: map_nth)
  then show ?thesis by (simp only: filter_map comp_def)
qed

text \<open>
  \<open>AsMap\<close> holds the plain form of a listed key's value at the key's path, when the key is not
  an alias, is not shadowed and no other key written into the map is a prefix or an extension of
  it.
\<close>

theorem AsMap_holds_key:
  assumes "snKeys s = map ParsePath (snKeyStrs s)" and "distinct (snKeyStrs s)"
    and "k \<in> set (snKeyStrs s)" and "\<not> mhas (snAliases s) k" and "ParsePath k \<noteq> []"
    and "\<not> mhas (shadowedKeys s (filter (\<lambda>k. \<not> mhas (snAliases s) k) (snKeyStrs s))) k"
    and "\<And>j. j \<in> set (snKeyStrs s) \<Longrightarrow> j \<noteq> k \<Longrightarrow> \<not> mhas (snAliases s) j \<Longrightarrow>
           \<not> mhas (shadowedKeys s (filter (\<lambda>k. \<not> mhas (snAliases s) k) (snKeyStrs s))) j \<Longrightarrow>
           \<not> comparable (ParsePath j) (ParsePath k)"
  shows "getNested (AsMapSnap s) (ParsePath k) = Some (unwrapValueDeep (valueAt s k))"
proof -
  let ?n = "length (snKeyStrs s)"
  define idx where "idx = filter (\<lambda>i. \<not> mhas (snAliases s) (snKeyStrs s ! i)) [0..<?n]"
  have ks: "map (\<lambda>i. snKeyStrs s ! i) idx = filter (\<lambda>k. \<not> mhas (snAliases s) k) (snKeyStrs s)"
    unfolding idx_def by (rule map_nth_filter)
  obtain i where i: "i < ?n" "snKeyStrs s ! i = k" using assms(3) by (metis in_set_conv_nth)
  let ?D = "\<lambda>i. mhas (shadowedAmong s idx) (snKeyStrs s ! i)"
  let ?P = "\<lambda>i. snKeys s ! i"
  let ?V = "\<lambda>i. unwrapValueDeep (valueAt s (snKeyStrs s ! i))"
  have path: "j < ?n \<Longrightarrow> ?P j = ParsePath (snKeyStrs s ! j)" for j by (simp add: assms(1))
  have "getNested (fold (\<lambda>i out. if ?D i then out else setNested out (?P i) (?V i)) idx []) (?P i)
      = Some (?V i)"
  proof (rule getNested_fold_kept)
    show "i \<in> set idx" using i assms(4) by (simp add: idx_def)
    show "distinct idx" by (simp add: idx_def)
    show "\<not> ?D i" using assms(6) i(2) by (simp add: shadowedAmong_def ks)
    show "?P i \<noteq> []" using path[OF i(1)] i(2) assms(5) by simp
    show "\<forall>j \<in> set idx. j \<noteq> i \<and> \<not> ?D j \<longrightarrow> \<not> comparable (?P j) (?P i)"
    proof (intro ballI impI)
      fix j
      assume j: "j \<in> set idx" "j \<noteq> i \<and> \<not> ?D j"
      then have n: "j < ?n" "\<not> mhas (snAliases s) (snKeyStrs s ! j)" by (auto simp: idx_def)
      have "snKeyStrs s ! j \<noteq> k" using j(2) n(1) i assms(2) nth_eq_iff_index_eq by metis
      then show "\<not> comparable (?P j) (?P i)"
        using assms(7)[of "snKeyStrs s ! j"] n j(2) path[OF n(1)] path[OF i(1)] i(2)
        by (simp add: shadowedAmong_def ks)
    qed
  qed
  then show ?thesis
    using i path[OF i(1)] by (simp add: AsMapSnap_def Let_def idx_def[symmetric])
qed

lemma AsMap_holds_key_witness:
  "getNested (AsMapSnap (buildSnapshot (demoInputs demoChain MergeShadow))) [''a''] = Some (ANum (GInt64 1))"
proof -
  let ?s = "buildSnapshot (demoInputs demoChain MergeShadow)"
  have "snKeyStrs ?s = [''a'', ''b'', ''z'']" "snKeys ?s = [[''a''], [''b''], [''z'']]"
    "snAliases ?s = []" "unwrapValueDeep (valueAt ?s ''a'') = ANum (GInt64 1)"
    "shadowedKeys ?s [''a'', ''b'', ''z''] = []"
    "ParsePath ''a'' = [''a'']" "ParsePath ''b'' = [''b'']" "ParsePath ''z'' = [''z'']"
    by code_simp+
  note f = this
  have "isAliases (demoInputs demoChain MergeShadow) = []" by (simp add: demoInputs_def)
  note f = f this
  have "getNested (AsMapSnap ?s) (ParsePath ''a'') = Some (unwrapValueDeep (valueAt ?s ''a''))"
  proof (rule AsMap_holds_key)
    fix j
    assume "j \<in> set (snKeyStrs ?s)" and "j \<noteq> ''a''"
    then have "j = ''b'' \<or> j = ''z''" by (auto simp: f)
    then show "\<not> comparable (ParsePath j) (ParsePath ''a'')" by (auto simp: f comparable_def)
  qed (simp_all add: f)
  then show ?thesis by (simp only: f)
qed

text \<open>
  C37: A secret mark covers the marked key, every key below it, and every alias that resolves to
  one of those; and a mark on an alias covers the key its chain ends at.
\<close>

theorem secret_mark_covers:
  "(mhas keys (pathString p) \<and> p \<noteq> [] \<and> p \<noteq> [[]] \<longrightarrow>
      secretHas keys al (pathString (p @ r))
      \<and> (resolveAliasChain a al = pathString (p @ r) \<longrightarrow> secretHas keys al a))
   \<and> (mhas keys a \<and> mget al a = Some c \<longrightarrow> secretHas keys al (resolveAliasChain c al))"
proof -
  have ne: "mhas keys x \<Longrightarrow> keys \<noteq> []" for x by auto
  have "mget al a = Some c \<Longrightarrow> (a, c) \<in> set al" by (rule mget_in_set)
  then show ?thesis
    using secretMatches_below[of keys p al r] ne
    by (auto simp: secretHas_def Let_def secretMatches_def secretMarked_def)
qed

lemma secret_mark_covers_witness:
  "secretHas [(''a'', ())] [(''old'', ''a.b'')] ''old''
   \<and> secretHas [(''old'', ())] [(''old'', ''a.b'')] ''a.b''"
proof -
  have p: "pathString [''a''] = ''a''" "pathString [''a'', ''b''] = ''a.b''"
    "resolveAliasChain ''old'' [(''old'', ''a.b'')] = ''a.b''"
    "resolveAliasChain ''a.b'' [(''old'', ''a.b'')] = ''a.b''" by code_simp+
  show ?thesis
    using secret_mark_covers[of "[(''a'', ())]" "[''a'']" "[(''old'', ''a.b'')]" "[''b'']" "''old''" "''a.b''"]
      secret_mark_covers[of "[(''old'', ())]" "[''a'']" "[(''old'', ''a.b'')]" "[''b'']" "''old''" "''a.b''"]
    by (simp add: p mhas_def)
qed

end
