(* ===== verification/Registry.thy ===== *)
theory Registry
  imports SnapshotProps
begin

text \<open>
  \<open>registry.go\<close>, \<open>registry_set.go\<close>, \<open>registry_sub.go\<close>, and the secret marks and bound paths of
  \<open>registry_describe.go\<close> and \<open>registry_bind.go\<close>: the state behind a registry and every operation
  that changes it.

  The registry mutex serialises the operations, so each is one function from a state to an error
  (\<open>None\<close> is Go's \<open>nil\<close>) and the next state. A write mutates a layer, rebuilds, and on a rejected
  rebuild puts back what it captured; the model performs the mutation and the restoration one
  after the other, as the code does, and the rollback theorem shows that nothing is left behind.
  A Go map that is \<open>nil\<close> until the first write (\<open>writable\<close>) reads as the empty map, which the model
  starts from. The validator is a function from the nested map to an error text; the calls of
  \<open>Source.Close\<close> and the watch engine's subscriptions are recorded as lists of source names.
\<close>

datatype regError =
    RegistryClosed
  | NilContext
  | ContextError string
  | InvalidPath string
  | SourceConflict string
  | PinError string
  | CloseError string string
  | AliasCycle "path list"
  | ImmutableChanged path string string
  | SchemaError string
  | MultiErr "regError list"
  | JoinErr "regError list"

record deprecation =
  dwPath :: path
  dwSource :: string
  dwReplacement :: path
  dwMessage :: string

record registry =
  rgSources :: "source list"
  rgExplicits :: "goany gomap"
  rgDefaults :: "goany gomap"
  rgAliases :: "string gomap"
  rgPins :: "string gomap"
  rgSnapshot :: "snapshot option"
  rgSecretKeys :: strset
  rgBaseline :: "govalue gomap"
  rgWarnings :: "deprecation list"
  rgBound :: strset
  rgConsulted :: strset
  rgClosed :: bool
  rgValidator :: "((string \<times> goany) list \<Rightarrow> string option) option"
  rgRedactor :: "(string \<Rightarrow> string) option"
  rgMerge :: mergeStrategy
  rgFormat :: formatters
  rgWatching :: bool
  rgSubscribed :: "string list"
  rgCloseCalls :: "string list"


section \<open>Sub views\<close>

definition fullKey :: "path \<Rightarrow> string \<Rightarrow> string" where
  "fullKey prefix key =
     (let parsed = ParsePath key
      in if prefix = [] then pathString parsed else pathString (pathAppend prefix parsed))"

definition fullPath :: "path \<Rightarrow> path \<Rightarrow> path" where
  "fullPath prefix p = (if prefix = [] then p else pathAppend prefix p)"

definition Sub :: "path \<Rightarrow> string \<Rightarrow> path" where
  "Sub prefix sub = (let parsed = ParsePath sub
                     in if parsed = [] then prefix else pathAppend prefix parsed)"


section \<open>Rebuilding\<close>

definition inputsOf :: "registry \<Rightarrow> snapshotInputs" where
  "inputsOf r =
     \<lparr>isSources = rgSources r, isExplicits = rgExplicits r, isDefaults = rgDefaults r,
      isAliases = rgAliases r, isPins = rgPins r, isBound = rgBound r,
      isSecretKeys = rgSecretKeys r, isRedactor = rgRedactor r, isMerge = rgMerge r,
      isAliasesOf = []\<rparr>"

definition unsetText :: string where
  "unsetText = ''<unset>''"

definition immutableError :: "registry \<Rightarrow> snapshot \<Rightarrow> string \<times> govalue \<Rightarrow> regError list" where
  "immutableError r snap = (\<lambda>(path, baseline).
     let mode = (if Kind baseline = MapKind then ReadSection else ReadExact);
         cur = readSnap snap path None mode
     in if (case cur of Some v \<Rightarrow> valuesEqual baseline v | None \<Rightarrow> False) then []
        else let show_value = (case (snSecrets snap path, rgRedactor r) of
                           (True, Some red) \<Rightarrow> red | _ \<Rightarrow> id)
             in [ImmutableChanged (ParsePath path) (show_value (valueString (rgFormat r) baseline))
                   (case cur of Some v \<Rightarrow> show_value (valueString (rgFormat r) v) | None \<Rightarrow> unsetText)])"

definition checkImmutable :: "registry \<Rightarrow> snapshot \<Rightarrow> regError list" where
  "checkImmutable r snap = concat (map (immutableError r snap) (rgBaseline r))"

definition validateCandidate :: "registry \<Rightarrow> snapshot \<Rightarrow> regError list" where
  "validateCandidate r snap =
     (case rgValidator r of
        None \<Rightarrow> []
      | Some validate \<Rightarrow> (case validate (AsMapSnap snap) of None \<Rightarrow> [] | Some e \<Rightarrow> [SchemaError e]))"

definition rebuildCandidate :: "registry \<Rightarrow> registry \<times> snapshot \<times> regError option" where
  "rebuildCandidate r =
     (let candidate = buildSnapshot (inputsOf r);
          errs = checkImmutable r candidate @ validateCandidate r candidate
      in case errs of
           [] \<Rightarrow> (r\<lparr>rgSnapshot := Some candidate\<rparr>, candidate, None)
         | [e] \<Rightarrow> (r, candidate, Some e)
         | _ \<Rightarrow> (r, candidate, Some (MultiErr errs)))"

definition rebuildSnapshot :: "registry \<Rightarrow> regError option \<times> registry" where
  "rebuildSnapshot r = (case rebuildCandidate r of (r', _, e) \<Rightarrow> (e, r'))"


section \<open>Writes\<close>

definition restoreEntry :: "string \<Rightarrow> 'v option \<Rightarrow> 'v gomap \<Rightarrow> 'v gomap" where
  "restoreEntry k prev m = (case prev of Some v \<Rightarrow> mput k v m | None \<Rightarrow> mdel k m)"

definition writeEntry :: "string \<Rightarrow> goany \<Rightarrow> goany gomap \<Rightarrow> goany gomap" where
  "writeEntry k v m = (if v = ANil then mdel k m else mput k v m)"

definition opSet :: "path \<Rightarrow> string \<Rightarrow> goany \<Rightarrow> registry \<Rightarrow> regError option \<times> registry" where
  "opSet prefix key v r =
     (if rgClosed r then (Some RegistryClosed, r)
      else let fk = fullKey prefix key;
               prev = mget (rgExplicits r) fk;
               r1 = r\<lparr>rgExplicits := writeEntry fk v (rgExplicits r)\<rparr>
           in case rebuildSnapshot r1 of
                (None, r2) \<Rightarrow> (None, r2)
              | (Some e, r2) \<Rightarrow> (Some e, r2\<lparr>rgExplicits := restoreEntry fk prev (rgExplicits r2)\<rparr>))"

definition opSetDefault :: "path \<Rightarrow> string \<Rightarrow> goany \<Rightarrow> registry \<Rightarrow> regError option \<times> registry" where
  "opSetDefault prefix key v r =
     (if rgClosed r then (Some RegistryClosed, r)
      else let fk = fullKey prefix key;
               prev = mget (rgDefaults r) fk;
               r1 = r\<lparr>rgDefaults := writeEntry fk v (rgDefaults r)\<rparr>
           in case rebuildSnapshot r1 of
                (None, r2) \<Rightarrow> (None, r2)
              | (Some e, r2) \<Rightarrow> (Some e, r2\<lparr>rgDefaults := restoreEntry fk prev (rgDefaults r2)\<rparr>))"

definition writeAll :: "path \<Rightarrow> goany gomap \<Rightarrow> goany gomap \<Rightarrow> goany gomap" where
  "writeAll prefix values m = fold (\<lambda>(key, v) m. writeEntry (fullKey prefix key) v m) values m"

definition opSetValues :: "path \<Rightarrow> goany gomap \<Rightarrow> registry \<Rightarrow> regError option \<times> registry" where
  "opSetValues prefix values r =
     (if rgClosed r then (Some RegistryClosed, r)
      else if values = [] then (None, r)
      else let prev = rgExplicits r;
               r1 = r\<lparr>rgExplicits := writeAll prefix values (rgExplicits r)\<rparr>
           in case rebuildSnapshot r1 of
                (None, r2) \<Rightarrow> (None, r2)
              | (Some e, r2) \<Rightarrow> (Some e, r2\<lparr>rgExplicits := mcopy [] prev\<rparr>))"

definition opSetDefaults :: "path \<Rightarrow> goany gomap \<Rightarrow> registry \<Rightarrow> regError option \<times> registry" where
  "opSetDefaults prefix values r =
     (if rgClosed r then (Some RegistryClosed, r)
      else if values = [] then (None, r)
      else let prev = rgDefaults r;
               r1 = r\<lparr>rgDefaults := writeAll prefix values (rgDefaults r)\<rparr>
           in case rebuildSnapshot r1 of
                (None, r2) \<Rightarrow> (None, r2)
              | (Some e, r2) \<Rightarrow> (Some e, r2\<lparr>rgDefaults := mcopy [] prev\<rparr>))"

definition opUnset :: "path \<Rightarrow> string \<Rightarrow> registry \<Rightarrow> regError option \<times> registry" where
  "opUnset prefix key r =
     (if rgClosed r then (Some RegistryClosed, r)
      else let fk = fullKey prefix key
           in case mget (rgExplicits r) fk of
                None \<Rightarrow> (None, r)
              | Some prev \<Rightarrow>
                  (case rebuildSnapshot (r\<lparr>rgExplicits := mdel fk (rgExplicits r)\<rparr>) of
                     (None, r2) \<Rightarrow> (None, r2)
                   | (Some e, r2) \<Rightarrow> (Some e, r2\<lparr>rgExplicits := mput fk prev (rgExplicits r2)\<rparr>)))"

definition opRegisterAlias :: "path \<Rightarrow> string \<Rightarrow> string \<Rightarrow> registry \<Rightarrow> regError option \<times> registry" where
  "opRegisterAlias prefix alias canonical_key r =
     (if rgClosed r then (Some RegistryClosed, r)
      else let fa = fullKey prefix alias; fc = fullKey prefix canonical_key
           in case validateNoAliasCycle fa fc (rgAliases r) of
                Some chain \<Rightarrow> (Some (AliasCycle chain), r)
              | None \<Rightarrow>
                  (let prev = mget (rgAliases r) fa
                   in case rebuildSnapshot (r\<lparr>rgAliases := mput fa fc (rgAliases r)\<rparr>) of
                        (None, r2) \<Rightarrow> (None, r2)
                      | (Some e, r2) \<Rightarrow> (Some e, r2\<lparr>rgAliases := restoreEntry fa prev (rgAliases r2)\<rparr>)))"

definition hasSource :: "registry \<Rightarrow> string \<Rightarrow> bool" where
  "hasSource r name = (\<exists>s \<in> set (rgSources r). srcName s = name)"

definition opPinSource :: "path \<Rightarrow> string \<Rightarrow> string \<Rightarrow> registry \<Rightarrow> regError option \<times> registry" where
  "opPinSource prefix key sourceName r =
     (if rgClosed r then (Some RegistryClosed, r)
      else let fk = fullKey prefix key
           in if \<not> hasSource r sourceName then (Some (PinError sourceName), r)
              else let prev = mget (rgPins r) fk
                   in case rebuildSnapshot (r\<lparr>rgPins := mput fk sourceName (rgPins r)\<rparr>) of
                        (None, r2) \<Rightarrow> (None, r2)
                      | (Some e, r2) \<Rightarrow> (Some e, r2\<lparr>rgPins := restoreEntry fk prev (rgPins r2)\<rparr>))"

definition opUnpin :: "path \<Rightarrow> string \<Rightarrow> registry \<Rightarrow> regError option \<times> registry" where
  "opUnpin prefix key r =
     (if rgClosed r then (Some RegistryClosed, r)
      else let fk = fullKey prefix key
           in case mget (rgPins r) fk of
                None \<Rightarrow> (None, r)
              | Some prev \<Rightarrow>
                  (case rebuildSnapshot (r\<lparr>rgPins := mdel fk (rgPins r)\<rparr>) of
                     (None, r2) \<Rightarrow> (None, r2)
                   | (Some e, r2) \<Rightarrow> (Some e, r2\<lparr>rgPins := mput fk prev (rgPins r2)\<rparr>)))"


section \<open>Sources\<close>

definition checkSourceName :: "registry \<Rightarrow> string \<Rightarrow> regError option" where
  "checkSourceName r name =
     (if name = [] then Some (InvalidPath ''source name is empty'')
      else if isReservedSourceName name then Some (SourceConflict name)
      else if \<exists>s \<in> set (rgSources r). srcName s = name then Some (SourceConflict name)
      else None)"

definition addSource :: "source option \<Rightarrow> registry \<Rightarrow> regError option \<times> registry" where
  "addSource src r =
     (case src of
        None \<Rightarrow> (Some (InvalidPath ''nil Source''), r)
      | Some s \<Rightarrow>
          (case checkSourceName r (srcName s) of
             Some e \<Rightarrow> (Some e, r)
           | None \<Rightarrow> (None, r\<lparr>rgSources := rgSources r @ [s]\<rparr>)))"

definition subscribe :: "string \<Rightarrow> registry \<Rightarrow> registry" where
  "subscribe name r = (if rgWatching r then r\<lparr>rgSubscribed := rgSubscribed r @ [name]\<rparr> else r)"

definition unsubscribe :: "string \<Rightarrow> registry \<Rightarrow> registry" where
  "unsubscribe name r =
     (if rgWatching r then r\<lparr>rgSubscribed := filter (\<lambda>n. n \<noteq> name) (rgSubscribed r)\<rparr> else r)"

definition opAddSource :: "source option \<Rightarrow> registry \<Rightarrow> regError option \<times> registry" where
  "opAddSource src r =
     (if rgClosed r then (Some RegistryClosed, r)
      else case addSource src r of
             (Some e, r1) \<Rightarrow> (Some e, r1)
           | (None, r1) \<Rightarrow>
               (case rebuildSnapshot r1 of
                  (Some e, r2) \<Rightarrow> (Some e, r2\<lparr>rgSources := butlast (rgSources r2)\<rparr>)
                | (None, r2) \<Rightarrow> (None, subscribe (case src of Some s \<Rightarrow> srcName s | None \<Rightarrow> []) r2)))"

definition insertAt :: "nat \<Rightarrow> 'a \<Rightarrow> 'a list \<Rightarrow> 'a list" where
  "insertAt i x xs = take i xs @ x # drop i xs"

definition deleteAt :: "nat \<Rightarrow> 'a list \<Rightarrow> 'a list" where
  "deleteAt i xs = take i xs @ drop (i + 1) xs"

definition opInsertSource :: "int \<Rightarrow> source option \<Rightarrow> registry \<Rightarrow> regError option \<times> registry" where
  "opInsertSource at src r =
     (if rgClosed r then (Some RegistryClosed, r)
      else case src of
             None \<Rightarrow> (Some (InvalidPath ''nil Source''), r)
           | Some s \<Rightarrow>
               (case checkSourceName r (srcName s) of
                  Some e \<Rightarrow> (Some e, r)
                | None \<Rightarrow>
                    (let i = (if at < 0 then 0
                              else if at > int (length (rgSources r)) then length (rgSources r)
                              else nat at)
                     in case rebuildSnapshot (r\<lparr>rgSources := insertAt i s (rgSources r)\<rparr>) of
                          (Some e, r2) \<Rightarrow> (Some e, r2\<lparr>rgSources := deleteAt i (rgSources r2)\<rparr>)
                        | (None, r2) \<Rightarrow> (None, subscribe (srcName s) r2))))"

fun indexOfSource :: "string \<Rightarrow> source list \<Rightarrow> nat option" where
  "indexOfSource name [] = None"
| "indexOfSource name (s # ss) =
     (if srcName s = name then Some 0 else map_option Suc (indexOfSource name ss))"

definition opRemoveSource :: "string \<Rightarrow> registry \<Rightarrow> regError option \<times> registry" where
  "opRemoveSource name r =
     (if rgClosed r then (Some RegistryClosed, r)
      else case indexOfSource name (rgSources r) of
             None \<Rightarrow> (None, r)
           | Some i \<Rightarrow>
               (let removed = rgSources r ! i
                in case rebuildSnapshot (r\<lparr>rgSources := deleteAt i (rgSources r)\<rparr>) of
                     (Some e, r2) \<Rightarrow> (Some e, r2\<lparr>rgSources := insertAt i removed (rgSources r2)\<rparr>)
                   | (None, r2) \<Rightarrow>
                       (None, (unsubscribe name r2)\<lparr>rgCloseCalls := rgCloseCalls r2 @ [name]\<rparr>)))"

text \<open>\<open>applyPrecedenceLocked\<close>: the map from name to source keeps the last source of a name.\<close>

definition sourceByName :: "source list \<Rightarrow> string \<Rightarrow> source option" where
  "sourceByName ss name = find (\<lambda>s. srcName s = name) (rev ss)"

definition applyPrecedence :: "string list \<Rightarrow> source list \<Rightarrow> source list" where
  "applyPrecedence order ss =
     (if ss = [] then ss
      else List.map_filter (sourceByName ss) order @ filter (\<lambda>s. srcName s \<notin> set order) ss)"

definition opReload :: "bool \<Rightarrow> string option \<Rightarrow> registry \<Rightarrow> regError option \<times> registry" where
  "opReload ctxNil ctxErr r =
     (if rgClosed r then (Some RegistryClosed, r)
      else if ctxNil then (Some NilContext, r)
      else case ctxErr of
             Some e \<Rightarrow> (Some (ContextError e), r)
           | None \<Rightarrow> rebuildSnapshot r)"

definition opClose :: "registry \<Rightarrow> regError option \<times> registry" where
  "opClose r =
     (if rgClosed r then (None, r)
      else let errs = concat (map (\<lambda>s. case srcClose s of
                                         Some e \<Rightarrow> [CloseError (srcName s) e] | None \<Rightarrow> []) (rgSources r))
           in (if errs = [] then None else Some (MultiErr errs),
               r\<lparr>rgClosed := True, rgWatching := False, rgSubscribed := [],
                 rgCloseCalls := rgCloseCalls r @ map srcName (rgSources r)\<rparr>))"


section \<open>Marks, warnings and bound paths\<close>

definition markSecrets :: "string list \<Rightarrow> registry \<Rightarrow> registry" where
  "markSecrets keys r =
     (if keys = [] \<or> rgClosed r then r
      else let secretKeys = fold sadd keys (rgSecretKeys r);
               added = (\<exists>k \<in> set keys. \<not> mhas (rgSecretKeys r) k)
           in r\<lparr>rgSecretKeys := secretKeys,
                rgSnapshot := (case rgSnapshot r of
                    Some cur \<Rightarrow> Some (if added then cur\<lparr>snSecretKeys := secretKeys,
                                                       snRedactor := rgRedactor r\<rparr> else cur)
                  | None \<Rightarrow> None)\<rparr>)"

definition MarkSecret :: "path \<Rightarrow> string \<Rightarrow> registry \<Rightarrow> registry" where
  "MarkSecret prefix key r =
     (if key = [] then r else if rgClosed r then r else markSecrets [fullKey prefix key] r)"

definition IsSecret :: "path \<Rightarrow> string \<Rightarrow> registry \<Rightarrow> bool" where
  "IsSecret prefix key r =
     (if rgClosed r then False else secretHas (rgSecretKeys r) (rgAliases r) (fullKey prefix key))"

definition markImmutable :: "path \<Rightarrow> govalue \<Rightarrow> registry \<Rightarrow> registry" where
  "markImmutable p baseline r =
     (if p = [] then r
      else if mhas (rgBaseline r) (pathString p) then r
      else r\<lparr>rgBaseline := mput (pathString p) baseline (rgBaseline r)\<rparr>)"

definition IsImmutable :: "path \<Rightarrow> string \<Rightarrow> registry \<Rightarrow> bool" where
  "IsImmutable prefix key r = (if rgClosed r then False else mhas (rgBaseline r) (fullKey prefix key))"

definition queueWarning :: "deprecation \<Rightarrow> registry \<Rightarrow> registry" where
  "queueWarning w r =
     (if \<exists>q \<in> set (rgWarnings r). dwSource q = dwSource w \<and> dwMessage q = dwMessage w
           \<and> pathEqual (dwPath q) (dwPath w) \<and> pathEqual (dwReplacement q) (dwReplacement w)
      then r else r\<lparr>rgWarnings := rgWarnings r @ [w]\<rparr>)"

definition DrainWarnings :: "registry \<Rightarrow> deprecation list \<times> registry" where
  "DrainWarnings r = (if rgWarnings r = [] then ([], r) else (rgWarnings r, r\<lparr>rgWarnings := []\<rparr>))"

definition anySourceHas :: "source list \<Rightarrow> path list \<Rightarrow> bool" where
  "anySourceHas ss paths =
     (\<exists>s \<in> set ss. \<exists>p \<in> set paths. case srcGet s p of Inr (Some v) \<Rightarrow> True | _ \<Rightarrow> False)"

definition addBoundPaths :: "(string \<times> path) list \<Rightarrow> registry \<Rightarrow> registry" where
  "addBoundPaths missing r =
     (let added = filter (\<lambda>(k, p). \<not> mhas (rgBound r) k) missing
      in if added = [] then r
         else let prev = rgBound r;
                  r1 = r\<lparr>rgBound := fold (\<lambda>(k, p). sadd k) added prev\<rparr>
              in if \<not> anySourceHas (rgSources r) (map snd added) then r1
                 else case rebuildSnapshot r1 of
                        (None, r2) \<Rightarrow> r2
                      | (Some e, r2) \<Rightarrow> r2\<lparr>rgBound := prev\<rparr>)"

definition answers :: "snapshot \<Rightarrow> string \<Rightarrow> path option \<Rightarrow> bool" where
  "answers s ks p = (readSnap s ks p ReadGet \<noteq> None)"

definition resolveBindPaths :: "(string \<times> path) list \<Rightarrow> registry \<Rightarrow> registry" where
  "resolveBindPaths keys r =
     (case rgSnapshot r of
        None \<Rightarrow> r
      | Some snap \<Rightarrow>
          if keys = [] then r
          else addBoundPaths (filter (\<lambda>(k, p). \<not> answers snap k (Some p)) keys) r)"

definition recordConsulted :: "string list \<Rightarrow> registry \<Rightarrow> registry" where
  "recordConsulted paths r = r\<lparr>rgConsulted := fold sadd paths (rgConsulted r)\<rparr>"


section \<open>Construction and reads\<close>

definition emptyRegistry :: "registry" where
  "emptyRegistry =
     \<lparr>rgSources = [], rgExplicits = [], rgDefaults = [], rgAliases = [], rgPins = [],
      rgSnapshot = None, rgSecretKeys = [], rgBaseline = [], rgWarnings = [], rgBound = [],
      rgConsulted = [], rgClosed = False, rgValidator = None, rgRedactor = Some (\<lambda>_. ''***''),
      rgMerge = MergeShadow,
      rgFormat = \<lparr>formatFloatVerb = (\<lambda>_ _. []), formatTime = (\<lambda>_. []), formatDuration = (\<lambda>_. [])\<rparr>,
      rgWatching = False, rgSubscribed = [], rgCloseCalls = []\<rparr>"

text \<open>The bulk add of \<open>buildRegistry\<close> stops at the first source that cannot be added.\<close>

fun addInitial :: "source option list \<Rightarrow> registry \<Rightarrow> regError option \<times> registry" where
  "addInitial [] r = (None, r)"
| "addInitial (s # ss) r =
     (case addSource s r of (Some e, r1) \<Rightarrow> (Some e, r1) | (None, r1) \<Rightarrow> addInitial ss r1)"

definition buildRegistry ::
  "source option list \<Rightarrow> string list \<Rightarrow> bool \<Rightarrow> registry \<Rightarrow> regError option \<times> registry option" where
  "buildRegistry initial precedence watch r0 =
     (case addInitial initial r0 of
        (addErr, r1) \<Rightarrow>
          let r2 = (if addErr = None \<and> precedence \<noteq> []
                    then r1\<lparr>rgSources := applyPrecedence precedence (rgSources r1)\<rparr> else r1)
          in case rebuildCandidate r2 of
               (r3, candidate, Some e) \<Rightarrow>
                 if snValues candidate \<noteq> []
                 then (Some (case addErr of Some a \<Rightarrow> JoinErr [a, e] | None \<Rightarrow> e), None)
                 else (addErr, Some (r3\<lparr>rgWatching := watch,
                         rgSubscribed := (if watch then map srcName (rgSources r3) else [])\<rparr>))
             | (r3, candidate, None) \<Rightarrow>
                 (addErr, Some (r3\<lparr>rgWatching := watch,
                    rgSubscribed := (if watch then map srcName (rgSources r3) else [])\<rparr>)))"

definition Sources :: "registry \<Rightarrow> string list" where
  "Sources r = map srcName (rgSources r)"

definition lookupKey :: "path \<Rightarrow> snapshot \<Rightarrow> string \<Rightarrow> readMode \<Rightarrow> govalue option" where
  "lookupKey prefix snap key mode =
     (if prefix = [] \<and> lbrack \<notin> set key then readSnap snap key None mode
      else let p = fullPath prefix (ParsePath key) in readSnap snap (pathString p) (Some p) mode)"

definition regGet :: "path \<Rightarrow> string \<Rightarrow> readMode \<Rightarrow> registry \<Rightarrow> regError + govalue option" where
  "regGet prefix key mode r =
     (if rgClosed r then Inl RegistryClosed
      else case rgSnapshot r of
             None \<Rightarrow> Inr None
           | Some snap \<Rightarrow> Inr (lookupKey prefix snap key mode))"

definition regGetPath :: "path \<Rightarrow> path \<Rightarrow> registry \<Rightarrow> regError + govalue option" where
  "regGetPath prefix p r =
     (if rgClosed r then Inl RegistryClosed
      else case rgSnapshot r of
             None \<Rightarrow> Inr None
           | Some snap \<Rightarrow> Inr (snGet snap (fullPath prefix p)))"

end
