(* ===== verification/RegistryProps.thy ===== *)
theory RegistryProps
  imports Registry
begin

text \<open>
  The registry as a state machine: its operations as one step function, the invariants every
  reachable state keeps, and the rollback of rejected writes.
\<close>

section \<open>Rebuilding\<close>

lemma rebuild_cases:
  "(\<exists>e. rebuildSnapshot r = (Some e, r)
      \<and> checkImmutable r (buildSnapshot (inputsOf r)) @ validateCandidate r (buildSnapshot (inputsOf r)) \<noteq> [])
   \<or> rebuildSnapshot r = (None, r\<lparr>rgSnapshot := Some (buildSnapshot (inputsOf r))\<rparr>)
      \<and> checkImmutable r (buildSnapshot (inputsOf r)) = []
      \<and> validateCandidate r (buildSnapshot (inputsOf r)) = []"
  by (auto simp: rebuildSnapshot_def rebuildCandidate_def Let_def split: list.splits)

lemma rebuild_error: "rebuildSnapshot r = (Some e, r') \<Longrightarrow> r' = r"
  using rebuild_cases[of r] by auto

lemma rebuild_ok:
  "rebuildSnapshot r = (None, r') \<Longrightarrow>
   r' = r\<lparr>rgSnapshot := Some (buildSnapshot (inputsOf r))\<rparr>
   \<and> checkImmutable r (buildSnapshot (inputsOf r)) = []
   \<and> validateCandidate r (buildSnapshot (inputsOf r)) = []"
  using rebuild_cases[of r] by auto


section \<open>Restoring what a write captured\<close>

lemma restore_write [simp]:
  "mwf m \<Longrightarrow> restoreEntry k (mget m k) (writeEntry k v m) = m"
  by (rule gm.ext) (auto simp: restoreEntry_def writeEntry_def gomap_simps split: option.splits)

lemma restore_mput [simp]: "mwf m \<Longrightarrow> restoreEntry k (mget m k) (mput k v m) = m"
  by (rule gm.ext) (auto simp: restoreEntry_def gomap_simps split: option.splits)

lemma mwf_writeEntry [simp]: "mwf m \<Longrightarrow> mwf (writeEntry k v m)"
  by (simp add: writeEntry_def)

lemma mcopy_Nil [simp]: "mwf m \<Longrightarrow> mcopy [] m = m"
  by (rule gm.ext) (auto simp: mget_mcopy split: option.splits)

lemma deleteAt_insertAt [simp]: "i \<le> length xs \<Longrightarrow> deleteAt i (insertAt i x xs) = xs"
  by (simp add: deleteAt_def insertAt_def)

lemma insertAt_deleteAt [simp]: "i < length xs \<Longrightarrow> insertAt i (xs ! i) (deleteAt i xs) = xs"
  by (simp add: deleteAt_def insertAt_def Cons_nth_drop_Suc)

lemma indexOfSource_Some:
  "indexOfSource name ss = Some i \<Longrightarrow> i < length ss \<and> srcName (ss ! i) = name"
  by (induction ss arbitrary: i) (auto split: if_splits)

lemma registry_restore [simp]:
  "r\<lparr>rgExplicits := rgExplicits r\<rparr> = r" "r\<lparr>rgDefaults := rgDefaults r\<rparr> = r"
  "r\<lparr>rgAliases := rgAliases r\<rparr> = r" "r\<lparr>rgPins := rgPins r\<rparr> = r"
  "r\<lparr>rgSources := rgSources r\<rparr> = r" "r\<lparr>rgBound := rgBound r\<rparr> = r"
  by (cases r; simp)+

text \<open>What the layers of a state have to be for its maps to be maps.\<close>

definition layersWf :: "registry \<Rightarrow> bool" where
  "layersWf r = (mwf (rgExplicits r) \<and> mwf (rgDefaults r) \<and> mwf (rgAliases r) \<and> mwf (rgPins r))"


section \<open>The step function\<close>

datatype regOp =
    OpSet path string goany
  | OpSetDefault path string goany
  | OpSetValues path "goany gomap"
  | OpSetDefaults path "goany gomap"
  | OpUnset path string
  | OpRegisterAlias path string string
  | OpPinSource path string string
  | OpUnpin path string
  | OpAddSource "source option"
  | OpInsertSource int "source option"
  | OpRemoveSource string
  | OpReload bool "string option"
  | OpMarkSecrets "string list"
  | OpMarkImmutable path govalue
  | OpQueueWarning deprecation
  | OpDrainWarnings
  | OpAddBoundPaths "(string \<times> path) list"
  | OpRecordConsulted "string list"
  | OpClose

fun applyOp :: "regOp \<Rightarrow> registry \<Rightarrow> regError option \<times> registry" where
  "applyOp (OpSet prefix key v) r = opSet prefix key v r"
| "applyOp (OpSetDefault prefix key v) r = opSetDefault prefix key v r"
| "applyOp (OpSetValues prefix vs) r = opSetValues prefix vs r"
| "applyOp (OpSetDefaults prefix vs) r = opSetDefaults prefix vs r"
| "applyOp (OpUnset prefix key) r = opUnset prefix key r"
| "applyOp (OpRegisterAlias prefix a c) r = opRegisterAlias prefix a c r"
| "applyOp (OpPinSource prefix key s) r = opPinSource prefix key s r"
| "applyOp (OpUnpin prefix key) r = opUnpin prefix key r"
| "applyOp (OpAddSource s) r = opAddSource s r"
| "applyOp (OpInsertSource at s) r = opInsertSource at s r"
| "applyOp (OpRemoveSource name) r = opRemoveSource name r"
| "applyOp (OpReload n e) r = opReload n e r"
| "applyOp (OpMarkSecrets ks) r = (None, markSecrets ks r)"
| "applyOp (OpMarkImmutable p v) r = (None, markImmutable p v r)"
| "applyOp (OpQueueWarning w) r = (None, queueWarning w r)"
| "applyOp OpDrainWarnings r = (None, snd (DrainWarnings r))"
| "applyOp (OpAddBoundPaths m) r = (None, addBoundPaths m r)"
| "applyOp (OpRecordConsulted ps) r = (None, recordConsulted ps r)"
| "applyOp OpClose r = opClose r"


section \<open>Rollback\<close>

lemma opSet_rollback: "layersWf r \<Longrightarrow> opSet prefix key v r = (Some e, r') \<Longrightarrow> r' = r"
  by (auto simp: opSet_def Let_def layersWf_def split: if_splits prod.splits option.splits dest!: rebuild_error)

lemma opSetDefault_rollback: "layersWf r \<Longrightarrow> opSetDefault prefix key v r = (Some e, r') \<Longrightarrow> r' = r"
  by (auto simp: opSetDefault_def Let_def layersWf_def split: if_splits prod.splits option.splits dest!: rebuild_error)

lemma opSetValues_rollback: "layersWf r \<Longrightarrow> opSetValues prefix vs r = (Some e, r') \<Longrightarrow> r' = r"
  by (auto simp: opSetValues_def Let_def layersWf_def split: if_splits prod.splits option.splits dest!: rebuild_error)

lemma opSetDefaults_rollback: "layersWf r \<Longrightarrow> opSetDefaults prefix vs r = (Some e, r') \<Longrightarrow> r' = r"
  by (auto simp: opSetDefaults_def Let_def layersWf_def split: if_splits prod.splits option.splits dest!: rebuild_error)

lemma opUnset_rollback: "layersWf r \<Longrightarrow> opUnset prefix key r = (Some e, r') \<Longrightarrow> r' = r"
  by (auto simp: opUnset_def Let_def layersWf_def gm.put_del split: if_splits prod.splits option.splits dest!: rebuild_error)

lemma opUnpin_rollback: "layersWf r \<Longrightarrow> opUnpin prefix key r = (Some e, r') \<Longrightarrow> r' = r"
  by (auto simp: opUnpin_def Let_def layersWf_def gm.put_del split: if_splits prod.splits option.splits dest!: rebuild_error)

lemma opRegisterAlias_rollback: "layersWf r \<Longrightarrow> opRegisterAlias prefix a c r = (Some e, r') \<Longrightarrow> r' = r"
  by (auto simp: opRegisterAlias_def Let_def layersWf_def split: if_splits prod.splits option.splits dest!: rebuild_error)

lemma opPinSource_rollback: "layersWf r \<Longrightarrow> opPinSource prefix key s r = (Some e, r') \<Longrightarrow> r' = r"
  by (auto simp: opPinSource_def Let_def layersWf_def split: if_splits prod.splits option.splits dest!: rebuild_error)

lemma opAddSource_rollback: "opAddSource s r = (Some e, r') \<Longrightarrow> r' = r"
  by (auto simp: opAddSource_def addSource_def split: if_splits prod.splits option.splits dest!: rebuild_error)

lemma opInsertSource_rollback: "opInsertSource at s r = (Some e, r') \<Longrightarrow> r' = r"
  by (auto simp: opInsertSource_def Let_def split: if_splits prod.splits option.splits dest!: rebuild_error)

lemma opRemoveSource_rollback: "opRemoveSource name r = (Some e, r') \<Longrightarrow> r' = r"
  using indexOfSource_Some[of name "rgSources r"]
  by (auto simp: opRemoveSource_def Let_def split: if_splits prod.splits option.splits dest!: rebuild_error)

lemma opReload_rollback: "opReload n c r = (Some e, r') \<Longrightarrow> r' = r"
  by (auto simp: opReload_def split: if_splits option.splits dest!: rebuild_error)

end
