(* ===== verification/RegistryInv.thy ===== *)
theory RegistryInv
  imports RegistryProps
begin

text \<open>
  The invariants of a registry: its layers are maps, its alias graph is acyclic, its source names
  nonempty, not reserved and no two sources share one, and the installed snapshot is the one its layers build,
  accepted by the validator. Every operation keeps them, whether it succeeds or fails.
\<close>

section \<open>A snapshot does not depend on the secret marks\<close>

text \<open>Simplification below the branches of a case.\<close>

lemmas deep_cong = option.case_cong list.case_cong sum.case_cong prod.case_cong if_cong

lemma secretKeys_aliasPaths [simp]: "aliasPaths (is\<lparr>isSecretKeys := ks\<rparr>) = aliasPaths is"
  by (simp add: aliasPaths_def fun_eq_iff)

lemma secretKeys_lookup [simp]:
  "layerGet l k (is\<lparr>isSecretKeys := ks\<rparr>) = layerGet l k is"
  "sourceGet s p k (is\<lparr>isSecretKeys := ks\<rparr>) = sourceGet s p k is"
  by (simp_all add: layerGet_def sourceGet_def cong: deep_cong)

lemma secretKeys_walk [simp]:
  "shadowWalk ss p k (is\<lparr>isSecretKeys := ks\<rparr>) w wn srcs = shadowWalk ss p k is w wn srcs"
  "sourceContributions ss p k (is\<lparr>isSecretKeys := ks\<rparr>) = sourceContributions ss p k is"
  by (induction ss arbitrary: w wn srcs) (simp_all split: option.splits)

lemma secretKeys_resolve [simp]:
  "resolveKey p k (is\<lparr>isSecretKeys := ks\<rparr>) a = resolveKey p k is a"
  by (simp add: resolveKey_def resolveShadow_def resolveAppend_def cong: deep_cong)

lemma secretKeys_step [simp]:
  "resolveStep (is\<lparr>isSecretKeys := ks\<rparr>) = resolveStep is"
  "collectCandidateKeys (is\<lparr>isSecretKeys := ks\<rparr>) = collectCandidateKeys is"
  "boundOnly k (is\<lparr>isSecretKeys := ks\<rparr>) cs = boundOnly k is cs"
  "flattenInputs (is\<lparr>isSecretKeys := ks\<rparr>) = (flattenInputs is)\<lparr>isSecretKeys := ks\<rparr>"
  by (simp_all add: resolveStep_def collectCandidateKeys_def boundOnly_def flattenInputs_def cong: deep_cong)

lemma snSecret_simps [simp]:
  "rankOf (s\<lparr>snSecretKeys := ks\<rparr>) = rankOf s"
  "valueAt (s\<lparr>snSecretKeys := ks\<rparr>) = valueAt s"
  "duplicateSpellings (s\<lparr>snSecretKeys := ks\<rparr>) is cs = duplicateSpellings s is cs"
  "hideBoundParents (s\<lparr>snSecretKeys := ks\<rparr>) is cs = hideBoundParents s is cs"
  by (auto simp: rankOf_def rankIndex_def valueAt_def duplicateSpellings_def hideBoundParents_def fun_eq_iff
      cong: deep_cong)

lemma snSecret_fix [simp]:
  "overriddenStep (s\<lparr>snSecretKeys := ks\<rparr>) = overriddenStep s"
  "parentHolds (s\<lparr>snSecretKeys := ks\<rparr>) = parentHolds s"
  by (simp_all add: overriddenStep_def parentHolds_def fun_eq_iff Let_def cong: deep_cong)

lemma snSecret_parents [simp]:
  "overriddenParents (s\<lparr>snSecretKeys := ks\<rparr>) = overriddenParents s"
  "parentMapWins (s\<lparr>snSecretKeys := ks\<rparr>) = parentMapWins s"
  by (simp_all add: overriddenParents_def parentMapWins_def cong: deep_cong)

lemma secretKeys_dup [simp]:
  "duplicateSpellings s (is\<lparr>isSecretKeys := ks\<rparr>) cs = duplicateSpellings s is cs"
  "hideBoundParents s (is\<lparr>isSecretKeys := ks\<rparr>) cs = hideBoundParents s is cs"
  by (simp_all add: duplicateSpellings_def hideBoundParents_def cong: deep_cong)

lemma listSnapshot_secret:
  "listSnapshot (is\<lparr>isSecretKeys := ks\<rparr>) = (listSnapshot is)\<lparr>snSecretKeys := ks\<rparr>"
proof -
  obtain paths vals0 srcs0 arena where a:
    "fold (resolveStep (flattenInputs is)) (collectCandidateKeys (flattenInputs is)) ([], [], [], Some [])
      = (paths, vals0, srcs0, arena)"
    by (metis surj_pair)
  obtain vals srcs where b:
    "fold (stampAlias (isAliases is)) (mkeys (isAliases is)) (vals0, srcs0) = (vals, srcs)"
    by force
  let ?s0 = "\<lparr>snValues = vals, snSources = srcs, snKeys = [], snKeyStrs = [], snLookupKeys = [],
                snLookupPaths = [], snOverridden = [], snInParent = [],
                snSourceNames = map srcName (isSources is), snAliases = isAliases is,
                snSecretKeys = isSecretKeys is, snRedactor = isRedactor is\<rparr>"
  have d: "duplicateSpellings (?s0\<lparr>snSecretKeys := ks\<rparr>) (flattenInputs is) cs
      = duplicateSpellings ?s0 (flattenInputs is) cs" for cs
    by (rule snSecret_simps)
  have h: "hideBoundParents (?s0\<lparr>snKeyStrs := x, snSecretKeys := ks\<rparr>) (flattenInputs is) cs
      = hideBoundParents (?s0\<lparr>snKeyStrs := x\<rparr>) (flattenInputs is) cs" for cs x
    by (rule snSecret_simps)
  show ?thesis
    unfolding listSnapshot_def Let_def secretKeys_step
    using a b d h by simp
qed

lemma buildSnapshot_secret:
  "buildSnapshot (is\<lparr>isSecretKeys := ks\<rparr>) = (buildSnapshot is)\<lparr>snSecretKeys := ks\<rparr>"
proof -
  have u: "(s\<lparr>snSecretKeys := ks\<rparr>)\<lparr>snOverridden := x\<rparr> = (s\<lparr>snOverridden := x\<rparr>)\<lparr>snSecretKeys := ks\<rparr>"
    "(s\<lparr>snSecretKeys := ks\<rparr>)\<lparr>snInParent := x\<rparr> = (s\<lparr>snInParent := x\<rparr>)\<lparr>snSecretKeys := ks\<rparr>"
    for s :: snapshot and x
    by simp_all
  show ?thesis
    unfolding buildSnapshot_def Let_def listSnapshot_secret snSecret_parents u ..
qed

lemma AsMap_secret [simp]: "AsMapSnap (s\<lparr>snSecretKeys := ks\<rparr>) = AsMapSnap s"
  by (simp add: AsMapSnap_def shadowedAmong_def shadowedKeys_def Let_def cong: deep_cong)


section \<open>Invariants\<close>

text \<open>
  A name belongs to one source. The source itself may be in the chain twice: \<open>WithPrecedence\<close> does not
  look for a repeated name. Both subscriptions of such a source have one name, and unsubscribing takes the
  name off the list, though the code cancels the later subscription only.
\<close>

definition namesOk :: "source list \<Rightarrow> bool" where
  "namesOk ss = (inj_on srcName (set ss) \<and>
     (\<forall>s \<in> set ss. srcName s \<noteq> [] \<and> \<not> isReservedSourceName (srcName s)))"

definition structInv :: "registry \<Rightarrow> bool" where
  "structInv r = (layersWf r \<and> mwf (rgSecretKeys r) \<and> acyclic (aliasRel (rgAliases r)) \<and>
     namesOk (rgSources r))"

text \<open>
  The installed snapshot is what the layers build, up to bound paths recorded since, which no
  source has a value for.
\<close>

definition syncInv :: "registry \<Rightarrow> bool" where
  "syncInv r = (\<forall>s. rgSnapshot r = Some s \<longrightarrow>
     (\<exists>b. s = buildSnapshot ((inputsOf r)\<lparr>isBound := b\<rparr>)) \<and> validateCandidate r s = [])"

definition regInv :: "registry \<Rightarrow> bool" where
  "regInv r = (structInv r \<and> syncInv r)"

lemma validateCandidate_cong:
  "rgValidator r = rgValidator r' \<Longrightarrow> validateCandidate r s = validateCandidate r' s"
  by (simp add: validateCandidate_def)

lemma inv_commit:
  assumes "structInv r1" and "rebuildSnapshot r1 = (None, r')"
  shows "regInv r'"
proof -
  let ?s = "buildSnapshot (inputsOf r1)"
  have r': "r' = r1\<lparr>rgSnapshot := Some ?s\<rparr>" and v: "validateCandidate r1 ?s = []"
    using rebuild_ok[OF assms(2)] by auto
  have "inputsOf r' = inputsOf r1" by (simp add: r' inputsOf_def)
  moreover have "(inputsOf r1)\<lparr>isBound := rgBound r1\<rparr> = inputsOf r1" by (simp add: inputsOf_def)
  ultimately have "?s = buildSnapshot ((inputsOf r')\<lparr>isBound := rgBound r1\<rparr>)" by simp
  moreover have "validateCandidate r' ?s = []"
    using v validateCandidate_cong[of r1 r' ?s] by (simp add: r')
  ultimately have "syncInv r'" by (auto simp: syncInv_def r')
  moreover have "structInv r'" using assms(1) by (simp add: r' structInv_def layersWf_def)
  ultimately show ?thesis by (simp add: regInv_def)
qed

text \<open>Fields outside the layers and the snapshot may change freely.\<close>

lemma regInv_frame [simp]:
  "regInv (r\<lparr>rgSubscribed := a\<rparr>) = regInv r" "regInv (r\<lparr>rgCloseCalls := b\<rparr>) = regInv r"
  "regInv (r\<lparr>rgWarnings := c\<rparr>) = regInv r" "regInv (r\<lparr>rgConsulted := d\<rparr>) = regInv r"
  "regInv (r\<lparr>rgBaseline := e\<rparr>) = regInv r" "regInv (r\<lparr>rgClosed := f\<rparr>) = regInv r"
  "regInv (r\<lparr>rgWatching := g\<rparr>) = regInv r"
  by (simp_all add: regInv_def structInv_def layersWf_def syncInv_def inputsOf_def validateCandidate_def)

lemma regInv_subscribe [simp]: "regInv (subscribe n r) = regInv r" "regInv (unsubscribe n r) = regInv r"
  by (simp_all add: subscribe_def unsubscribe_def)

lemma namesOk_middle:
  "namesOk (as @ bs) \<Longrightarrow> srcName s \<notin> srcName ` set (as @ bs) \<Longrightarrow> srcName s \<noteq> [] \<Longrightarrow>
   \<not> isReservedSourceName (srcName s) \<Longrightarrow> namesOk (as @ s # bs)"
  by (auto simp: namesOk_def)

lemma checkSourceName_None:
  "checkSourceName r n = None \<longleftrightarrow>
     n \<noteq> [] \<and> \<not> isReservedSourceName n \<and> n \<notin> srcName ` set (rgSources r)"
  by (auto simp: checkSourceName_def)

lemma namesOk_insertAt:
  "namesOk (rgSources r) \<Longrightarrow> checkSourceName r (srcName s) = None \<Longrightarrow>
   namesOk (insertAt i s (rgSources r))"
  using namesOk_middle[of "take i (rgSources r)" "drop i (rgSources r)" s]
  by (simp add: insertAt_def checkSourceName_None)

lemma namesOk_append:
  "namesOk (rgSources r) \<Longrightarrow> checkSourceName r (srcName s) = None \<Longrightarrow> namesOk (rgSources r @ [s])"
  by (auto simp: namesOk_def checkSourceName_None)

lemma namesOk_sub: "namesOk (as @ ds @ cs) \<Longrightarrow> namesOk (as @ cs)"
  by (auto simp: namesOk_def inj_on_def)

lemma namesOk_deleteAt: "namesOk ss \<Longrightarrow> namesOk (deleteAt i ss)"
proof -
  assume "namesOk ss"
  moreover have "ss = take i ss @ take 1 (drop i ss) @ drop (i + 1) ss"
    by (metis append_take_drop_id drop_drop add.commute)
  ultimately show ?thesis using namesOk_sub by (metis deleteAt_def)
qed

lemma mwf_writeAll [simp]: "mwf m \<Longrightarrow> mwf (writeAll prefix vs m)"
  unfolding writeAll_def by (induction vs arbitrary: m) auto

lemma structInv_layers:
  "structInv r \<Longrightarrow> mwf m \<Longrightarrow> structInv (r\<lparr>rgExplicits := m\<rparr>)"
  "structInv r \<Longrightarrow> mwf m \<Longrightarrow> structInv (r\<lparr>rgDefaults := m\<rparr>)"
  "structInv r \<Longrightarrow> mwf p \<Longrightarrow> structInv (r\<lparr>rgPins := p\<rparr>)"
  "structInv r \<Longrightarrow> mwf al \<Longrightarrow> acyclic (aliasRel al) \<Longrightarrow> structInv (r\<lparr>rgAliases := al\<rparr>)"
  "structInv r \<Longrightarrow> namesOk ss \<Longrightarrow> structInv (r\<lparr>rgSources := ss\<rparr>)"
  "structInv r \<Longrightarrow> structInv (r\<lparr>rgBound := b\<rparr>)"
  by (auto simp: structInv_def layersWf_def)

lemma layersWf_struct: "structInv r \<Longrightarrow> layersWf r"
  by (simp add: structInv_def)

text \<open>A write that rebuilds: its successful outcome is a commit of the mutated state.\<close>

lemma inv_write:
  assumes "regInv r" and "res = (e, r')" and "structInv w" and "\<And>e. res = (Some e, r') \<Longrightarrow> r' = r"
    and "res = (None, r') \<Longrightarrow> rebuildSnapshot w = (None, r') \<or> r' = r"
  shows "regInv r'"
  using assms inv_commit[of w r'] by (cases e) auto

lemma regInv_struct: "regInv r \<Longrightarrow> structInv r" "regInv r \<Longrightarrow> layersWf r"
  by (simp_all add: regInv_def structInv_def)

lemma structInv_wf:
  "structInv r \<Longrightarrow> mwf (rgExplicits r)" "structInv r \<Longrightarrow> mwf (rgDefaults r)"
  "structInv r \<Longrightarrow> mwf (rgAliases r)" "structInv r \<Longrightarrow> mwf (rgPins r)"
  "structInv r \<Longrightarrow> acyclic (aliasRel (rgAliases r))" "structInv r \<Longrightarrow> namesOk (rgSources r)"
  "structInv r \<Longrightarrow> mwf (rgSecretKeys r)"
  by (simp_all add: structInv_def layersWf_def)

lemma opSet_inv:
  assumes h: "regInv r" and res: "opSet prefix key v r = (e, r')"
  shows "regInv r'"
  by (rule inv_write[OF h res _ opSet_rollback[OF regInv_struct(2)[OF h]], where w = "r\<lparr>rgExplicits := writeEntry (fullKey prefix key) v (rgExplicits r)\<rparr>"])
    (use h in \<open>simp add: structInv_layers regInv_struct structInv_wf\<close>,
      auto simp: opSet_def Let_def split: if_splits prod.splits option.splits)

lemma opSetDefault_inv:
  assumes h: "regInv r" and res: "opSetDefault prefix key v r = (e, r')"
  shows "regInv r'"
  by (rule inv_write[OF h res _ opSetDefault_rollback[OF regInv_struct(2)[OF h]], where w = "r\<lparr>rgDefaults := writeEntry (fullKey prefix key) v (rgDefaults r)\<rparr>"])
    (use h in \<open>simp add: structInv_layers regInv_struct structInv_wf\<close>,
      auto simp: opSetDefault_def Let_def split: if_splits prod.splits option.splits)

lemma opSetValues_inv:
  assumes h: "regInv r" and res: "opSetValues prefix vs r = (e, r')"
  shows "regInv r'"
  by (rule inv_write[OF h res _ opSetValues_rollback[OF regInv_struct(2)[OF h]], where w = "r\<lparr>rgExplicits := writeAll prefix vs (rgExplicits r)\<rparr>"])
    (use h in \<open>simp add: structInv_layers regInv_struct structInv_wf\<close>,
      auto simp: opSetValues_def Let_def split: if_splits prod.splits option.splits)

lemma opSetDefaults_inv:
  assumes h: "regInv r" and res: "opSetDefaults prefix vs r = (e, r')"
  shows "regInv r'"
  by (rule inv_write[OF h res _ opSetDefaults_rollback[OF regInv_struct(2)[OF h]], where w = "r\<lparr>rgDefaults := writeAll prefix vs (rgDefaults r)\<rparr>"])
    (use h in \<open>simp add: structInv_layers regInv_struct structInv_wf\<close>,
      auto simp: opSetDefaults_def Let_def split: if_splits prod.splits option.splits)

lemma opUnset_inv:
  assumes h: "regInv r" and res: "opUnset prefix key r = (e, r')"
  shows "regInv r'"
  by (rule inv_write[OF h res _ opUnset_rollback[OF regInv_struct(2)[OF h]], where w = "r\<lparr>rgExplicits := mdel (fullKey prefix key) (rgExplicits r)\<rparr>"])
    (use h in \<open>simp add: structInv_layers regInv_struct structInv_wf\<close>,
      auto simp: opUnset_def Let_def split: if_splits prod.splits option.splits)

lemma opUnpin_inv:
  assumes h: "regInv r" and res: "opUnpin prefix key r = (e, r')"
  shows "regInv r'"
  by (rule inv_write[OF h res _ opUnpin_rollback[OF regInv_struct(2)[OF h]], where w = "r\<lparr>rgPins := mdel (fullKey prefix key) (rgPins r)\<rparr>"])
    (use h in \<open>simp add: structInv_layers regInv_struct structInv_wf\<close>,
      auto simp: opUnpin_def Let_def split: if_splits prod.splits option.splits)

lemma opPinSource_inv:
  assumes h: "regInv r" and res: "opPinSource prefix key n r = (e, r')"
  shows "regInv r'"
  by (rule inv_write[OF h res _ opPinSource_rollback[OF regInv_struct(2)[OF h]], where w = "r\<lparr>rgPins := mput (fullKey prefix key) n (rgPins r)\<rparr>"])
    (use h in \<open>simp add: structInv_layers regInv_struct structInv_wf\<close>,
      auto simp: opPinSource_def Let_def split: if_splits prod.splits option.splits)

lemma opReload_inv:
  assumes h: "regInv r" and res: "opReload n c r = (e, r')"
  shows "regInv r'"
  by (rule inv_write[OF h res _ opReload_rollback, where w = "r"])
    (use h in \<open>simp add: structInv_layers regInv_struct structInv_wf\<close>,
      auto simp: opReload_def Let_def split: if_splits prod.splits option.splits)

lemma opRegisterAlias_inv:
  assumes h: "regInv r" and res: "opRegisterAlias prefix a c r = (e, r')"
  shows "regInv r'"
proof (cases "validateNoAliasCycle (fullKey prefix a) (fullKey prefix c) (rgAliases r)")
  case None
  then have "acyclic (aliasRel (mput (fullKey prefix a) (fullKey prefix c) (rgAliases r)))"
    using h by (simp add: validate_acyclic structInv_wf regInv_struct)
  then have "structInv (r\<lparr>rgAliases := mput (fullKey prefix a) (fullKey prefix c) (rgAliases r)\<rparr>)"
    using h by (simp add: structInv_layers regInv_struct structInv_wf)
  then show ?thesis
    by (rule inv_write[OF h res _ opRegisterAlias_rollback[OF regInv_struct(2)[OF h]]])
      (use None in \<open>auto simp: opRegisterAlias_def Let_def split: if_splits prod.splits option.splits\<close>)
next
  case (Some chain)
  with h res show ?thesis by (auto simp: opRegisterAlias_def Let_def split: if_splits)
qed

text \<open>The source operations also touch the subscriptions and the record of \<open>Close\<close> calls.\<close>

lemma opAddSource_inv: "regInv r \<Longrightarrow> opAddSource src r = (e, r') \<Longrightarrow> regInv r'"
proof (cases e)
  case None
  assume h: "regInv r" "opAddSource src r = (e, r')"
  show ?thesis
  proof (cases "rgClosed r")
    case False
    obtain s r2 where s: "src = Some s" "checkSourceName r (srcName s) = None"
      "rebuildSnapshot (r\<lparr>rgSources := rgSources r @ [s]\<rparr>) = (None, r2)" "r' = subscribe (srcName s) r2"
      using h(2) None False
      by (auto simp: opAddSource_def addSource_def split: option.splits prod.splits)
    have "structInv (r\<lparr>rgSources := rgSources r @ [s]\<rparr>)"
      using h(1) s(2) namesOk_append by (simp add: structInv_layers regInv_struct structInv_wf)
    then show ?thesis using inv_commit[OF _ s(3)] s(4) by simp
  qed (use h in \<open>simp add: opAddSource_def\<close>)
qed (auto dest: opAddSource_rollback)

lemma opInsertSource_inv: "regInv r \<Longrightarrow> opInsertSource at src r = (e, r') \<Longrightarrow> regInv r'"
proof (cases e)
  case None
  assume h: "regInv r" "opInsertSource at src r = (e, r')"
  show ?thesis
  proof (cases "rgClosed r")
    case False
    obtain s i r2 where s: "src = Some s" "checkSourceName r (srcName s) = None"
      "rebuildSnapshot (r\<lparr>rgSources := insertAt i s (rgSources r)\<rparr>) = (None, r2)"
      "r' = subscribe (srcName s) r2"
      using h(2) None False by (auto simp: opInsertSource_def Let_def split: option.splits prod.splits)
    have "structInv (r\<lparr>rgSources := insertAt i s (rgSources r)\<rparr>)"
      using h(1) s(2) namesOk_insertAt by (simp add: structInv_layers regInv_struct structInv_wf)
    then show ?thesis using inv_commit[OF _ s(3)] s(4) by simp
  qed (use h in \<open>simp add: opInsertSource_def\<close>)
qed (auto dest: opInsertSource_rollback)

lemma opRemoveSource_inv: "regInv r \<Longrightarrow> opRemoveSource n r = (e, r') \<Longrightarrow> regInv r'"
proof (cases e)
  case None
  assume h: "regInv r" "opRemoveSource n r = (e, r')"
  then consider "r' = r" | i r2 where
    "rebuildSnapshot (r\<lparr>rgSources := deleteAt i (rgSources r)\<rparr>) = (None, r2)"
    "r' = (unsubscribe n r2)\<lparr>rgCloseCalls := rgCloseCalls r2 @ [n]\<rparr>"
    using None by (auto simp: opRemoveSource_def Let_def split: if_splits option.splits prod.splits)
  then show ?thesis
  proof cases
    case 2
    have "structInv (r\<lparr>rgSources := deleteAt i (rgSources r)\<rparr>)"
      using h(1) namesOk_deleteAt by (simp add: structInv_layers regInv_struct structInv_wf)
    then show ?thesis using inv_commit[OF _ 2(1)] 2(2) by simp
  qed (use h in simp)
qed (auto dest: opRemoveSource_rollback)

lemma syncInv_unbuilt_bound: "regInv r \<Longrightarrow> regInv (r\<lparr>rgBound := b\<rparr>)"
  by (auto simp: regInv_def structInv_layers syncInv_def inputsOf_def validateCandidate_def)

lemma addBoundPaths_inv: "regInv r \<Longrightarrow> regInv (addBoundPaths m r)"
proof -
  assume h: "regInv r"
  define r1 where "r1 = r\<lparr>rgBound := fold (\<lambda>(k, p). sadd k) (filter (\<lambda>(k, p). \<not> mhas (rgBound r) k) m) (rgBound r)\<rparr>"
  have "regInv r1" unfolding r1_def using h by (rule syncInv_unbuilt_bound)
  moreover have "regInv (r1\<lparr>rgBound := rgBound r\<rparr>)" using calculation by (rule syncInv_unbuilt_bound)
  moreover have "rebuildSnapshot r1 = (None, r2) \<Longrightarrow> regInv r2" for r2
    using inv_commit \<open>regInv r1\<close> regInv_struct(1) by blast
  ultimately show ?thesis
    using h by (auto simp: addBoundPaths_def Let_def simp flip: r1_def dest: rebuild_error
        split: prod.splits option.splits)
qed

lemma inputsOf_secret:
  "inputsOf (r\<lparr>rgSecretKeys := sk, rgSnapshot := sn\<rparr>) = (inputsOf r)\<lparr>isSecretKeys := sk\<rparr>"
  by (simp add: inputsOf_def)

lemma inputs_bound_secret_commute:
  "x\<lparr>isBound := b, isSecretKeys := sk\<rparr> = x\<lparr>isSecretKeys := sk, isBound := b\<rparr>"
  by (cases x) simp

lemma mwf_fold_sadd [simp]: "mwf m \<Longrightarrow> mwf (fold sadd ks m)"
  by (induction ks arbitrary: m) simp_all

lemma validateCandidate_secret [simp]:
  "validateCandidate r (s\<lparr>snSecretKeys := ks\<rparr>) = validateCandidate r s"
  by (simp add: validateCandidate_def cong: deep_cong)

lemma fold_sadd_present:
  "mwf m \<Longrightarrow> \<forall>k \<in> set ks. mhas m k \<Longrightarrow> fold sadd ks m = m"
  by (induction ks) (auto simp: sadd_def mhas_def gm.put_lookup)

lemma markSecrets_inv:
  assumes h: "regInv r"
  shows "regInv (markSecrets ks r)"
proof (cases "ks = [] \<or> rgClosed r")
  case False
  define sk where "sk = fold sadd ks (rgSecretKeys r)"
  have wf: "mwf (rgSecretKeys r)" using h by (simp add: regInv_struct structInv_wf)
  have str: "structInv (markSecrets ks r)"
    using h False by (simp add: markSecrets_def Let_def regInv_def structInv_def layersWf_def)
  have "syncInv (markSecrets ks r)"
  proof (cases "rgSnapshot r")
    case None
    then show ?thesis using False by (simp add: markSecrets_def Let_def syncInv_def)
  next
    case (Some cur)
    obtain b where cur: "cur = buildSnapshot ((inputsOf r)\<lparr>isBound := b\<rparr>)" "validateCandidate r cur = []"
      using h Some by (auto simp: regInv_def syncInv_def)
    have red: "snRedactor cur = rgRedactor r" by (simp add: cur(1) inputsOf_def)
    have keys: "snSecretKeys cur = rgSecretKeys r" by (simp add: cur(1) inputsOf_def)
    have next_snap: "rgSnapshot (markSecrets ks r) = Some (cur\<lparr>snSecretKeys := sk\<rparr>)"
      using False Some red keys fold_sadd_present[OF wf, of ks]
      by (cases cur) (auto simp: markSecrets_def Let_def sk_def)
    have inp: "inputsOf (markSecrets ks r) = (inputsOf r)\<lparr>isSecretKeys := sk\<rparr>"
      using False by (simp add: markSecrets_def Let_def inputsOf_secret sk_def)
    have "cur\<lparr>snSecretKeys := sk\<rparr> = buildSnapshot ((inputsOf (markSecrets ks r))\<lparr>isBound := b\<rparr>)"
      unfolding inp cur(1) buildSnapshot_secret[symmetric] by (simp only: inputs_bound_secret_commute)
    moreover have "validateCandidate (markSecrets ks r) (cur\<lparr>snSecretKeys := sk\<rparr>) = []"
      using cur(2) False validateCandidate_cong[of "markSecrets ks r" r] by (simp add: markSecrets_def Let_def)
    ultimately show ?thesis by (auto simp: syncInv_def next_snap)
  qed
  with str show ?thesis by (simp add: regInv_def)
qed (use h in \<open>auto simp: markSecrets_def\<close>)

end
