(* ===== verification/RegistrySteps.thy ===== *)
theory RegistrySteps
  imports RegistryInv
begin

text \<open>
  The registry as a state machine: the states reachable from a construction by \<open>buildRegistry\<close>
  through any interleaving of its operations, and what holds of all of them.
\<close>

section \<open>Every operation keeps the invariants\<close>

lemma opClose_inv: "regInv r \<Longrightarrow> opClose r = (e, r') \<Longrightarrow> regInv r'"
proof -
  assume h: "regInv r" "opClose r = (e, r')"
  then have "r' = r \<or> (\<exists>cs. r' = r\<lparr>rgClosed := True, rgWatching := False, rgSubscribed := [], rgCloseCalls := cs\<rparr>)"
    by (auto simp: opClose_def Let_def split: if_splits)
  with h(1) show ?thesis by auto
qed

lemma marks_inv:
  "regInv r \<Longrightarrow> regInv (markImmutable p v r)" "regInv r \<Longrightarrow> regInv (queueWarning w r)"
  "regInv r \<Longrightarrow> regInv (snd (DrainWarnings r))" "regInv r \<Longrightarrow> regInv (recordConsulted ps r)"
  by (simp_all add: markImmutable_def queueWarning_def DrainWarnings_def recordConsulted_def)

lemmas operations_inv = opSet_inv opSetDefault_inv opSetValues_inv opSetDefaults_inv opUnset_inv
  opRegisterAlias_inv opPinSource_inv opUnpin_inv opAddSource_inv opInsertSource_inv
  opRemoveSource_inv opReload_inv opClose_inv

lemma applyOp_inv:
  assumes "regInv r" and "applyOp op r = (e, r')"
  shows "regInv r'"
proof (cases op)
  case (OpMarkSecrets ks)
  with assms markSecrets_inv show ?thesis by auto
next
  case (OpAddBoundPaths m)
  with assms addBoundPaths_inv show ?thesis by auto
qed (insert assms, simp_all only: applyOp.simps prod.inject,
  (erule (1) operations_inv | elim conjE, hypsubst, erule marks_inv)+)

lemma applyOp_rollback:
  assumes "layersWf r" and "applyOp op r = (Some e, r')" and "op \<noteq> OpClose"
  shows "r' = r"
  using assms
  by (cases op)
    (auto dest: opSet_rollback opSetDefault_rollback opSetValues_rollback opSetDefaults_rollback
      opUnset_rollback opRegisterAlias_rollback opPinSource_rollback opUnpin_rollback
      opAddSource_rollback opInsertSource_rollback opRemoveSource_rollback opReload_rollback)


section \<open>Reordering by \<open>WithPrecedence\<close>\<close>

lemma sourceByName_Some: "sourceByName ss n = Some s \<Longrightarrow> s \<in> set ss \<and> srcName s = n"
  unfolding sourceByName_def find_Some_iff by (metis nth_mem set_rev)

lemma sourceByName_None: "sourceByName ss n = None \<longleftrightarrow> n \<notin> srcName ` set ss"
  by (auto simp: sourceByName_def find_None_iff)

lemma map_filter_Cons:
  "List.map_filter f (x # xs) = (case f x of None \<Rightarrow> List.map_filter f xs | Some y \<Rightarrow> y # List.map_filter f xs)"
  by (auto simp: List.map_filter_def split: option.splits)

lemma map_filter_names:
  "map srcName (List.map_filter (sourceByName ss) order) = filter (\<lambda>n. n \<in> srcName ` set ss) order"
proof (induction order)
  case (Cons n order)
  then show ?case
    using sourceByName_Some[of ss n] sourceByName_None[of ss n]
    by (cases "sourceByName ss n") (auto simp: map_filter_Cons)
qed (simp add: List.map_filter_def)

lemma set_map_filter_sources: "set (List.map_filter (sourceByName ss) order) \<subseteq> set ss"
  using sourceByName_Some by (auto simp: List.map_filter_def)

lemma applyPrecedence_names:
  "map srcName (applyPrecedence order ss)
     = filter (\<lambda>n. n \<in> srcName ` set ss) order @ filter (\<lambda>n. n \<notin> set order) (map srcName ss)"
  by (auto simp: applyPrecedence_def map_filter_names filter_map comp_def)

lemma applyPrecedence_subset: "set (applyPrecedence order ss) \<subseteq> set ss"
  using set_map_filter_sources[of ss order] by (auto simp: applyPrecedence_def)

lemma applyPrecedence_namesOk: "namesOk ss \<Longrightarrow> namesOk (applyPrecedence order ss)"
  using applyPrecedence_subset[of order ss] inj_on_subset unfolding namesOk_def by blast

lemma applyPrecedence_set:
  assumes "distinct (map srcName ss)"
  shows "set (applyPrecedence order ss) = set ss"
proof
  show "set ss \<subseteq> set (applyPrecedence order ss)"
  proof
    fix s assume s: "s \<in> set ss"
    have "srcName s \<in> srcName ` set (applyPrecedence order ss)"
      using arg_cong[OF applyPrecedence_names[of order ss], of set] s by auto
    then obtain t where t: "t \<in> set (applyPrecedence order ss)" "srcName t = srcName s" by auto
    then have "t \<in> set ss" using applyPrecedence_subset by blast
    then have "t = s" using assms s t(2) by (metis distinct_map inj_onD)
    with t show "s \<in> set (applyPrecedence order ss)" by simp
  qed
qed (rule applyPrecedence_subset)


section \<open>Construction\<close>

lemma addInitial_inv:
  "structInv r \<Longrightarrow> rgSnapshot r = None \<Longrightarrow> addInitial ss r = (e, r') \<Longrightarrow>
   structInv r' \<and> rgSnapshot r' = None"
proof (induction ss arbitrary: r)
  case (Cons s ss)
  show ?case
  proof (cases "addSource s r")
    case (Pair e1 r1)
    have "structInv r1 \<and> rgSnapshot r1 = None"
      using Cons.prems Pair namesOk_append[of r]
      by (auto simp: addSource_def structInv_layers structInv_wf split: option.splits)
    with Pair Cons show ?thesis by (auto split: option.splits)
  qed
qed simp

lemma buildRegistry_inv:
  assumes s0: "structInv r0" "rgSnapshot r0 = None"
    and res: "buildRegistry initial order watch r0 = (e, Some r)"
  shows "regInv r"
proof -
  obtain addErr r1 where a: "addInitial initial r0 = (addErr, r1)" by force
  define r2 where "r2 = (if addErr = None \<and> order \<noteq> [] then r1\<lparr>rgSources := applyPrecedence order (rgSources r1)\<rparr> else r1)"
  have r1: "structInv r1" "rgSnapshot r1 = None" using addInitial_inv[OF s0 a] by auto
  then have r2: "structInv r2" "rgSnapshot r2 = None"
    using applyPrecedence_namesOk
    by (auto simp: r2_def structInv_layers structInv_wf)
  obtain e3 r3 where rb: "rebuildSnapshot r2 = (e3, r3)" by force
  have "regInv r3"
  proof (cases e3)
    case None
    with rb inv_commit[OF r2(1)] show ?thesis by simp
  next
    case (Some e)
    then have "r3 = r2" using rb rebuild_error by simp
    with r2 show ?thesis by (simp add: regInv_def syncInv_def)
  qed
  moreover have "\<exists>w sub. r = r3\<lparr>rgWatching := w, rgSubscribed := sub\<rparr>"
    using res rb
    by (auto simp: buildRegistry_def a rebuildSnapshot_def Let_def simp flip: r2_def
        split: prod.splits option.splits if_splits)
  ultimately show ?thesis by auto
qed


section \<open>Reachable states\<close>

text \<open>The options a registry is built with; every other field starts empty.\<close>

definition freshRegistry ::
  "((string \<times> goany) list \<Rightarrow> string option) option \<Rightarrow> (string \<Rightarrow> string) option \<Rightarrow> mergeStrategy
   \<Rightarrow> formatters \<Rightarrow> registry" where
  "freshRegistry validator redactor merge fmt =
     emptyRegistry\<lparr>rgValidator := validator, rgRedactor := redactor, rgMerge := merge, rgFormat := fmt\<rparr>"

inductive reachable :: "registry \<Rightarrow> bool" where
  built: "reachable r"
    if "buildRegistry initial order watch (freshRegistry validator redactor merge fmt) = (e, Some r)"
| step: "reachable r'" if "reachable r" and "applyOp op r = (e, r')"

inductive_cases reachable_cases: "reachable r"

inductive_simps reachable_iff: "reachable r"

lemma fresh_inv: "structInv (freshRegistry v d m f)" "rgSnapshot (freshRegistry v d m f) = None"
  by (simp_all add: freshRegistry_def emptyRegistry_def structInv_def layersWf_def namesOk_def
      aliasRel_def acyclic_def)

lemma reachable_regInv: "reachable r \<Longrightarrow> regInv r"
proof (induction rule: reachable.induct)
  case (built initial order watch validator redactor merge fmt e r)
  with buildRegistry_inv[OF fresh_inv] show ?case by blast
next
  case (step r op e r')
  then show ?case by (blast intro: applyOp_inv)
qed

lemmas reachable_struct = reachable_regInv[THEN regInv_struct(1)] reachable_regInv[THEN regInv_struct(2)]

text \<open>
  What a bind or the watch engine that is still running does to the state through unexported methods. They
  do not look whether the registry is closed.
\<close>

fun internalOp :: "regOp \<Rightarrow> bool" where
  "internalOp (OpMarkImmutable p v) = True"
| "internalOp (OpQueueWarning w) = True"
| "internalOp (OpAddBoundPaths m) = True"
| "internalOp (OpRecordConsulted ps) = True"
| "internalOp op = False"

text \<open>The public operations that return no error: \<open>MarkSecret\<close>, \<open>DrainWarnings\<close> and a second \<open>Close\<close>.\<close>

fun silentOp :: "regOp \<Rightarrow> bool" where
  "silentOp (OpMarkSecrets ks) = True"
| "silentOp OpDrainWarnings = True"
| "silentOp OpClose = True"
| "silentOp op = False"

lemmas operation_defs = opSet_def opSetDefault_def opSetValues_def opSetDefaults_def opUnset_def
  opRegisterAlias_def opPinSource_def opUnpin_def opAddSource_def opInsertSource_def
  opRemoveSource_def opReload_def

lemma closed_answers:
  "rgClosed r \<Longrightarrow> \<not> internalOp op \<Longrightarrow> applyOp op r =
     (if silentOp op then None else Some RegistryClosed, if op = OpDrainWarnings then r\<lparr>rgWarnings := []\<rparr> else r)"
  by (cases op) (simp_all add: operation_defs markSecrets_def DrainWarnings_def opClose_def)

lemma rebuild_closed [simp]: "rebuildSnapshot r = (e, r') \<Longrightarrow> rgClosed r' = rgClosed r"
  using rebuild_cases[of r] by auto

text \<open>What no operation changes on a closed registry.\<close>

definition frozen :: "registry \<Rightarrow> registry \<Rightarrow> bool" where
  "frozen r r' = (rgClosed r' \<and> rgExplicits r' = rgExplicits r \<and> rgDefaults r' = rgDefaults r
     \<and> rgAliases r' = rgAliases r \<and> rgPins r' = rgPins r \<and> rgSources r' = rgSources r
     \<and> rgSecretKeys r' = rgSecretKeys r \<and> rgSubscribed r' = rgSubscribed r \<and> rgCloseCalls r' = rgCloseCalls r)"

lemma rebuild_frozen: "rebuildSnapshot r = (e, r') \<Longrightarrow> rgClosed r \<Longrightarrow> frozen r r'"
  using rebuild_cases[of r] by (auto simp: frozen_def)

lemma closed_frozen: "rgClosed r \<Longrightarrow> frozen r (snd (applyOp op r))"
proof (cases "internalOp op")
  case True
  assume c: "rgClosed r"
  have "rebuildSnapshot (r\<lparr>rgBound := b\<rparr>) = (e, r') \<Longrightarrow> frozen r r' \<and> frozen r (r'\<lparr>rgBound := b'\<rparr>)" for b b' e r'
    using c rebuild_frozen[of "r\<lparr>rgBound := b\<rparr>" e r'] by (simp add: frozen_def)
  with c True show ?thesis
    by (cases op) (auto simp: markImmutable_def queueWarning_def addBoundPaths_def recordConsulted_def Let_def
        frozen_def split: prod.splits option.splits)
qed (simp add: closed_answers, simp add: frozen_def)

lemma closed_stays: "rgClosed r \<Longrightarrow> applyOp op r = (e, r') \<Longrightarrow> rgClosed r'"
  using closed_frozen[of r op] by (simp add: frozen_def)


section \<open>What a rebuild checks\<close>

lemma checkImmutable_Nil:
  assumes "checkImmutable r s = []" and "mget (rgBaseline r) p = Some b"
  shows "\<exists>v. readSnap s p None (if Kind b = MapKind then ReadSection else ReadExact) = Some v
    \<and> valuesEqual b v"
proof -
  have "immutableError r s (p, b) = []"
    using assms mget_in_set[of "rgBaseline r" p b] by (fastforce simp: checkImmutable_def)
  then show ?thesis by (auto simp: immutableError_def Let_def split: option.splits if_splits)
qed

lemma rebuild_baseline:
  assumes "rebuildSnapshot r = (None, r')" and "mget (rgBaseline r') p = Some b"
    and "rgSnapshot r' = Some s"
  shows "\<exists>v. readSnap s p None (if Kind b = MapKind then ReadSection else ReadExact) = Some v
    \<and> valuesEqual b v"
proof (rule checkImmutable_Nil)
  show "checkImmutable r s = []" "mget (rgBaseline r) p = Some b"
    using rebuild_ok[OF assms(1)] assms(2,3) by auto
qed


text \<open>What an operation does to the chain of sources: it keeps it, adds a source of a new name or takes one out.\<close>

lemma rebuild_sources: "rebuildSnapshot w = (e, w') \<Longrightarrow> rgSources w' = rgSources w"
  using rebuild_cases[of w] by auto

inductive chainStep :: "registry \<Rightarrow> source list \<Rightarrow> bool" for r where
  kept: "chainStep r (rgSources r)"
| added: "checkSourceName r (srcName s) = None \<Longrightarrow> chainStep r (insertAt i s (rgSources r))"
| removed: "chainStep r (deleteAt i (rgSources r))"

lemma applyOp_sources:
  assumes "applyOp op r = (e, r')"
  shows "chainStep r (rgSources r')"
proof -
  have last: "checkSourceName r (srcName s) = None \<Longrightarrow> chainStep r (rgSources r @ [s])" for s
    using chainStep.added[of r s "length (rgSources r)"] by (simp add: insertAt_def)
  have undo: "rebuildSnapshot w = (Some e, w') \<Longrightarrow> w' = w" for w w' and e :: regError by (rule rebuild_error)
  show ?thesis
    using assms indexOfSource_Some[of _ "rgSources r"]
    by (cases op; cases e)
      (auto simp: operation_defs addSource_def Let_def markSecrets_def markImmutable_def queueWarning_def DrainWarnings_def
        addBoundPaths_def recordConsulted_def opClose_def subscribe_def unsubscribe_def rebuild_sources
        intro: chainStep.intros last dest!: undo
        split: if_splits prod.splits option.splits)
qed

lemma distinct_insertAt: "distinct xs \<Longrightarrow> x \<notin> set xs \<Longrightarrow> distinct (insertAt i x xs)"
proof -
  have "distinct (as @ bs) \<Longrightarrow> x \<notin> set (as @ bs) \<Longrightarrow> distinct (as @ x # bs)" for as bs :: "'a list" by auto
  from this[of "take i xs" "drop i xs"] show "distinct xs \<Longrightarrow> x \<notin> set xs \<Longrightarrow> ?thesis" by (simp add: insertAt_def)
qed

lemma distinct_deleteAt: "distinct xs \<Longrightarrow> distinct (deleteAt i xs)"
  by (simp add: deleteAt_def set_take_disj_set_drop_if_distinct)

lemma applyOp_distinct:
  assumes "distinct (Sources r)" and "applyOp op r = (e, r')"
  shows "distinct (Sources r')"
proof -
  have map: "map f (insertAt i x xs) = insertAt i (f x) (map f xs)" "map f (deleteAt i xs) = deleteAt i (map f xs)"
    for f :: "source \<Rightarrow> string" and i x xs by (simp_all add: insertAt_def deleteAt_def take_map drop_map)
  show ?thesis
    using applyOp_sources[OF assms(2)] assms(1)
    by cases (auto simp: Sources_def map checkSourceName_None intro!: distinct_insertAt distinct_deleteAt)
qed


text \<open>The operations one after the other.\<close>

definition opStep :: "registry \<Rightarrow> registry \<Rightarrow> bool" where
  "opStep r r' = (\<exists>op e. applyOp op r = (e, r'))"

lemma opSteps_reachable: "opStep\<^sup>*\<^sup>* r r' \<Longrightarrow> reachable r \<Longrightarrow> reachable r'"
  by (induction rule: rtranclp_induct) (auto simp: opStep_def intro: reachable.step)

lemma opSteps_distinct: "opStep\<^sup>*\<^sup>* r r' \<Longrightarrow> distinct (Sources r) \<Longrightarrow> distinct (Sources r')"
  by (induction rule: rtranclp_induct) (auto simp: opStep_def intro: applyOp_distinct)

lemma addInitial_distinct: "distinct (Sources r) \<Longrightarrow> addInitial ss r = (e, r') \<Longrightarrow> distinct (Sources r')"
proof (induction ss arbitrary: r)
  case (Cons s ss)
  show ?case
  proof (cases "addSource s r")
    case (Pair e1 r1)
    have "distinct (Sources r1)"
      using Cons.prems(1) Pair by (auto simp: addSource_def Sources_def checkSourceName_None split: option.splits)
    with Pair Cons show ?thesis by (auto split: option.splits)
  qed
qed simp

lemma buildRegistry_distinct:
  assumes "rgSources r0 = []" and "distinct order" and "buildRegistry initial order watch r0 = (e, Some r)"
  shows "distinct (Sources r)"
proof -
  obtain addErr r1 where a: "addInitial initial r0 = (addErr, r1)" by force
  define r2 where "r2 = (if addErr = None \<and> order \<noteq> [] then r1\<lparr>rgSources := applyPrecedence order (rgSources r1)\<rparr> else r1)"
  have "distinct (Sources r1)" using addInitial_distinct[OF _ a] assms(1) by (simp add: Sources_def)
  then have r2: "distinct (Sources r2)"
    using assms(2) by (auto simp: r2_def Sources_def applyPrecedence_names)
  obtain e3 r3 where rb: "rebuildSnapshot r2 = (e3, r3)" by force
  have "rgSources r = rgSources r3"
    using assms(3) rb by (auto simp: buildRegistry_def a rebuildSnapshot_def Let_def simp flip: r2_def
        split: prod.splits option.splits if_splits)
  then show ?thesis using r2 rebuild_sources[OF rb] by (simp add: Sources_def)
qed


text \<open>An operation that installs a snapshot does so by a rebuild (marking secrets apart).\<close>

lemma rebuild_frame:
  "rebuildSnapshot w = (e, w') \<Longrightarrow> rgBaseline w' = rgBaseline w \<and> rgSources w' = rgSources w"
  using rebuild_cases[of w] by auto

definition rebuiltTo :: "snapshot option \<Rightarrow> govalue gomap \<Rightarrow> bool" where
  "rebuiltTo s b = (\<exists>w w'. rebuildSnapshot w = (None, w') \<and> rgSnapshot w' = s \<and> rgBaseline w' = b)"

lemma rebuiltTo_intro: "rebuildSnapshot w = (None, w') \<Longrightarrow> rebuiltTo (rgSnapshot w') (rgBaseline w')"
  by (auto simp: rebuiltTo_def)

lemma installed_by_rebuild:
  assumes "applyOp op r = (e, r')" and "rgSnapshot r' \<noteq> rgSnapshot r" and "\<And>ks. op \<noteq> OpMarkSecrets ks"
  shows "rebuiltTo (rgSnapshot r') (rgBaseline r')"
proof -
  have none: "rebuildSnapshot w = (Some e, w') \<Longrightarrow> rgSnapshot w' = rgSnapshot w" for w w' and e :: regError
    using rebuild_error[of w] by auto
  show ?thesis
    using assms
    by (cases op; cases e)
      (auto simp: operation_defs addSource_def Let_def markImmutable_def queueWarning_def DrainWarnings_def
        addBoundPaths_def recordConsulted_def opClose_def subscribe_def unsubscribe_def
        dest: none rebuiltTo_intro
        split: if_splits prod.splits option.splits)
qed

end
