(* ===== verification/RegistryTheorems.thy ===== *)
theory RegistryTheorems
  imports RegistrySteps
begin

text \<open>
  The properties of the registry: the invariant of every reachable state, the rollback of rejected
  operations, the finality of \<open>Close\<close>, the immutable baselines, the reordering of sources, and what
  a read returns after a write.
\<close>

section \<open>Reads\<close>

text \<open>\<open>lookupSubtree\<close> parses the key when it is not given its path, so the path changes nothing.\<close>

lemma lookupSubtree_path: "lookupSubtree s ks (Some (ParsePath ks)) = lookupSubtree s ks None"
  by (simp add: lookupSubtree_def Let_def)

lemma readSnap_path: "readSnap s ks (Some (ParsePath ks)) mode = readSnap s ks None mode"
  by (auto simp: readSnap_def lookupSubtree_path Let_def split: option.splits)

lemma lookupKey_fullKey: "lookupKey prefix s key mode = readSnap s (fullKey prefix key) None mode"
proof (cases "prefix = [] \<and> lbrack \<notin> set key")
  case True
  then have "pathString (ParsePath key) = key"
    using canonical_no_bracket[of key] by (simp add: canonical_def)
  with True show ?thesis by (simp add: lookupKey_def fullKey_def)
next
  case False
  have "pathString (fullPath prefix (ParsePath key)) = fullKey prefix key"
    by (simp add: fullPath_def fullKey_def Let_def)
  moreover have "fullPath prefix (ParsePath key) = ParsePath (fullKey prefix key)"
    by (simp add: fullPath_def fullKey_def Let_def)
  ultimately show ?thesis using False readSnap_path by (auto simp: lookupKey_def Let_def)
qed


section \<open>Reading back what was set\<close>

lemma mget_fold_keep:
  assumes "\<not> isNonEmptyMap v" and "\<And>w. (k, w) \<in> set xs \<Longrightarrow> w = v"
    and "mget out k = Some v \<or> (k, v) \<in> set xs"
  shows "mget (fold (\<lambda>(k, v) out. if isNonEmptyMap v then out else mput k v out) xs out) k = Some v"
  using assms(2,3)
proof (induction xs arbitrary: out)
  case (Cons e xs)
  obtain j w where e: "e = (j, w)" by force
  let ?out = "if isNonEmptyMap w then out else mput j w out"
  have "mget ?out k = Some v \<or> (k, v) \<in> set xs"
    using Cons.prems assms(1) e by (auto simp: mget_mput)
  with Cons.IH[of ?out] Cons.prems(1) show ?case by (simp add: e)
qed simp

lemma flattenLayer_get:
  assumes "mwf m" and "mget m k = Some v" and "\<not> isNonEmptyMap v"
  shows "mget (flattenLayer m) k = Some v"
proof -
  have v: "(k, v) \<in> set m" using assms(2) by (rule mget_in_set)
  have same: "\<And>w. (k, w) \<in> set m \<Longrightarrow> w = v"
    using assms(1,2) by (metis mwf_mget_iff option.inject)
  have "mget (fold (\<lambda>(k, v) out. if isNonEmptyMap v then out else mput k v out) m out) k = Some v" for out
    by (rule mget_fold_keep[OF assms(3) same]) (auto intro: v)
  then show ?thesis
    using assms(2) unfolding flattenLayer_def Let_def by simp
qed

text \<open>An explicit value that is not a map is what every read of its key returns.\<close>

lemma read_explicit:
  assumes fit: "aliasesFit is" and wf: "mwf (isExplicits is)" and al: "\<not> mhas (isAliases is) k"
    and ex: "mget (isExplicits is) k = Some raw" "\<not> isNonEmptyMap raw"
    and kind: "Kind (NewValue raw) \<noteq> NullKind" and mode: "mode \<noteq> ReadSection"
  shows "readSnap (buildSnapshot is) k p mode = Some (withSource srcExplicit (NewValue raw))"
proof -
  let ?s = "buildSnapshot is"
  have fl: "mget (isExplicits (flattenInputs is)) k = Some raw"
    using flattenLayer_get[OF wf ex] by simp
  have chain: "resolveAliasChain k (isAliases is) = k"
    using al by (simp add: resolveAliasChain_def mhas_def maxAliasDepth_def numeral_eq_Suc)
  have "k \<in> candidateKeys (flattenInputs is)"
    using fl mget_None_iff[of "isExplicits (flattenInputs is)" k] unfolding candidateKeys_def
    by (simp del: flattenInputs_simps)
  then have "k \<in> canonicalKeys (flattenInputs is)"
    using chain by (force simp: canonicalKeys_def)
  moreover have "resolved (flattenInputs is) k = Some (withSource srcExplicit (NewValue raw), [srcExplicit])"
    using fl by (simp add: resolved_def resolveKey_def layerGet_def)
  ultimately have r: "resolvedAt is k = Some (withSource srcExplicit (NewValue raw), [srcExplicit])"
    by (simp add: resolvedAt_def chain)
  have v: "mget (snValues ?s) k = Some (withSource srcExplicit (NewValue raw))"
    and src: "mget (snSources ?s) k = Some [srcExplicit]"
    using build_maps[of "is" k] fit r by auto
  have "rankOf ?s k = 0" by (simp add: rankOf_def src rankFor_def)
  then have "\<not> mhas (snInParent ?s) k"
    using build_inParent[of "is" k] parentHolds_held by fastforce
  then show ?thesis
    using v al kind mode snAliases_build[of "is"]
    by (cases mode) (auto simp: readSnap_def Let_def)
qed


section \<open>A concrete registry\<close>

text \<open>A watching registry over two sources, for the witnesses.\<close>

lemma buildRegistry_unchecked:
  assumes "addInitial initial r0 = (None, r1)" and "rgValidator r1 = None" and "rgBaseline r1 = []"
    and "r2 = (if order \<noteq> [] then r1\<lparr>rgSources := applyPrecedence order (rgSources r1)\<rparr> else r1)"
  shows "buildRegistry initial order watch r0 = (None, Some (r2\<lparr>rgSnapshot := Some (buildSnapshot (inputsOf r2)),
    rgWatching := watch, rgSubscribed := (if watch then map srcName (rgSources r2) else [])\<rparr>))"
proof -
  have "checkImmutable r2 s = []" "validateCandidate r2 s = []" for s
    using assms(2,3) by (simp_all add: assms(4) checkImmutable_def validateCandidate_def)
  then show ?thesis
    by (simp add: buildRegistry_def assms(1) rebuildCandidate_def Let_def flip: assms(4))
qed

definition demoSources :: "source list" where
  "demoSources = [demoSource ''env'' [''a''] (mk (IntV 1)), demoSource ''file'' [''b''] (mk (IntV 2))]"

definition demoFresh :: registry where
  "demoFresh = freshRegistry None None MergeShadow (rgFormat emptyRegistry)"

definition demoLayers :: registry where
  "demoLayers = demoFresh\<lparr>rgSources := rev demoSources\<rparr>"

definition demoRegistry :: registry where
  "demoRegistry = demoLayers\<lparr>rgSnapshot := Some (buildSnapshot (inputsOf demoLayers)), rgWatching := True,
     rgSubscribed := [''file'', ''env'']\<rparr>"

lemma demoRegistry_facts:
  "map srcName (rgSources demoRegistry) = [''file'', ''env'']" "\<not> rgClosed demoRegistry"
  "rgAliases demoRegistry = []"
  by (simp_all add: demoRegistry_def demoLayers_def demoSources_def demoSource_def demoFresh_def
      freshRegistry_def emptyRegistry_def)

lemma demoAdd:
  "addInitial (map Some demoSources) demoFresh = (None, demoFresh\<lparr>rgSources := demoSources\<rparr>)"
  by (simp add: demoSources_def demoFresh_def freshRegistry_def emptyRegistry_def addSource_def
      checkSourceName_def isReservedSourceName_def srcExplicit_def srcDefault_def demoSource_def)

lemma demoOrder: "applyPrecedence [''file''] demoSources = rev demoSources"
  by (simp add: applyPrecedence_def sourceByName_def demoSources_def demoSource_def List.map_filter_def)

lemma demoRegistry_built: "buildRegistry (map Some demoSources) [''file''] True
  (freshRegistry None None MergeShadow (rgFormat emptyRegistry)) = (None, Some demoRegistry)"
proof -
  have plain: "rgValidator (demoFresh\<lparr>rgSources := ss\<rparr>) = None" "rgBaseline (demoFresh\<lparr>rgSources := ss\<rparr>) = []" for ss
    by (simp_all add: demoFresh_def freshRegistry_def emptyRegistry_def)
  have layers: "demoLayers = (if [''file''] \<noteq> [] then demoFresh\<lparr>rgSources := demoSources\<rparr>\<lparr>rgSources :=
      applyPrecedence [''file''] (rgSources (demoFresh\<lparr>rgSources := demoSources\<rparr>))\<rparr> else demoFresh\<lparr>rgSources := demoSources\<rparr>)"
    by (simp add: demoLayers_def demoOrder)
  have "map srcName (rgSources demoLayers) = [''file'', ''env'']"
    by (simp add: demoLayers_def demoSources_def demoSource_def)
  then show ?thesis
    using buildRegistry_unchecked[OF demoAdd plain layers, of True]
    by (simp add: demoFresh_def demoRegistry_def)
qed

lemma demoRegistry_reachable: "reachable demoRegistry"
  by (rule reachable.built[OF demoRegistry_built])


section \<open>Properties\<close>



text \<open>
  C1: An operation other than \<open>Close\<close> that reports an error leaves the whole state as it was: the
  layers, the chain, the installed snapshot, the subscriptions and the record of \<open>Close\<close> calls.
\<close>

theorem rejected_operation_rolls_back:
  assumes "reachable r" and "applyOp op r = (Some e, r')" and "op \<noteq> OpClose"
  shows "r' = r"
  using applyOp_rollback[OF reachable_struct(2)[OF assms(1)] assms(2,3)] .

lemma rejected_operation_rolls_back_witness:
  "applyOp (OpPinSource [] ''a'' ''nowhere'') demoRegistry = (Some (PinError ''nowhere''), demoRegistry)"
proof -
  have "fst (opPinSource [] ''a'' ''nowhere'' demoRegistry) = Some (PinError ''nowhere'')"
    using demoRegistry_facts(2)
    by (simp add: opPinSource_def hasSource_def demoRegistry_def demoLayers_def demoSources_def demoSource_def)
  then obtain r' where r': "applyOp (OpPinSource [] ''a'' ''nowhere'') demoRegistry = (Some (PinError ''nowhere''), r')"
    by (cases "opPinSource [] ''a'' ''nowhere'' demoRegistry") auto
  with rejected_operation_rolls_back[OF demoRegistry_reachable r'] show ?thesis by simp
qed




text \<open>
  C4: Whenever an operation installs a new snapshot (marking secrets apart, which changes no
  value), every path with an immutable baseline reads from it, in the mode its kind asks for, as a
  value equal to the baseline.
\<close>

theorem immutable_baseline_enforced:
  assumes "applyOp op r = (e, r')" and "rgSnapshot r' \<noteq> rgSnapshot r" and "rgSnapshot r' = Some s"
    and "\<And>ks. op \<noteq> OpMarkSecrets ks" and "mget (rgBaseline r') p = Some b"
  shows "\<exists>v. readSnap s p None (if Kind b = MapKind then ReadSection else ReadExact) = Some v
    \<and> valuesEqual b v"
proof -
  obtain w w' where w: "rebuildSnapshot w = (None, w')" "rgSnapshot w' = rgSnapshot r'" "rgBaseline w' = rgBaseline r'"
    using installed_by_rebuild[OF assms(1,2,4)] by (auto simp: rebuiltTo_def)
  show ?thesis using rebuild_baseline[OF w(1)] w(2,3) assms(3,5) by simp
qed

definition demoImmutable :: registry where
  "demoImmutable = demoLayers\<lparr>rgBaseline := [(''b'', mk (IntV 2))]\<rparr>"

lemma demoImmutable_ok: "fst (rebuildSnapshot demoImmutable) = None"
  by code_simp

lemma immutable_baseline_enforced_witness:
  "\<exists>v. readSnap (buildSnapshot (inputsOf demoImmutable)) ''b'' None ReadExact = Some v \<and> valuesEqual (mk (IntV 2)) v"
proof -
  have open_registry: "\<not> rgClosed demoImmutable" "rgSnapshot demoImmutable = None"
    "rgBaseline demoImmutable = [(''b'', mk (IntV 2))]"
    by (simp_all add: demoImmutable_def demoLayers_def demoFresh_def freshRegistry_def emptyRegistry_def)
  have "rebuildSnapshot demoImmutable = (None, demoImmutable\<lparr>rgSnapshot := Some (buildSnapshot (inputsOf demoImmutable))\<rparr>)"
    using rebuild_cases[of demoImmutable] demoImmutable_ok by auto
  then have "applyOp (OpReload False None) demoImmutable
      = (None, demoImmutable\<lparr>rgSnapshot := Some (buildSnapshot (inputsOf demoImmutable))\<rparr>)"
    using open_registry by (simp add: opReload_def)
  then show ?thesis
    using immutable_baseline_enforced[of "OpReload False None" demoImmutable None _
        "buildSnapshot (inputsOf demoImmutable)" "''b''" "mk (IntV 2)"] open_registry
    by (simp add: Kind_def kindOf.simps)
qed

text \<open>
  Reordering by precedence puts the listed sources first, in the listed order, and the others
  after them in their old order; it loses no source, and source names stay distinct exactly when
  no registered name is listed twice: a name listed twice puts its source into the chain twice.
\<close>

theorem applyPrecedence_order:
  assumes "distinct (map srcName ss)"
  shows "map srcName (applyPrecedence order ss)
      = filter (\<lambda>n. n \<in> srcName ` set ss) order @ filter (\<lambda>n. n \<notin> set order) (map srcName ss)
    \<and> set (applyPrecedence order ss) = set ss
    \<and> (distinct (map srcName (applyPrecedence order ss)) \<longleftrightarrow>
         distinct (filter (\<lambda>n. n \<in> srcName ` set ss) order))"
  using applyPrecedence_names[of order ss] applyPrecedence_set[OF assms] assms by auto

lemma applyPrecedence_order_witness:
  "map srcName (applyPrecedence [''file'', ''x'', ''file''] demoSources) = [''file'', ''file'', ''env'']"
  using applyPrecedence_order[of demoSources "[''file'', ''x'', ''file'']"]
  by (simp add: demoSources_def demoSource_def)

lemma set_then_read:
  assumes "reachable r" and "\<not> rgClosed r" and "applyOp (OpSet prefix key v) r = (None, r')"
    and "\<not> isNonEmptyMap v" and "Kind (NewValue v) \<noteq> NullKind"
    and "\<not> mhas (rgAliases r) (fullKey prefix key)" and "length (rgAliases r) \<le> maxAliasDepth"
    and "mode \<noteq> ReadSection"
  shows "regGet prefix key mode r' = Inr (Some (withSource srcExplicit (NewValue v)))"
proof -
  define w where "w = r\<lparr>rgExplicits := writeEntry (fullKey prefix key) v (rgExplicits r)\<rparr>"
  have st: "structInv r" using reachable_struct(1)[OF assms(1)] .
  have v: "v \<noteq> ANil" using assms(5) by (auto simp: NewValue.simps Kind_def  kindOf.simps)
  have "rebuildSnapshot w = (None, r')"
    using assms(2,3) by (auto simp: opSet_def Let_def w_def split: prod.splits option.splits)
  then have r': "r' = w\<lparr>rgSnapshot := Some (buildSnapshot (inputsOf w))\<rparr>" using rebuild_ok by blast
  have "readSnap (buildSnapshot (inputsOf w)) (fullKey prefix key) None mode
      = Some (withSource srcExplicit (NewValue v))"
    using st v assms(4-8)
    by (intro read_explicit)
      (auto simp: inputsOf_def w_def structInv_wf writeEntry_def mget_mput)
  then show ?thesis
    using assms(2) by (simp add: regGet_def lookupKey_fullKey r' w_def)
qed

text \<open>
  C2: After a successful \<open>Set\<close> of a value that is neither null nor a nonempty map, under a key that is not an
  alias, in a registry of at most 32 aliases, \<open>Get\<close> of the same key through the same view returns that
  value, tagged explicit, whatever the sources, defaults, pins, parents and merge strategy are; so do the
  typed getters, which read the exact entry. (A null clears the key and a map is merged leaf by leaf; the
  key of an alias is read where the alias points.)
\<close>

theorem Set_then_Get:
  assumes "reachable r" and "\<not> rgClosed r" and "applyOp (OpSet prefix key v) r = (None, r')"
    and "\<not> isNonEmptyMap v" and "Kind (NewValue v) \<noteq> NullKind"
    and "\<not> mhas (rgAliases r) (fullKey prefix key)" and "length (rgAliases r) \<le> maxAliasDepth"
  shows "\<forall>mode. mode \<noteq> ReadSection \<longrightarrow>
    regGet prefix key mode r' = Inr (Some (withSource srcExplicit (NewValue v)))"
  using set_then_read[OF assms] by blast

lemma demo_set:
  "applyOp (OpSet prefix key v) demoRegistry = (None, snd (opSet prefix key v demoRegistry))"
proof -
  have "rgValidator demoRegistry = None" "rgBaseline demoRegistry = []"
    by (simp_all add: demoRegistry_def demoLayers_def demoFresh_def freshRegistry_def emptyRegistry_def)
  then have "rebuildSnapshot (demoRegistry\<lparr>rgExplicits := m\<rparr>) = (None, demoRegistry\<lparr>rgExplicits := m,
      rgSnapshot := Some (buildSnapshot (inputsOf (demoRegistry\<lparr>rgExplicits := m\<rparr>)))\<rparr>)" for m
    using rebuild_cases[of "demoRegistry\<lparr>rgExplicits := m\<rparr>"]
    by (auto simp: checkImmutable_def validateCandidate_def)
  then show ?thesis using demoRegistry_facts by (simp add: opSet_def Let_def)
qed

lemma Set_then_Get_witness:
  "regGet [''b''] ''c'' ReadGet (snd (opSet [''b''] ''c'' (ABool True) demoRegistry))
     = Inr (Some (Value (BoolV True) ''explicit''))"
  using Set_then_Get[OF demoRegistry_reachable demoRegistry_facts(2) demo_set, of "ABool True" "[''b'']" "''c''"]
    demoRegistry_facts(3)
  by (simp add: isNonEmptyMap_def Kind_def NewValue.simps kindOf.simps withSource_def srcExplicit_def)

text \<open>
  Every read of a key through a view reads the entry of the key's canonical string under the
  view's prefix: the shortcut for keys without brackets agrees with parsing and re-rendering, so
  every spelling of a key reads the same entry.
\<close>

theorem lookupKey_canonical:
  "lookupKey prefix s key mode = readSnap s (fullKey prefix key) None mode
   \<and> (ParsePath key = ParsePath key' \<longrightarrow> lookupKey prefix s key mode = lookupKey prefix s key' mode)
   \<and> ParsePath (fullKey prefix key) = prefix @ ParsePath key"
  by (auto simp: lookupKey_fullKey fullKey_def Let_def pathAppend_def)

lemma lookupKey_canonical_witness:
  "lookupKey [] (buildSnapshot (inputsOf demoLayers)) ''[b]'' ReadGet
     = lookupKey [] (buildSnapshot (inputsOf demoLayers)) ''b'' ReadGet"
proof -
  have "ParsePath ''[b]'' = ParsePath ''b''" by code_simp
  then show ?thesis using lookupKey_canonical[of "[]" "buildSnapshot (inputsOf demoLayers)" "''[b]''" ReadGet "''b''"] by blast
qed

end
