(* ===== verification/EnvSource.thy ===== *)
theory EnvSource
  imports MapSource
begin

text \<open>
  \<open>source_env.go\<close>, \<open>source_envfamily.go\<close> and \<open>source_flag.go\<close>: the sources over the process environment
  and over a flag parser. The environment is \<open>os.Environ\<close>, a list of texts \<open>NAME=value\<close>, and the lookup
  of the \<open>env\<close> package, which the model takes as a function of its own: a theorem that needs the two
  to agree says so. A flag adapter is its names and its lookup.
\<close>

record environment =
  envVars :: "string list"
  envLookup :: "string \<Rightarrow> string option"

record envOptions =
  eoPrefix :: string
  eoTransform :: "(path \<Rightarrow> string) option"
  eoParser :: "(string \<Rightarrow> path) option"
  eoVars :: "string gomap"

record envSource =
  esPrefix :: string
  esTransform :: "path \<Rightarrow> string"
  esParse :: "string \<Rightarrow> path"
  esScoped :: bool
  esKeys :: "path list"
  esCached :: bool


section \<open>\<open>OSEnvSource\<close>\<close>

definition baseTransform :: "envOptions \<Rightarrow> path \<Rightarrow> string" where
  "baseTransform cfg = (case eoTransform cfg of Some f \<Rightarrow> f | None \<Rightarrow> SnakeUpperPrefixTransform (eoPrefix cfg))"

definition baseParser :: "bool \<Rightarrow> envOptions \<Rightarrow> string \<Rightarrow> path" where
  "baseParser foldCase cfg =
     (case eoParser cfg of Some f \<Rightarrow> f | None \<Rightarrow> (\<lambda>name. parseSnakeUpper foldCase name (eoPrefix cfg)))"

text \<open>The variable of each pinned path; of two paths with one variable the last wins.\<close>

definition inverseVars :: "string gomap \<Rightarrow> string gomap" where
  "inverseVars vars = fold (\<lambda>(key, name) m. mput name key m) vars []"

definition NewOSEnvSource :: "bool \<Rightarrow> envOptions \<Rightarrow> envSource" where
  "NewOSEnvSource foldCase cfg =
     (let scoped = (eoPrefix cfg \<noteq> [] \<or> eoVars cfg \<noteq> [] \<or> eoParser cfg \<noteq> None)
      in if eoVars cfg = []
         then \<lparr>esPrefix = eoPrefix cfg, esTransform = baseTransform cfg, esParse = baseParser foldCase cfg,
               esScoped = scoped, esKeys = [], esCached = False\<rparr>
         else \<lparr>esPrefix = [],
               esTransform = (\<lambda>p. case mget (eoVars cfg) (pathString p) of
                                    Some name \<Rightarrow> name | None \<Rightarrow> baseTransform cfg p),
               esParse = (\<lambda>name. case mget (inverseVars (eoVars cfg)) name of
                                    Some key \<Rightarrow> ParsePath key | None \<Rightarrow> baseParser foldCase cfg name),
               esScoped = scoped, esKeys = [], esCached = False\<rparr>)"

definition envGet :: "environment \<Rightarrow> envSource \<Rightarrow> path \<Rightarrow> string + govalue option" where
  "envGet en s p =
     (if p = [] then Inr None
      else let name = esTransform s p
           in if name = [] then Inr None
              else Inr (map_option (\<lambda>val. NewValue (AStr val)) (envLookup en name)))"

text \<open>The name before the first \<open>=\<close>, unless it is empty.\<close>

definition envName :: "string \<Rightarrow> string option" where
  "envName kv = (case cutStr kv ''='' of Some (name, val) \<Rightarrow> if name = [] then None else Some name | None \<Rightarrow> None)"

definition collectKeys :: "bool \<Rightarrow> environment \<Rightarrow> envSource \<Rightarrow> path list" where
  "collectKeys foldCase en s =
     sort_key pathString
       (List.map_filter (\<lambda>kv.
            case envName kv of
              None \<Rightarrow> None
            | Some name \<Rightarrow>
                if esPrefix s \<noteq> [] \<and> \<not> hasEnvPrefix foldCase name (esPrefix s) then None
                else let p = esParse s name in if p = [] then None else Some p) (envVars en))"

definition envKeys :: "bool \<Rightarrow> environment \<Rightarrow> envSource \<Rightarrow> path list \<times> envSource" where
  "envKeys foldCase en s =
     (if esCached s then (esKeys s, s)
      else let ks = collectKeys foldCase en s in (ks, s\<lparr>esKeys := ks, esCached := True\<rparr>))"

definition envRefresh :: "bool \<Rightarrow> environment \<Rightarrow> envSource \<Rightarrow> nat \<times> envSource" where
  "envRefresh foldCase en s =
     (let ks = collectKeys foldCase en s in (length ks, s\<lparr>esKeys := ks, esCached := True\<rparr>))"

definition envNativeKey :: "envSource \<Rightarrow> path \<Rightarrow> string" where
  "envNativeKey s p = esTransform s p"

text \<open>What the registry sees of it at one moment.\<close>

definition envAsSource :: "bool \<Rightarrow> environment \<Rightarrow> envSource \<Rightarrow> source" where
  "envAsSource foldCase en s =
     \<lparr>srcName = ''osenv'', srcGet = envGet en s, srcKeys = fst (envKeys foldCase en s),
      srcNative = Some (envNativeKey s), srcUnscoped = (\<not> esScoped s), srcClose = None\<rparr>"


section \<open>Families of variables\<close>

record envFamily =
  efTarget :: path
  efBase :: string
  efSeparator :: string

text \<open>The loop descends into the maps in place; here it returns the map rebuilt.\<close>

fun setNestedSegments :: "goany gomap \<Rightarrow> string list \<Rightarrow> goany \<Rightarrow> goany gomap" where
  "setNestedSegments m [] v = m"
| "setNestedSegments m [seg] v = mput seg v m"
| "setNestedSegments m (seg # seg' # segs) v =
     (let next = (case mget m seg of
                    Some a \<Rightarrow> (case asAnyMap a of Some n \<Rightarrow> n | None \<Rightarrow> [])
                  | None \<Rightarrow> [])
      in mput seg (AAnyMap (setNestedSegments next (seg' # segs) v)) m)"

definition familyVar :: "string \<Rightarrow> string \<Rightarrow> string \<Rightarrow> (string list \<times> string) option" where
  "familyVar base sep kv =
     (case cutStr kv ''='' of
        None \<Rightarrow> None
      | Some (name, val) \<Rightarrow>
          if \<not> hasPrefix name (base @ sep) \<or> length name = length (base @ sep) then None
          else Some (split (toLower (drop (length (base @ sep)) name)) (toLower sep), val))"

definition collectEnvFamily :: "environment \<Rightarrow> string \<Rightarrow> string \<Rightarrow> goany gomap" where
  "collectEnvFamily en base sep =
     fold (\<lambda>kv out. case familyVar base sep kv of
              None \<Rightarrow> out | Some (segs, val) \<Rightarrow> setNestedSegments out segs (AStr val)) (envVars en) []"

fun familyGet :: "environment \<Rightarrow> envFamily list \<Rightarrow> path \<Rightarrow> string + govalue option" where
  "familyGet en [] p = Inr None"
| "familyGet en (fam # fams) p =
     (if efSeparator fam = [] \<or> \<not> pathEqual (efTarget fam) p then familyGet en fams p
      else let m = collectEnvFamily en (efBase fam) (efSeparator fam)
           in if m \<noteq> [] then Inr (Some (NewValue (AAnyMap m))) else familyGet en fams p)"

definition familyKeys :: "environment \<Rightarrow> envFamily list \<Rightarrow> path list" where
  "familyKeys en fams =
     sortPaths (map efTarget (filter (\<lambda>fam. efSeparator fam \<noteq> []
         \<and> collectEnvFamily en (efBase fam) (efSeparator fam) \<noteq> []) fams))"


section \<open>Flags\<close>

record flagSource =
  fsName :: string
  fsNames :: "string list"
  fsLookup :: "string \<Rightarrow> goany \<times> bool"
  fsTransform :: "string \<Rightarrow> path"

definition defaultFlagPathTransform :: "string \<Rightarrow> path" where
  "defaultFlagPathTransform name =
     ParsePath (if hasPrefix name ''--'' then drop 2 name
                else if hasPrefix name ''-'' then drop 1 name else name)"

fun flagScan :: "flagSource \<Rightarrow> path \<Rightarrow> string list \<Rightarrow> govalue option" where
  "flagScan s p [] = None"
| "flagScan s p (name # names) =
     (if \<not> pathEqual (fsTransform s name) p then flagScan s p names
      else case fsLookup s name of (raw, isSet) \<Rightarrow> if isSet then Some (NewValue raw) else flagScan s p names)"

definition flagGet :: "flagSource \<Rightarrow> path \<Rightarrow> string + govalue option" where
  "flagGet s p = Inr (flagScan s p (fsNames s))"

definition flagKeys :: "flagSource \<Rightarrow> path list" where
  "flagKeys s = sortPaths (map (fsTransform s) (fsNames s))"


section \<open>The contract of a source\<close>

interpretation env_source: source_base "\<lambda>(en, s). envGet en s" "\<lambda>(en, s). collectKeys foldCase en s"
  for foldCase
  by unfold_locales (auto simp: envGet_def Let_def collectKeys_def split: if_splits)

lemma familyGet_total: "familyGet en fams p \<noteq> Inl e"
  by (induction fams) (auto simp: Let_def)

lemma familyGet_found:
  "fam \<in> set fams \<Longrightarrow> efSeparator fam \<noteq> [] \<Longrightarrow> efTarget fam = p \<Longrightarrow>
   collectEnvFamily en (efBase fam) (efSeparator fam) \<noteq> [] \<Longrightarrow> \<exists>v. familyGet en fams p = Inr (Some v)"
  by (induction fams) (auto simp: Let_def)

interpretation family_source: source_contract "\<lambda>(en, fams). familyGet en fams" "\<lambda>(en, fams). familyKeys en fams" "\<lambda>_. True"
proof
  show "(case s of (en, fams) \<Rightarrow> familyGet en fams) p \<noteq> Inl e" for s p e
    by (cases s) (simp add: familyGet_total)
  show "sorted (map pathString (case s of (en, fams) \<Rightarrow> familyKeys en fams))" for s
    by (cases s) (simp add: familyKeys_def sort_key_sorted)
  show "\<exists>v. (case s of (en, fams) \<Rightarrow> familyGet en fams) p = Inr (Some v)"
    if "p \<in> set (case s of (en, fams) \<Rightarrow> familyKeys en fams)" for s p
    using that by (cases s) (auto simp: familyKeys_def intro: familyGet_found)
qed

lemma flagScan_found:
  "name \<in> set names \<Longrightarrow> fsTransform s name = p \<Longrightarrow> snd (fsLookup s name) \<Longrightarrow> \<exists>v. flagScan s p names = Some v"
  by (induction names) (auto split: prod.splits)

interpretation flag_source: source_contract flagGet flagKeys "\<lambda>s. \<forall>name \<in> set (fsNames s). snd (fsLookup s name)"
proof
  show "flagGet s p \<noteq> Inl e" for s p e by (simp add: flagGet_def)
  show "sorted (map pathString (flagKeys s))" for s by (simp add: flagKeys_def sort_key_sorted)
  show "\<exists>v. flagGet s p = Inr (Some v)"
    if "\<forall>name \<in> set (fsNames s). snd (fsLookup s name)" "p \<in> set (flagKeys s)" for s p
    using that by (auto simp: flagKeys_def flagGet_def intro: flagScan_found)
qed


section \<open>The environment read back\<close>

lemma set_map_filter: "y \<in> set (List.map_filter f xs) \<longleftrightarrow> (\<exists>x \<in> set xs. f x = Some y)"
  by (force simp: List.map_filter_def)

lemma collectKeys_iff:
  "p \<in> set (collectKeys foldCase en s) \<longleftrightarrow>
   p \<noteq> [] \<and> (\<exists>kv \<in> set (envVars en). \<exists>name. envName kv = Some name
     \<and> (esPrefix s = [] \<or> hasEnvPrefix foldCase name (esPrefix s)) \<and> esParse s name = p)"
proof -
  have "(case envName kv of
          None \<Rightarrow> None
        | Some name \<Rightarrow>
            if esPrefix s \<noteq> [] \<and> \<not> hasEnvPrefix foldCase name (esPrefix s) then None
            else let p = esParse s name in if p = [] then None else Some p) = Some p
      \<longleftrightarrow> p \<noteq> [] \<and> (\<exists>name. envName kv = Some name
         \<and> (esPrefix s = [] \<or> hasEnvPrefix foldCase name (esPrefix s)) \<and> esParse s name = p)" for kv
    by (cases "envName kv") (auto simp: Let_def)
  then show ?thesis unfolding collectKeys_def set_sort set_map_filter by blast
qed

text \<open>Without pinned variables, a listed key is read from the variable's upper-case spelling.\<close>

lemma env_listed_spelling:
  assumes "eoVars cfg = []" and "eoTransform cfg = None" and "eoParser cfg = None"
    and "p \<in> set (collectKeys False en (NewOSEnvSource False cfg))"
  shows "\<exists>name. esTransform (NewOSEnvSource False cfg) p
      = eoPrefix cfg @ toUpper (drop (length (eoPrefix cfg)) name)
    \<and> (\<exists>kv \<in> set (envVars en). envName kv = Some name) \<and> hasPrefix name (eoPrefix cfg)"
proof -
  obtain name where n: "p \<noteq> []" "\<exists>kv \<in> set (envVars en). envName kv = Some name"
    "eoPrefix cfg = [] \<or> hasEnvPrefix False name (eoPrefix cfg)" "parseSnakeUpper False name (eoPrefix cfg) = p"
    using assms by (auto simp: collectKeys_iff NewOSEnvSource_def baseParser_def)
  have "esTransform (NewOSEnvSource False cfg) p = SnakeUpperPrefixTransform (eoPrefix cfg) p"
    using assms(1,2) by (simp add: NewOSEnvSource_def baseTransform_def)
  also have "\<dots> = eoPrefix cfg @ toUpper (drop (length (eoPrefix cfg)) name)"
    using snake_upper_parse[of name "eoPrefix cfg"] n(1,4) by simp
  finally show ?thesis using n(2,3) by (auto simp: hasEnvPrefix_def intro!: exI[of _ name])
qed

text \<open>A family holds the value of its last variable, in the nested map.\<close>

lemma walk_setNested: "segs \<noteq> [] \<Longrightarrow> walkAny (AAnyMap (setNestedSegments m segs v)) segs = Some v"
  by (induction m segs v rule: setNestedSegments.induct) (auto simp: mget_mput Let_def)

lemma walk_setNested_other:
  "walkAny (AAnyMap (setNestedSegments m segs v)) qs = walkAny (AAnyMap m) qs"
  if "\<not> pathHasPrefix qs segs" and "\<not> pathHasPrefix segs qs"
  using that
proof (induction m segs v arbitrary: qs rule: setNestedSegments.induct)
  case (2 m seg v)
  then show ?case by (cases qs) (auto simp: mget_mput)
next
  case (3 m seg seg' segs v)
  show ?case
  proof (cases qs)
    case (Cons q list)
    show ?thesis
    proof (cases "q = seg")
      case True
      define nxt where "nxt = (case mget m seg of
          Some a \<Rightarrow> (case asAnyMap a of Some n \<Rightarrow> n | None \<Rightarrow> []) | None \<Rightarrow> [])"
      have rest: "\<not> pathHasPrefix list (seg' # segs)" "\<not> pathHasPrefix (seg' # segs) list"
        using "3.prems" Cons True by auto
      then obtain l ls where l: "list = l # ls" by (cases list) auto
      have "walkAny (AAnyMap nxt) list = (case mget m seg of Some b \<Rightarrow> walkAny b list | None \<Rightarrow> None)"
        by (auto simp: nxt_def l split: option.split)
      with "3.IH"[OF nxt_def rest] show ?thesis
        unfolding Cons True by (simp add: mget_mput nxt_def[symmetric] Let_def split: option.split)
    qed (use Cons in \<open>simp add: mget_mput Let_def\<close>)
  qed (use 3 in simp)
qed simp

end
