(* ===== verification/SourceUse.thy ===== *)
theory SourceUse
  imports RegistryTheorems EnvSource
begin

text \<open>
  What the contract of a source gives the registry: a key a source lists has a value in the snapshot
  built from it. It is proved once for every source that keeps the contract, and used for the map
  source, the families of variables and the flag source.
\<close>

lemma contribution_found:
  "s \<in> set ss \<Longrightarrow> sourceGet s p ks is = Some v \<Longrightarrow> sourceContributions ss p ks is \<noteq> []"
  by (induction ss) (auto split: option.splits)

lemma resolveKey_found:
  assumes "\<forall>s \<in> set (isSources is). srcName s \<noteq> []" and "mget (isPins is) ks = None"
    and "s \<in> set (isSources is)" and "sourceGet s p ks is = Some v"
  shows "\<exists>r. fst (resolveKey p ks is None) = Some r"
proof -
  have c: "sourceContributions (isSources is) p ks is \<noteq> []" using assms(3,4) by (rule contribution_found)
  then have chain: "\<exists>r. chainResult (sourceContributions (isSources is) p ks is) = Some r"
    by (auto simp: chainResult_def split: list.splits)
  have append: "\<exists>r. resolveAppend p ks is = Some r" using c by (simp add: resolveAppend_def Let_def)
  show ?thesis
    using chain append assms(2)
    by (auto simp: resolveKey_def resolveShadow_chain[OF assms(1)] split: option.split)
qed

context source_contract
begin

lemma listed_key_resolves:
  assumes "ok s" and "p \<in> set (keys s)"
    and "src \<in> set (isSources is)" and "srcGet src = get s" and "srcKeys src = keys s"
    and "aliasesFit is" and "\<forall>t \<in> set (isSources is). srcName t \<noteq> []"
    and "mget (isPins is) (pathString p) = None" and "mget (isAliases is) (pathString p) = None"
  shows "\<exists>v. mget (snValues (buildSnapshot is)) (pathString p) = Some v"
proof -
  let ?is = "flattenInputs is" and ?k = "pathString p"
  obtain v where v: "get s p = Inr (Some v)" using keys_readable[OF assms(1,2)] by blast
  have "?k \<in> pathString ` set (srcKeys src)" using assms(2,5) by simp
  then have "?k \<in> candidateKeys ?is" using assms(3) unfolding candidateKeys_def by auto
  then have k: "?k \<in> canonicalKeys ?is" using assms(9) by (auto simp: canonicalKeys_def intro!: image_eqI[of _ _ ?k])
  have "sourceGet src p ?k ?is = Some v" using v assms(4) by (simp add: sourceGet_def)
  then obtain r where "fst (resolveKey p ?k ?is None) = Some r"
    using resolveKey_found[of ?is ?k src p v] assms(3,7,8) by auto
  then have "resolvedAt is ?k = Some r" using k assms(9) by (simp add: resolvedAt_def resolved_def)
  then show ?thesis using build_maps[of "is" ?k] assms(6) by simp
qed

end

definition familyAsSource :: "string \<Rightarrow> environment \<Rightarrow> envFamily list \<Rightarrow> source" where
  "familyAsSource name en fams =
     \<lparr>srcName = name, srcGet = familyGet en fams, srcKeys = familyKeys en fams, srcNative = None,
      srcUnscoped = False, srcClose = None\<rparr>"

definition flagAsSource :: "flagSource \<Rightarrow> source" where
  "flagAsSource s =
     \<lparr>srcName = fsName s, srcGet = flagGet s, srcKeys = flagKeys s, srcNative = None,
      srcUnscoped = False, srcClose = None\<rparr>"


section \<open>Property\<close>

text \<open>
  C30: Every key a map source, a family of environment variables or a flag source lists has a value in
  the snapshot built from a chain that holds the source, unless the key is pinned to a source or is
  itself an alias. Every source has a name, the alias graph is acyclic with at most 32 aliases, the data
  of the map source is a map (each key once) at every level, and the lookup of the flags finds every name
  it lists. (The process environment and a remote backend list keys their \<open>Get\<close> does not find:
  \<open>env_listed_spelling\<close>, \<open>prefix_key_unreadable\<close>.)
\<close>

theorem listed_keys_have_values:
  assumes "aliasesFit is" and "\<forall>t \<in> set (isSources is). srcName t \<noteq> []"
    and "mget (isPins is) (pathString p) = None" and "mget (isAliases is) (pathString p) = None"
  shows "(mapAsSource foldCase m \<in> set (isSources is) \<and> awf (AAnyMap (msData m)) \<and> p \<in> set (mapKeys foldCase m)
      \<or> familyAsSource name en fams \<in> set (isSources is) \<and> p \<in> set (familyKeys en fams)
      \<or> flagAsSource f \<in> set (isSources is) \<and> (\<forall>n \<in> set (fsNames f). snd (fsLookup f n)) \<and> p \<in> set (flagKeys f))
    \<longrightarrow> (\<exists>v. mget (snValues (buildSnapshot is)) (pathString p) = Some v)"
proof (intro impI, elim disjE conjE)
  assume "mapAsSource foldCase m \<in> set (isSources is)" "awf (AAnyMap (msData m))" "p \<in> set (mapKeys foldCase m)"
  with assms show "\<exists>v. mget (snValues (buildSnapshot is)) (pathString p) = Some v"
    by (intro map_source.listed_key_resolves[where s = m and foldCase = foldCase and src = "mapAsSource foldCase m"]) (simp_all add: mapAsSource_def)
next
  assume "familyAsSource name en fams \<in> set (isSources is)" "p \<in> set (familyKeys en fams)"
  with assms show "\<exists>v. mget (snValues (buildSnapshot is)) (pathString p) = Some v"
    by (intro family_source.listed_key_resolves[where s = "(en, fams)" and src = "familyAsSource name en fams"])
      (simp_all add: familyAsSource_def)
next
  assume "flagAsSource f \<in> set (isSources is)" "\<forall>n \<in> set (fsNames f). snd (fsLookup f n)" "p \<in> set (flagKeys f)"
  with assms show "\<exists>v. mget (snValues (buildSnapshot is)) (pathString p) = Some v"
    by (intro flag_source.listed_key_resolves[where s = f and src = "flagAsSource f"]) (simp_all add: flagAsSource_def)
qed

definition demoFlags :: flagSource where
  "demoFlags = \<lparr>fsName = ''flags'', fsNames = [''--port''], fsLookup = (\<lambda>_. (AStr ''80'', True)),
     fsTransform = defaultFlagPathTransform\<rparr>"

lemma listed_keys_have_values_witness:
  "\<exists>v. mget (snValues (buildSnapshot (demoInputs [flagAsSource demoFlags] MergeShadow))) ''port'' = Some v"
proof -
  let ?is = "demoInputs [flagAsSource demoFlags] MergeShadow"
  have p: "[''port''] \<in> set (flagKeys demoFlags)" "pathString [''port''] = ''port''" by code_simp+
  have fit: "aliasesFit ?is" by (simp add: demoInputs_def aliasRel_def acyclic_def)
  have names: "\<forall>t \<in> set (isSources ?is). srcName t \<noteq> []" by (simp add: demoInputs_def flagAsSource_def demoFlags_def)
  have "flagAsSource demoFlags \<in> set (isSources ?is)" "\<forall>n \<in> set (fsNames demoFlags). snd (fsLookup demoFlags n)"
    "mget (isPins ?is) (pathString [''port'']) = None" "mget (isAliases ?is) (pathString [''port'']) = None"
    by (simp_all add: demoInputs_def demoFlags_def p(2))
  with listed_keys_have_values[OF fit names, of "[''port'']" _ _ _ _ _ demoFlags] p show ?thesis by simp
qed

end
