(* ===== verification/Expand.thy ===== *)
theory Expand
  imports RegistryTheorems
begin

text \<open>
  \<open>expand.go\<close>: the substitution of \<open>${key}\<close> references by the values of a registry. The loop over the
  index of the code is a recursion on the rest of the text; the errors it returns with the text
  unchanged are \<open>Inl\<close>.
\<close>

datatype expandError =
    ExpandGet string regError
  | ExpandMissing string
  | ExpandRequired string string

definition refOpen :: string where
  "refOpen = ''${''"

definition expandRequired :: "formatters \<Rightarrow> path \<Rightarrow> registry \<Rightarrow> string \<Rightarrow> expandError + string" where
  "expandRequired fm prefix r key =
     (case regGet prefix key ReadGet r of
        Inl e \<Rightarrow> Inl (ExpandGet key e)
      | Inr None \<Rightarrow> Inl (ExpandMissing key)
      | Inr (Some v) \<Rightarrow> Inr (valueString fm v))"

definition expandWithDefault :: "formatters \<Rightarrow> path \<Rightarrow> registry \<Rightarrow> string \<Rightarrow> string \<Rightarrow> string" where
  "expandWithDefault fm prefix r key def =
     (case regGet prefix key ReadGet r of
        Inr (Some v) \<Rightarrow> if valueString fm v = [] then def else valueString fm v
      | _ \<Rightarrow> def)"

definition expandOrError ::
  "formatters \<Rightarrow> path \<Rightarrow> registry \<Rightarrow> string \<Rightarrow> string \<Rightarrow> expandError + string" where
  "expandOrError fm prefix r key msg =
     (case regGet prefix key ReadGet r of
        Inl e \<Rightarrow> Inl (ExpandGet key e)
      | Inr None \<Rightarrow> Inl (ExpandRequired key msg)
      | Inr (Some v) \<Rightarrow> Inr (valueString fm v))"

definition resolveExpandExpr :: "formatters \<Rightarrow> path \<Rightarrow> registry \<Rightarrow> string \<Rightarrow> expandError + string" where
  "resolveExpandExpr fm prefix r expr =
     (case cutStr expr '':'' of
        None \<Rightarrow> expandRequired fm prefix r expr
      | Some (key, modifier) \<Rightarrow>
          if hasPrefix modifier ''-'' then Inr (expandWithDefault fm prefix r key (drop 1 modifier))
          else if hasPrefix modifier ''?'' then expandOrError fm prefix r key (drop 1 modifier)
          else expandRequired fm prefix r expr)"

function expandLoop :: "(string \<Rightarrow> 'e + string) \<Rightarrow> string \<Rightarrow> 'e + string" where
  "expandLoop resolve s =
     (case cutStr s refOpen of
        None \<Rightarrow> Inr s
      | Some (before, rest) \<Rightarrow>
          (case cutStr rest ''}'' of
             None \<Rightarrow> Inr (before @ refOpen @ rest)
           | Some (expr, rest') \<Rightarrow>
               (case resolve expr of
                  Inl e \<Rightarrow> Inl e
                | Inr t \<Rightarrow>
                    (case expandLoop resolve rest' of
                       Inl e \<Rightarrow> Inl e
                     | Inr u \<Rightarrow> Inr (before @ t @ u)))))"
  by pat_completeness auto
termination
proof (relation "measure (\<lambda>(resolve, s). length s)")
  fix resolve :: "string \<Rightarrow> 'e + string" and s x before rest y expr rest' t
  assume "cutStr s refOpen = Some x" "(before, rest) = x" "cutStr rest ''}'' = Some y" "(expr, rest') = y"
  then have "cutStr s refOpen = Some (before, rest)" "cutStr rest ''}'' = Some (expr, rest')" by simp_all
  then show "((resolve, rest'), resolve, s) \<in> measure (\<lambda>(resolve, s). length s)"
    using cutStr_shorter[of s refOpen before rest] cutStr_shorter[of rest "''}''" expr rest']
    by (simp add: refOpen_def)
qed simp

declare expandLoop.simps [simp del]

definition expandValueRefs :: "formatters \<Rightarrow> path \<Rightarrow> registry \<Rightarrow> string \<Rightarrow> expandError + string" where
  "expandValueRefs fm prefix r s =
     (if \<not> containsStr s refOpen then Inr s else expandLoop (resolveExpandExpr fm prefix r) s)"


section \<open>Templates\<close>

text \<open>A text as literals, each followed by a reference, and a last literal; and what it stands for.\<close>

fun renderTemplate :: "(string \<times> string) list \<Rightarrow> string \<Rightarrow> string" where
  "renderTemplate [] tail = tail"
| "renderTemplate ((l, e) # ps) tail = l @ refOpen @ e @ ''}'' @ renderTemplate ps tail"

fun fillTemplate :: "(string \<Rightarrow> 'e + string) \<Rightarrow> (string \<times> string) list \<Rightarrow> string \<Rightarrow> 'e + string" where
  "fillTemplate f [] tail = Inr tail"
| "fillTemplate f ((l, e) # ps) tail =
     (case f e of
        Inl err \<Rightarrow> Inl err
      | Inr t \<Rightarrow> (case fillTemplate f ps tail of Inl err \<Rightarrow> Inl err | Inr u \<Rightarrow> Inr (l @ t @ u)))"

definition templateOk :: "(string \<times> string) list \<Rightarrow> string \<Rightarrow> bool" where
  "templateOk ps tail = (list_all (\<lambda>(l, e). \<not> containsStr l refOpen \<and> CHR ''}'' \<notin> set e) ps
     \<and> \<not> containsStr tail refOpen)"

lemma refOpen_prefix: "hasPrefix (c # s) refOpen \<longleftrightarrow> c = CHR ''$'' \<and> hasPrefix s ''{''"
  by (simp add: refOpen_def)

lemma not_containsStr: "\<not> containsStr s sub \<longleftrightarrow> cutStr s sub = None"
  unfolding containsStr_def by (metis)

lemma cut_literal:
  "\<not> containsStr l refOpen \<Longrightarrow> cutStr (l @ refOpen @ s) refOpen = Some (l, s)"
proof (induction l)
  case Nil
  then show ?case by (simp add: refOpen_def)
next
  case (Cons c l)
  have "\<not> hasPrefix (c # l) refOpen" "cutStr l refOpen = None"
    using Cons.prems by (auto simp: not_containsStr split: if_splits)
  moreover have "hasPrefix (c # l @ refOpen @ s) refOpen \<longleftrightarrow> hasPrefix (c # l) refOpen"
    by (cases l) (auto simp: refOpen_def)
  ultimately show ?case using Cons.IH by (simp add: not_containsStr)
qed

lemma cut_brace: "CHR ''}'' \<notin> set e \<Longrightarrow> cutStr (e @ ''}'' @ s) ''}'' = Some (e, s)"
  by (induction e) auto

lemma expandLoop_template:
  "templateOk ps tail \<Longrightarrow> expandLoop f (renderTemplate ps tail) = fillTemplate f ps tail"
proof (induction ps)
  case Nil
  then show ?case by (simp add: expandLoop.simps[of f tail] templateOk_def not_containsStr)
next
  case (Cons p ps)
  obtain l e where p: "p = (l, e)" by force
  let ?rest = "renderTemplate ps tail"
  have c: "cutStr (l @ refOpen @ e @ ''}'' @ ?rest) refOpen = Some (l, e @ ''}'' @ ?rest)"
    "cutStr (e @ ''}'' @ ?rest) ''}'' = Some (e, ?rest)"
    using Cons.prems p by (auto simp: templateOk_def intro!: cut_literal cut_brace simp del: append_Cons append_Nil)
  have "expandLoop f ?rest = fillTemplate f ps tail" using Cons by (simp add: templateOk_def)
  with c show ?case
    unfolding p renderTemplate.simps expandLoop.simps[of f "l @ refOpen @ e @ ''}'' @ ?rest"]
    by (simp cong: sum.case_cong)
qed

lemma plain_template: "\<not> containsStr (renderTemplate ps tail) refOpen \<Longrightarrow> templateOk ps tail \<Longrightarrow> ps = []"
proof (cases ps)
  case (Cons p qs)
  obtain l e where p: "p = (l, e)" by force
  assume "templateOk ps tail" "\<not> containsStr (renderTemplate ps tail) refOpen"
  with Cons p cut_literal[of l "e @ ''}'' @ renderTemplate qs tail"] show ?thesis
    by (simp add: templateOk_def containsStr_def)
qed simp


section \<open>Property\<close>

text \<open>
  A text of literals and references expands to the literals with each reference replaced by what
  it resolves to, in one pass (a replacement is not expanded again), or fails with the error of the
  first reference that does not resolve.
\<close>

theorem expand_template:
  assumes "templateOk ps tail"
  shows "expandValueRefs fm prefix r (renderTemplate ps tail)
    = fillTemplate (resolveExpandExpr fm prefix r) ps tail"
  using expandLoop_template[OF assms] plain_template[OF _ assms] by (auto simp: expandValueRefs_def)

lemma expand_template_witness:
  "expandValueRefs (rgFormat demoRegistry) [] (demoRegistry\<lparr>rgClosed := True\<rparr>) ''a${k:-b}c'' = Inr ''abc''"
proof -
  have "templateOk [(''a'', ''k:-b'')] ''c''" by code_simp
  from expand_template[OF this, of "rgFormat demoRegistry" "[]" "demoRegistry\<lparr>rgClosed := True\<rparr>"] show ?thesis
    by (simp add: refOpen_def resolveExpandExpr_def expandWithDefault_def regGet_def)
qed

end
