(* ===== verification/Tags.thy ===== *)
theory Tags
  imports Transforms
begin

text \<open>
  \<open>tags.go\<close> and the spelling of field names in \<open>bind_walker.go\<close> and \<open>coerce.go\<close>: struct tags, and the
  transforms a tag can ask for. \<open>strings.TrimSpace\<close> drops the ASCII spaces; the text of a tag is a Go
  source literal, and other Unicode spaces at the ends of its parts are not modelled.
\<close>

definition isSpaceByte :: "char \<Rightarrow> bool" where
  "isSpaceByte c = ((of_char c :: nat) \<in> {9, 10, 11, 12, 13, 32})"

definition trimLeft :: "string \<Rightarrow> string" where
  "trimLeft s = dropWhile isSpaceByte s"

definition trimSpace :: "string \<Rightarrow> string" where
  "trimSpace s = rev (trimLeft (rev (trimLeft s)))"

definition TagName :: string where
  "TagName = ''recon''"

definition fallbackTagNames :: "string list" where
  "fallbackTagNames = [''env'', ''json'', ''yaml'', ''toml'']"

record ftag =
  tgName :: string
  tgSkip :: bool
  tgPath :: string
  tgSource :: string
  tgFormat :: string
  tgAliases :: "string list"
  tgTransform :: string
  tgInline :: bool
  tgOmitEmpty :: bool
  tgRequired :: bool
  tgNotEmpty :: bool
  tgHasDefault :: bool
  tgDefault :: string
  tgSecret :: bool
  tgImmutable :: bool
  tgExpand :: bool
  tgFromFile :: bool
  tgUnset :: bool
  tgDeprecated :: bool
  tgDeprecation :: string
  tgValidate :: string
  tgLayout :: string
  tgBase64 :: bool
  tgHex :: bool
  tgSeparator :: string
  tgKVSeparator :: string

definition noTag :: ftag where
  "noTag = \<lparr>tgName = [], tgSkip = False, tgPath = [], tgSource = [], tgFormat = [], tgAliases = [],
     tgTransform = [], tgInline = False, tgOmitEmpty = False, tgRequired = False, tgNotEmpty = False,
     tgHasDefault = False, tgDefault = [], tgSecret = False, tgImmutable = False, tgExpand = False,
     tgFromFile = False, tgUnset = False, tgDeprecated = False, tgDeprecation = [], tgValidate = [],
     tgLayout = [], tgBase64 = False, tgHex = False, tgSeparator = [], tgKVSeparator = []\<rparr>"


section \<open>Parsing a tag\<close>

text \<open>The \<open>switch\<close> on the option's key; the value is \<open>None\<close> when the option has no \<open>=\<close>.\<close>

definition setFlag :: "string \<Rightarrow> ftag \<Rightarrow> ftag" where
  "setFlag key ft =
     (if key = ''required'' then ft\<lparr>tgRequired := True\<rparr>
      else if key = ''notEmpty'' then ft\<lparr>tgNotEmpty := True\<rparr>
      else if key = ''default'' then ft\<lparr>tgHasDefault := True\<rparr>
      else if key = ''secret'' then ft\<lparr>tgSecret := True\<rparr>
      else if key = ''immutable'' then ft\<lparr>tgImmutable := True\<rparr>
      else if key = ''expand'' then ft\<lparr>tgExpand := True\<rparr>
      else if key = ''fromFile'' then ft\<lparr>tgFromFile := True\<rparr>
      else if key = ''unset'' then ft\<lparr>tgUnset := True\<rparr>
      else if key = ''inline'' then ft\<lparr>tgInline := True\<rparr>
      else if key = ''omitempty'' then ft\<lparr>tgOmitEmpty := True\<rparr>
      else if key = ''base64'' then ft\<lparr>tgBase64 := True\<rparr>
      else if key = ''hex'' then ft\<lparr>tgHex := True\<rparr>
      else if key = ''deprecated'' then ft\<lparr>tgDeprecated := True\<rparr>
      else ft)"

definition setValue :: "string \<Rightarrow> string \<Rightarrow> ftag \<Rightarrow> ftag" where
  "setValue key v ft =
     (if key = ''default'' then ft\<lparr>tgDefault := v\<rparr>
      else if key = ''deprecated'' then ft\<lparr>tgDeprecation := v\<rparr>
      else if key = ''path'' then ft\<lparr>tgPath := v\<rparr>
      else if key = ''source'' then ft\<lparr>tgSource := v\<rparr>
      else if key = ''format'' then ft\<lparr>tgFormat := v\<rparr>
      else if key = ''transform'' then ft\<lparr>tgTransform := v\<rparr>
      else if key = ''layout'' then ft\<lparr>tgLayout := v\<rparr>
      else if key = ''validate'' then ft\<lparr>tgValidate := v\<rparr>
      else if key = ''separator'' then ft\<lparr>tgSeparator := v\<rparr>
      else if key = ''kvSeparator'' then ft\<lparr>tgKVSeparator := v\<rparr>
      else if key = ''aliases'' then
        ft\<lparr>tgAliases := tgAliases ft @ filter (\<lambda>a. a \<noteq> []) (map trimSpace (split v '';''))\<rparr>
      else ft)"

definition applyOption :: "string \<Rightarrow> ftag \<Rightarrow> ftag" where
  "applyOption raw ft =
     (let opt = trimSpace raw
      in if opt = [] then ft
         else case cutStr opt ''='' of
                None \<Rightarrow> setFlag opt ft
              | Some (k, v) \<Rightarrow> setValue (trimSpace k) (trimSpace v) (setFlag (trimSpace k) ft))"

text \<open>The loop cuts the rest of the tag at commas, which \<open>split\<close> does at once.\<close>

definition ParseTag :: "string \<Rightarrow> ftag" where
  "ParseTag s =
     (if s = [] then noTag
      else if s = ''-'' then noTag\<lparr>tgSkip := True\<rparr>
      else case cutStr s '','' of
             None \<Rightarrow> (let ft = noTag\<lparr>tgName := trimSpace s\<rparr>
                      in if tgName ft = ''-'' then ft\<lparr>tgSkip := True\<rparr> else ft)
           | Some (name, rest) \<Rightarrow>
               (let ft = noTag\<lparr>tgName := trimSpace name\<rparr>
                in if tgName ft = ''-'' then ft\<lparr>tgSkip := True\<rparr>
                   else fold applyOption (split rest '','') ft))"


section \<open>Spelling\<close>

definition isUpperAZ :: "char \<Rightarrow> bool" where
  "isUpperAZ c = (CHR ''A'' \<le> c \<and> c \<le> CHR ''Z'')"

text \<open>
  The loop of \<open>toSnakeCase\<close> is over runes; the bytes of a rune outside ASCII are not letters, so on
  valid UTF-8 it is the loop over bytes.
\<close>

fun snakeTail :: "string \<Rightarrow> string" where
  "snakeTail [] = []"
| "snakeTail (c # s) = (if isUpperAZ c then CHR ''_'' # lowerByte c # snakeTail s else c # snakeTail s)"

definition toSnakeCase :: "string \<Rightarrow> string" where
  "toSnakeCase s = (case s of [] \<Rightarrow> [] | c # t \<Rightarrow> lowerByte c # snakeTail t)"

definition capitalise :: "string \<Rightarrow> string" where
  "capitalise p = (case p of [] \<Rightarrow> [] | c # s \<Rightarrow> upperByte c # s)"

definition toCamelCase :: "string \<Rightarrow> string" where
  "toCamelCase s =
     (case split s ''_'' of
        [] \<Rightarrow> s
      | [p] \<Rightarrow> s
      | p # q # ps \<Rightarrow> p @ concat (map capitalise (q # ps)))"

definition applyTransform :: "string \<Rightarrow> string \<Rightarrow> string" where
  "applyTransform segment transform =
     (if transform = ''snake'' then toSnakeCase segment
      else if transform = ''kebab'' then replaceAll (toSnakeCase segment) ''_'' ''-''
      else if transform = ''camel'' then toCamelCase segment
      else if transform = ''upper'' then toUpper segment
      else if transform = ''lower'' then toLower segment
      else segment)"


section \<open>The tag of a field\<close>

text \<open>The tags of a struct field: tag name and text, as \<open>reflect.StructTag.Lookup\<close> finds them.\<close>

definition tagText :: "(string \<times> string) list \<Rightarrow> string \<Rightarrow> string" where
  "tagText tags name = (case map_of tags name of Some raw \<Rightarrow> raw | None \<Rightarrow> [])"

fun firstTag :: "(string \<times> string) list \<Rightarrow> string \<Rightarrow> string list \<Rightarrow> ftag option" where
  "firstTag tags primary [] = None"
| "firstTag tags primary (alt # alts) =
     (if alt = primary then firstTag tags primary alts
      else if tagText tags alt \<noteq> [] then Some ((ParseTag (tagText tags alt))\<lparr>tgOmitEmpty := False\<rparr>)
      else firstTag tags primary alts)"

definition fieldTag :: "(string \<times> string) list \<Rightarrow> string \<Rightarrow> ftag option" where
  "fieldTag tags primary0 =
     (let primary = (if primary0 = [] then TagName else primary0)
      in if tagText tags primary \<noteq> [] then Some (ParseTag (tagText tags primary))
         else firstTag tags primary fallbackTagNames)"

fun fieldKeyStep :: "(string \<times> string) list \<Rightarrow> string \<Rightarrow> string list \<Rightarrow> string" where
  "fieldKeyStep tags goName [] = toLower goName"
| "fieldKeyStep tags goName (n # ns) =
     (if tagText tags n = [] then fieldKeyStep tags goName ns
      else let ft = ParseTag (tagText tags n)
           in if tgSkip ft then []
              else if tgName ft \<noteq> [] then hd (split (tgName ft) ''.'')
              else fieldKeyStep tags goName ns)"

definition fieldKeyFromTag :: "(string \<times> string) list \<Rightarrow> string \<Rightarrow> string" where
  "fieldKeyFromTag tags goName = fieldKeyStep tags goName (TagName # fallbackTagNames)"



section \<open>Rendering a tag\<close>

text \<open>
  The text of a tag whose values carry no comma and no space at their ends: what \<open>ParseTag\<close> is meant
  to read back.
\<close>

definition cleanText :: "string \<Rightarrow> bool" where
  "cleanText v = (CHR '','' \<notin> set v \<and> (v \<noteq> [] \<longrightarrow> \<not> isSpaceByte (hd v) \<and> \<not> isSpaceByte (last v)))"

definition flagOpt :: "string \<Rightarrow> bool \<Rightarrow> string list" where
  "flagOpt key b = (if b then [key] else [])"

definition valueOpt :: "string \<Rightarrow> string \<Rightarrow> string list" where
  "valueOpt key v = (if v = [] then [] else [key @ ''='' @ v])"

definition renderFlags :: "ftag \<Rightarrow> string list list" where
  "renderFlags ft =
     [flagOpt ''required'' (tgRequired ft),
      flagOpt ''notEmpty'' (tgNotEmpty ft),
      flagOpt ''secret'' (tgSecret ft),
      flagOpt ''immutable'' (tgImmutable ft),
      flagOpt ''expand'' (tgExpand ft),
      flagOpt ''fromFile'' (tgFromFile ft),
      flagOpt ''unset'' (tgUnset ft),
      flagOpt ''inline'' (tgInline ft),
      flagOpt ''omitempty'' (tgOmitEmpty ft),
      flagOpt ''base64'' (tgBase64 ft),
      flagOpt ''hex'' (tgHex ft)]"

definition renderTexts :: "ftag \<Rightarrow> string list list" where
  "renderTexts ft =
     [valueOpt ''path'' (tgPath ft),
      valueOpt ''source'' (tgSource ft),
      valueOpt ''format'' (tgFormat ft),
      valueOpt ''transform'' (tgTransform ft),
      valueOpt ''layout'' (tgLayout ft),
      valueOpt ''validate'' (tgValidate ft),
      valueOpt ''separator'' (tgSeparator ft),
      valueOpt ''kvSeparator'' (tgKVSeparator ft)]"

definition renderRest :: "ftag \<Rightarrow> string list list" where
  "renderRest ft =
     [(if tgHasDefault ft then [''default='' @ tgDefault ft] else []),
      (if tgDeprecated ft
       then [if tgDeprecation ft = [] then ''deprecated'' else ''deprecated='' @ tgDeprecation ft] else []),
      (if tgAliases ft = [] then [] else [''aliases='' @ join (tgAliases ft) '';''])]"

definition renderOpts :: "ftag \<Rightarrow> string list" where
  "renderOpts ft = concat (renderFlags ft @ renderTexts ft @ renderRest ft)"

definition renderTag :: "ftag \<Rightarrow> string" where
  "renderTag ft = join (tgName ft # renderOpts ft) '',''"

definition cleanTag :: "ftag \<Rightarrow> bool" where
  "cleanTag ft = (\<not> tgSkip ft \<and> tgName ft \<noteq> ''-''
     \<and> (\<not> tgHasDefault ft \<longrightarrow> tgDefault ft = []) \<and> (\<not> tgDeprecated ft \<longrightarrow> tgDeprecation ft = [])
     \<and> (\<forall>v \<in> {tgName ft, tgDefault ft, tgDeprecation ft, tgPath ft, tgSource ft, tgFormat ft, tgTransform ft, tgLayout ft, tgValidate ft, tgSeparator ft, tgKVSeparator ft}. cleanText v)
     \<and> (\<forall>a \<in> set (tgAliases ft). a \<noteq> [] \<and> CHR '';'' \<notin> set a \<and> cleanText a))"

lemma isSpace_simps [simp]:
  "\<not> isSpaceByte (CHR ''='')" "\<not> isSpaceByte (CHR ''-'')" "\<not> isSpaceByte (CHR '';'')"
  by (simp_all add: isSpaceByte_def)

lemma trim_clean: "v = [] \<or> \<not> isSpaceByte (hd v) \<and> \<not> isSpaceByte (last v) \<Longrightarrow> trimSpace v = v"
proof (cases "v = []")
  case False
  assume "v = [] \<or> \<not> isSpaceByte (hd v) \<and> \<not> isSpaceByte (last v)"
  with False have "\<not> isSpaceByte (hd v)" "\<not> isSpaceByte (hd (rev v))" by (auto simp: hd_rev)
  then have "trimLeft v = v" "trimLeft (rev v) = rev v"
    using False by (auto simp: trimLeft_def dropWhile_eq_self_iff)
  then show ?thesis by (simp add: trimSpace_def)
qed (simp add: trimSpace_def trimLeft_def)

lemma trim_cleanText [simp]: "cleanText v \<Longrightarrow> trimSpace v = v"
  by (rule trim_clean) (auto simp: cleanText_def)

lemma cutStr_key: "CHR ''='' \<notin> set k \<Longrightarrow> cutStr (k @ CHR ''='' # v) ''='' = Some (k, v)"
  by (induction k) auto

lemma cutStr_none: "CHR ''='' \<notin> set k \<Longrightarrow> cutStr k ''='' = None"
  by (induction k) auto

text \<open>A key word of the grammar: no spaces, no \<open>=\<close>.\<close>

definition keyWord :: "string \<Rightarrow> bool" where
  "keyWord k = (k \<noteq> [] \<and> (\<forall>c \<in> set k. \<not> isSpaceByte c \<and> c \<noteq> CHR ''=''))"

lemma keyWord_clean: "keyWord k \<Longrightarrow> trimSpace k = k \<and> k \<noteq> []"
  by (intro conjI trim_clean) (auto simp: keyWord_def)

lemma applyOption_flag: "keyWord k \<Longrightarrow> applyOption k ft = setFlag k ft"
  by (simp add: applyOption_def keyWord_clean cutStr_none keyWord_def Let_def split: option.splits)
    (use cutStr_none in \<open>force simp: keyWord_def\<close>)

lemma applyOption_value:
  assumes "keyWord k" and "cleanText v"
  shows "applyOption (k @ CHR ''='' # v) ft = setValue k v (setFlag k ft)"
proof -
  have "trimSpace (k @ CHR ''='' # v) = k @ CHR ''='' # v"
    using assms by (intro trim_clean) (auto simp: keyWord_def cleanText_def hd_append)
  moreover have "cutStr (k @ CHR ''='' # v) ''='' = Some (k, v)"
    using assms by (intro cutStr_key) (auto simp: keyWord_def)
  ultimately show ?thesis using assms keyWord_clean[of k] by (simp add: applyOption_def Let_def)
qed

lemma keyWords:
  "keyWord ''required''" "keyWord ''notEmpty''" "keyWord ''secret''" "keyWord ''immutable''" "keyWord ''expand''" "keyWord ''fromFile''" "keyWord ''unset''" "keyWord ''inline''" "keyWord ''omitempty''" "keyWord ''base64''" "keyWord ''hex''" "keyWord ''default''" "keyWord ''deprecated''" "keyWord ''aliases''" "keyWord ''path''" "keyWord ''source''" "keyWord ''format''" "keyWord ''transform''" "keyWord ''layout''" "keyWord ''validate''" "keyWord ''separator''" "keyWord ''kvSeparator''"
  by (simp_all add: keyWord_def isSpaceByte_def)

lemma fold_valueOpt:
  "keyWord k \<Longrightarrow> cleanText v \<Longrightarrow>
   fold applyOption (valueOpt k v) t = (if v = [] then t else setValue k v (setFlag k t))"
  by (simp add: valueOpt_def applyOption_value)

lemma fold_flag:
  "fold applyOption (flagOpt ''required'' b) t = t\<lparr>tgRequired := tgRequired t \<or> b\<rparr>"
  "fold applyOption (flagOpt ''notEmpty'' b) t = t\<lparr>tgNotEmpty := tgNotEmpty t \<or> b\<rparr>"
  "fold applyOption (flagOpt ''secret'' b) t = t\<lparr>tgSecret := tgSecret t \<or> b\<rparr>"
  "fold applyOption (flagOpt ''immutable'' b) t = t\<lparr>tgImmutable := tgImmutable t \<or> b\<rparr>"
  "fold applyOption (flagOpt ''expand'' b) t = t\<lparr>tgExpand := tgExpand t \<or> b\<rparr>"
  "fold applyOption (flagOpt ''fromFile'' b) t = t\<lparr>tgFromFile := tgFromFile t \<or> b\<rparr>"
  "fold applyOption (flagOpt ''unset'' b) t = t\<lparr>tgUnset := tgUnset t \<or> b\<rparr>"
  "fold applyOption (flagOpt ''inline'' b) t = t\<lparr>tgInline := tgInline t \<or> b\<rparr>"
  "fold applyOption (flagOpt ''omitempty'' b) t = t\<lparr>tgOmitEmpty := tgOmitEmpty t \<or> b\<rparr>"
  "fold applyOption (flagOpt ''base64'' b) t = t\<lparr>tgBase64 := tgBase64 t \<or> b\<rparr>"
  "fold applyOption (flagOpt ''hex'' b) t = t\<lparr>tgHex := tgHex t \<or> b\<rparr>"
  by (simp_all add: flagOpt_def applyOption_flag keyWords setFlag_def)

lemma valueOpt_fold:
  "cleanText v \<Longrightarrow> fold applyOption (valueOpt ''path'' v) t = t\<lparr>tgPath := if v = [] then tgPath t else v\<rparr>"
  "cleanText v \<Longrightarrow> fold applyOption (valueOpt ''source'' v) t = t\<lparr>tgSource := if v = [] then tgSource t else v\<rparr>"
  "cleanText v \<Longrightarrow> fold applyOption (valueOpt ''format'' v) t = t\<lparr>tgFormat := if v = [] then tgFormat t else v\<rparr>"
  "cleanText v \<Longrightarrow> fold applyOption (valueOpt ''transform'' v) t = t\<lparr>tgTransform := if v = [] then tgTransform t else v\<rparr>"
  "cleanText v \<Longrightarrow> fold applyOption (valueOpt ''layout'' v) t = t\<lparr>tgLayout := if v = [] then tgLayout t else v\<rparr>"
  "cleanText v \<Longrightarrow> fold applyOption (valueOpt ''validate'' v) t = t\<lparr>tgValidate := if v = [] then tgValidate t else v\<rparr>"
  "cleanText v \<Longrightarrow> fold applyOption (valueOpt ''separator'' v) t = t\<lparr>tgSeparator := if v = [] then tgSeparator t else v\<rparr>"
  "cleanText v \<Longrightarrow> fold applyOption (valueOpt ''kvSeparator'' v) t = t\<lparr>tgKVSeparator := if v = [] then tgKVSeparator t else v\<rparr>"
  by (simp_all add: fold_valueOpt keyWords setFlag_def setValue_def)

lemma fold_default:
  "cleanText v \<Longrightarrow> fold applyOption (if b then [''default='' @ v] else []) t
     = (if b then t\<lparr>tgHasDefault := True, tgDefault := v\<rparr> else t)"
  using applyOption_value[of "''default''" v] by (simp add: keyWords setFlag_def setValue_def)

lemma fold_deprecated:
  "cleanText v \<Longrightarrow> fold applyOption (if b then [if v = [] then ''deprecated'' else ''deprecated='' @ v] else []) t
     = (if b then t\<lparr>tgDeprecated := True, tgDeprecation := if v = [] then tgDeprecation t else v\<rparr> else t)"
  using applyOption_value[of "''deprecated''" v] applyOption_flag[of "''deprecated''"]
  by (simp add: keyWords setFlag_def setValue_def)

lemma hd_join: "as \<noteq> [] \<Longrightarrow> hd as \<noteq> [] \<Longrightarrow> hd (join as sep) = hd (hd as)"
  by (cases as; cases "tl as") (auto simp: join_Cons hd_append)

lemma join_nonempty: "as \<noteq> [] \<Longrightarrow> last as \<noteq> [] \<Longrightarrow> join as sep \<noteq> []"
  by (induction as sep rule: join.induct) auto

lemma last_join: "as \<noteq> [] \<Longrightarrow> last as \<noteq> [] \<Longrightarrow> last (join as sep) = last (last as)"
proof (induction as sep rule: join.induct)
  case (3 s t ss sep)
  then show ?case using join_nonempty[of "t # ss" sep] by (auto simp: last_append)
qed auto

lemma cleanText_join:
  assumes "as \<noteq> []" and "\<forall>a \<in> set as. a \<noteq> [] \<and> cleanText a" and "CHR '','' \<notin> set sep"
  shows "cleanText (join as sep)"
proof -
  have "hd as \<in> set as" "last as \<in> set as" using assms(1) by auto
  moreover have "CHR '','' \<notin> set (join as sep)"
    using assms by (intro join_no_byte) (auto simp: cleanText_def)
  ultimately show ?thesis
    using assms hd_join[of as sep] last_join[of as sep] by (auto simp: cleanText_def)
qed

lemma fold_aliases:
  assumes "\<forall>a \<in> set as. a \<noteq> [] \<and> CHR '';'' \<notin> set a \<and> cleanText a"
  shows "fold applyOption (if as = [] then [] else [''aliases='' @ join as '';'']) t
     = t\<lparr>tgAliases := tgAliases t @ as\<rparr>"
proof (cases "as = []")
  case False
  have "cleanText (join as '';'')" using False assms by (intro cleanText_join) auto
  moreover have "split (join as '';'') '';'' = as" using False assms by (intro split_join_byte) auto
  moreover have "map trimSpace as = as" using assms by (simp add: map_idI)
  moreover have "filter (\<lambda>a. a \<noteq> []) as = as" using assms by simp
  ultimately show ?thesis
    using applyOption_value[of "''aliases''" "join as '';''" t] False
    by (simp add: keyWords setFlag_def setValue_def)
qed (cases t; simp)

lemma fold_options: "fold applyOption (concat oss) t = fold (fold applyOption) oss t"
  by (induction oss arbitrary: t) auto

lemma fold_renderFlags:
  "fold (fold applyOption) (renderFlags ft) t = t\<lparr>tgRequired := tgRequired t \<or> tgRequired ft, tgNotEmpty := tgNotEmpty t \<or> tgNotEmpty ft, tgSecret := tgSecret t \<or> tgSecret ft, tgImmutable := tgImmutable t \<or> tgImmutable ft, tgExpand := tgExpand t \<or> tgExpand ft, tgFromFile := tgFromFile t \<or> tgFromFile ft, tgUnset := tgUnset t \<or> tgUnset ft, tgInline := tgInline t \<or> tgInline ft, tgOmitEmpty := tgOmitEmpty t \<or> tgOmitEmpty ft, tgBase64 := tgBase64 t \<or> tgBase64 ft, tgHex := tgHex t \<or> tgHex ft\<rparr>"
  unfolding renderFlags_def by (cases t) (simp only: fold.simps comp_apply id_apply fold_flag, simp)

lemma fold_renderTexts:
  assumes "\<forall>v \<in> {tgPath ft, tgSource ft, tgFormat ft, tgTransform ft, tgLayout ft, tgValidate ft, tgSeparator ft, tgKVSeparator ft}. cleanText v"
  shows "fold (fold applyOption) (renderTexts ft) t =
    t\<lparr>tgPath := if tgPath ft = [] then tgPath t else tgPath ft, tgSource := if tgSource ft = [] then tgSource t else tgSource ft, tgFormat := if tgFormat ft = [] then tgFormat t else tgFormat ft, tgTransform := if tgTransform ft = [] then tgTransform t else tgTransform ft, tgLayout := if tgLayout ft = [] then tgLayout t else tgLayout ft, tgValidate := if tgValidate ft = [] then tgValidate t else tgValidate ft, tgSeparator := if tgSeparator ft = [] then tgSeparator t else tgSeparator ft, tgKVSeparator := if tgKVSeparator ft = [] then tgKVSeparator t else tgKVSeparator ft\<rparr>"
  using assms unfolding renderTexts_def
  by (cases t) (simp del: fold_simps add: valueOpt_fold fold.simps)

lemma renderOpts_fold:
  assumes "cleanTag ft"
  shows "fold applyOption (renderOpts ft) (noTag\<lparr>tgName := tgName ft\<rparr>) = ft"
proof -
  have c: "\<forall>v \<in> {tgPath ft, tgSource ft, tgFormat ft, tgTransform ft, tgLayout ft, tgValidate ft, tgSeparator ft, tgKVSeparator ft}. cleanText v"
    "cleanText (tgDefault ft)" "cleanText (tgDeprecation ft)"
    "\<forall>a \<in> set (tgAliases ft). a \<noteq> [] \<and> CHR '';'' \<notin> set a \<and> cleanText a"
    using assms by (simp_all add: cleanTag_def)
  have d: "\<not> tgHasDefault ft \<longrightarrow> tgDefault ft = []" "\<not> tgDeprecated ft \<longrightarrow> tgDeprecation ft = []" "\<not> tgSkip ft"
    using assms by (auto simp: cleanTag_def)
  have "fold (fold applyOption) (renderRest ft) t = (let u = (if tgHasDefault ft then t\<lparr>tgHasDefault := True, tgDefault := tgDefault ft\<rparr> else t);
      w = (if tgDeprecated ft then u\<lparr>tgDeprecated := True, tgDeprecation := if tgDeprecation ft = [] then tgDeprecation u else tgDeprecation ft\<rparr> else u)
      in w\<lparr>tgAliases := tgAliases w @ tgAliases ft\<rparr>)" for t
    unfolding renderRest_def fold.simps comp_apply id_apply fold_default[OF c(2)] fold_deprecated[OF c(3)]
      fold_aliases[OF c(4)] by (simp add: Let_def)
  then show ?thesis
    unfolding renderOpts_def fold_options fold_append comp_apply fold_renderFlags fold_renderTexts[OF c(1)]
    using d by (cases ft) (simp add: noTag_def Let_def)
qed

definition noComma :: "string \<Rightarrow> bool" where
  "noComma s = (CHR '','' \<notin> set s)"

lemma noComma_simps [simp]:
  "noComma []" "noComma (c # s) \<longleftrightarrow> c \<noteq> CHR '','' \<and> noComma s" "noComma (s @ t) \<longleftrightarrow> noComma s \<and> noComma t"
  by (auto simp: noComma_def)

lemma cleanText_noComma: "cleanText v \<Longrightarrow> noComma v"
  by (simp add: cleanText_def noComma_def)

lemma flagOpt_noComma: "noComma k \<Longrightarrow> list_all noComma (flagOpt k b)"
  by (simp add: flagOpt_def)

lemma valueOpt_noComma: "noComma k \<Longrightarrow> noComma v \<Longrightarrow> list_all noComma (valueOpt k v)"
  by (simp add: valueOpt_def)

lemma renderOpts_clean:
  assumes "cleanTag ft" and "opt \<in> set (renderOpts ft)"
  shows "CHR '','' \<notin> set opt"
proof -
  have "tgAliases ft \<noteq> [] \<Longrightarrow> cleanText (join (tgAliases ft) '';'')"
    using assms(1) by (intro cleanText_join) (auto simp: cleanTag_def)
  then have "list_all (list_all noComma) (renderRest ft)"
    using assms(1) by (simp add: renderRest_def cleanTag_def cleanText_noComma)
  moreover have "list_all (list_all noComma) (renderFlags ft)"
    unfolding renderFlags_def by (simp add: flagOpt_noComma)
  moreover have "list_all (list_all noComma) (renderTexts ft)"
    using assms(1) unfolding renderTexts_def by (simp add: valueOpt_noComma cleanTag_def cleanText_noComma)
  ultimately have "\<forall>opt \<in> set (renderOpts ft). noComma opt"
    unfolding renderOpts_def by (auto simp: list_all_iff)
  with assms(2) show ?thesis by (simp add: noComma_def)
qed

lemma ParseTag_cut:
  assumes "CHR '','' \<notin> set n" and "n \<noteq> ''-''" and "trimSpace n = n" and "\<forall>opt \<in> set opts. CHR '','' \<notin> set opt"
  shows "ParseTag (join (n # opts) '','') = fold applyOption opts (noTag\<lparr>tgName := n\<rparr>)"
proof (cases "opts = []")
  case True
  have "cutStr n '','' = None" using assms(1) by (induction n) auto
  then show ?thesis using True assms by (auto simp: ParseTag_def noTag_def Let_def)
next
  case False
  have cut: "cutStr (n @ CHR '','' # r) '','' = Some (n, r)" for r
    using assms(1) by (induction n) auto
  have "split (join opts '','') '','' = opts" using False assms(4) by (intro split_join_byte) auto
  moreover have "join (n # opts) '','' = n @ CHR '','' # join opts '',''" using False by (simp add: join_Cons)
  moreover have "n @ CHR '','' # join opts '','' \<noteq> ''-''" by (cases n) auto
  ultimately show ?thesis using cut assms(2,3) by (simp add: ParseTag_def Let_def)
qed


section \<open>Properties\<close>

text \<open>
  Parsing the text of a tag gives back the tag, for every combination of options: names and
  values without commas, spaces at their ends or (in an alias) semicolons, and no default or
  deprecation text without the option.
\<close>

theorem ParseTag_renderTag:
  assumes "cleanTag ft"
  shows "ParseTag (renderTag ft) = ft"
proof -
  have n: "cleanText (tgName ft)" "tgName ft \<noteq> ''-''" using assms by (auto simp: cleanTag_def)
  then have "CHR '','' \<notin> set (tgName ft)" "trimSpace (tgName ft) = tgName ft" by (auto simp: cleanText_def)
  with n(2) show ?thesis
    unfolding renderTag_def
    using ParseTag_cut[of "tgName ft" "renderOpts ft"] renderOpts_clean[OF assms] renderOpts_fold[OF assms] by simp
qed

lemma ParseTag_renderTag_witness:
  "ParseTag (renderTag (noTag\<lparr>tgName := ''db.dsn'', tgRequired := True, tgHasDefault := True,
       tgDefault := ''x'', tgAliases := [''old'', ''older'']\<rparr>))
   = noTag\<lparr>tgName := ''db.dsn'', tgRequired := True, tgHasDefault := True,
       tgDefault := ''x'', tgAliases := [''old'', ''older'']\<rparr>"
  by (rule ParseTag_renderTag) (simp add: cleanTag_def cleanText_def noTag_def isSpaceByte_def)

end
