(* ===== verification/Coerce.thy ===== *)
theory Coerce
  imports Tags
begin

text \<open>
  \<open>coerce.go\<close>: the conversion of a value into a Go destination. A destination type is a \<open>gtype\<close>; the
  value in it, which pointers and structs keep parts of, is a \<open>gval\<close>. Types are finite terms, so a
  struct that leads back to its own type is not modelled, and with it the list of types already
  being inlined, which only such a type can be in.

  A type with a decoding hook (\<open>Unmarshaler\<close>, \<open>UnmarshalEnv\<close>, \<open>encoding.TextUnmarshaler\<close>) is
  \<open>TyHook\<close>, its decoder a parameter; so are \<open>time.Parse\<close>, \<open>time.ParseDuration\<close>, the base64 and hex
  decoders and the reading of a file. \<open>coerceWith\<close> gives the value the destination holds after a conversion
  that succeeds, or the error; \<open>coerceLeft\<close> what the destination holds after one that fails: a nil pointer
  may have been allocated and a struct filled up to the field that failed. A map is bound in key order, where Go's order is open. The store of a float64 into a
  float32 field is kept as the float64 it rounds from.
\<close>

datatype hookKind = HookRecon | HookEnv | HookText

datatype mapKey = StringKey | NamedStringKey | OtherKey

record sfield =
  sfName :: string
  sfTags :: "(string \<times> string) list"
  sfExported :: bool
  sfAnonymous :: bool

datatype gtype =
    TyString
  | TyBool
  | TyInt nat
  | TyUint nat
  | TyFloat nat
  | TyTime
  | TyDuration
  | TySlice gtype
  | TyArray nat gtype
  | TyMap mapKey gtype
  | TyPtr gtype
  | TyStruct "(sfield \<times> gtype) list"
  | TyIface bool
  | TyHook hookKind string gtype
  | TyOther string

datatype gval =
    GvString string
  | GvBool bool
  | GvInt int64
  | GvUint uint64
  | GvFloat float64
  | GvTime gotime
  | GvDur int64
  | GvSlice "gval list option"
  | GvBytes "string option"
  | GvArray "gval list"
  | GvMap "(string \<times> gval) list option"
  | GvPtr "gval option"
  | GvStruct "gval list"
  | GvIface "gval option"
  | GvAny goany
  | GvHooked string
  | GvUnset

datatype cerr =
    CMismatch valueKind string
  | CNotInt float64
  | COverflowInt64 float64
  | CNotBool int64
  | CBadText string
  | COverflowsInt int64
  | COverflowsUint uint64
  | COverflowsFloat float64
  | CNegative int64
  | CByteRange nat int64
  | CLength nat nat
  | CElement nat cerr
  | CEntry string cerr
  | CField string cerr
  | CByte nat cerr
  | CKeyNotFound
  | CEmptyValue
  | CEmptyFilePath
  | CReadFile string
  | CExpand string
  | CHook string
  | CPanic

record coerceEnv =
  ceFormat :: formatters
  ceTimeParse :: "string \<Rightarrow> string \<Rightarrow> gotime option"
  ceZeroTime :: gotime
  ceParseDuration :: "string \<Rightarrow> int64 option"
  ceBase64 :: "string \<Rightarrow> string option"
  ceHex :: "string \<Rightarrow> string option"
  ceHookValue :: "string \<Rightarrow> govalue \<Rightarrow> string + gval"
  ceHookText :: "string \<Rightarrow> string \<Rightarrow> string + gval"
  ceHookLeft :: "string \<Rightarrow> govalue \<Rightarrow> gval \<Rightarrow> gval"
  ceReadFile :: "string \<Rightarrow> string + string"
  ceTagName :: string
  ceExpand :: "(string \<Rightarrow> string + string) option"

text \<open>\<open>reflect.Zero\<close>.\<close>

primrec zeroVal :: "gotime \<Rightarrow> gtype \<Rightarrow> gval" where
  "zeroVal z TyString = GvString []"
| "zeroVal z TyBool = GvBool False"
| "zeroVal z (TyInt n) = GvInt 0"
| "zeroVal z (TyUint n) = GvUint 0"
| "zeroVal z (TyFloat n) = GvFloat 0"
| "zeroVal z TyTime = GvTime z"
| "zeroVal z TyDuration = GvDur 0"
| "zeroVal z (TySlice T) = (if T = TyUint 8 then GvBytes None else GvSlice None)"
| "zeroVal z (TyArray n T) = GvArray (replicate n (zeroVal z T))"
| "zeroVal z (TyMap k T) = GvMap None"
| "zeroVal z (TyPtr T) = GvPtr None"
| "zeroVal z (TyStruct fs) = GvStruct (map snd (map (map_prod id (zeroVal z)) fs))"
| "zeroVal z (TyIface b) = GvIface None"
| "zeroVal z (TyHook k name T) = zeroVal z T"
| "zeroVal z (TyOther name) = GvUnset"


section \<open>Scalars\<close>

definition trueTexts :: "string list" where
  "trueTexts = [''1'', ''t'', ''T'', ''true'', ''TRUE'', ''True'']"

definition falseTexts :: "string list" where
  "falseTexts = [''0'', ''f'', ''F'', ''false'', ''FALSE'', ''False'']"

text \<open>\<open>strconv.ParseBool\<close>, then the words in any case.\<close>

definition parseBool :: "string \<Rightarrow> bool option" where
  "parseBool s =
     (if s \<in> set trueTexts then Some True
      else if s \<in> set falseTexts then Some False
      else if toLower s \<in> {''true'', ''yes'', ''on''} then Some True
      else if toLower s \<in> {''false'', ''no'', ''off''} then Some False
      else None)"

definition maxFloatBelowInt64Max :: float64 where
  "maxFloatBelowInt64Max = floatOfInt (2 ^ 63 - 1024)"

definition minInt64Float :: float64 where
  "minInt64Float = floatOfInt (2 ^ 63)"

text \<open>
  \<open>valueAsInt64\<close>. \<open>big.Float\<close> truncates exactly, and reports an exact conversion when nothing was
  cut off, that is when the scaled value is a multiple of the scale.
\<close>

definition floatAsInt64 :: "float64 \<Rightarrow> cerr + int64" where
  "floatAsInt64 f =
     (if flt f minInt64Float \<or> flt maxFloatBelowInt64Max f then Inl (COverflowInt64 f)
      else if isNaN f then Inl (CNotInt f)
      else if 2 ^ unitExp dvd fscaled f then Inr (of_int (fscaled f div 2 ^ unitExp))
      else Inl (CNotInt f))"

definition valueAsInt64 :: "govalue \<Rightarrow> cerr + int64" where
  "valueAsInt64 v =
     (case vdata v of
        IntV i \<Rightarrow> Inr i
      | FloatV f \<Rightarrow> floatAsInt64 f
      | StringV s _ _ \<Rightarrow> (case parseInt0 s of Some i \<Rightarrow> Inr i | None \<Rightarrow> Inl (CBadText s))
      | DurationV d \<Rightarrow> Inr d
      | d \<Rightarrow> Inl (CMismatch (kindOf d) ''int''))"

definition valueAsFloat64 :: "govalue \<Rightarrow> cerr + float64" where
  "valueAsFloat64 v =
     (case vdata v of
        FloatV f \<Rightarrow> Inr f
      | IntV i \<Rightarrow> Inr (floatOfInt i)
      | StringV s _ _ \<Rightarrow> (case parseFloat s of Some f \<Rightarrow> Inr f | None \<Rightarrow> Inl (CBadText s))
      | d \<Rightarrow> Inl (CMismatch (kindOf d) ''float''))"

definition coerceBool :: "govalue \<Rightarrow> cerr + gval" where
  "coerceBool v =
     (case vdata v of
        IntV i \<Rightarrow> if i = 0 \<or> i = 1 then Inr (GvBool (i = 1)) else Inl (CNotBool i)
      | BoolV b \<Rightarrow> Inr (GvBool b)
      | StringV s _ _ \<Rightarrow> (case parseBool s of Some b \<Rightarrow> Inr (GvBool b) | None \<Rightarrow> Inl (CBadText s))
      | d \<Rightarrow> Inl (CMismatch (kindOf d) ''bool''))"

text \<open>\<open>reflect.Value.OverflowInt\<close> and its siblings, for a destination of a width.\<close>

definition overflowInt :: "nat \<Rightarrow> int64 \<Rightarrow> bool" where
  "overflowInt bits i = (\<not> (- (2 ^ (bits - 1)) \<le> sint i \<and> sint i < 2 ^ (bits - 1)))"

definition overflowUint :: "nat \<Rightarrow> uint64 \<Rightarrow> bool" where
  "overflowUint bits u = (\<not> uint u < 2 ^ bits)"

definition maxFloat32Scaled :: int where
  "maxFloat32Scaled = (2 ^ 24 - 1) * 2 ^ 104 * 2 ^ unitExp"

definition overflowFloat :: "nat \<Rightarrow> float64 \<Rightarrow> bool" where
  "overflowFloat bits f = (bits = 32 \<and> \<not> isNaN f \<and> \<not> isInf f \<and> maxFloat32Scaled < abs (fscaled f))"

definition coerceInt :: "nat \<Rightarrow> govalue \<Rightarrow> cerr + gval" where
  "coerceInt bits v =
     (case valueAsInt64 v of
        Inl e \<Rightarrow> Inl e
      | Inr i \<Rightarrow> if overflowInt bits i then Inl (COverflowsInt i) else Inr (GvInt i))"

definition coerceUint :: "nat \<Rightarrow> govalue \<Rightarrow> cerr + gval" where
  "coerceUint bits v =
     (case (case vdata v of
              StringV s _ _ \<Rightarrow> (case parseUint0 s of Some u \<Rightarrow> Inr u | None \<Rightarrow> Inl (CBadText s))
            | _ \<Rightarrow> (case valueAsInt64 v of
                     Inl e \<Rightarrow> Inl e
                   | Inr i \<Rightarrow> if sint i < 0 then Inl (CNegative i) else Inr i)) of
        Inl e \<Rightarrow> Inl e
      | Inr u \<Rightarrow> if overflowUint bits u then Inl (COverflowsUint u) else Inr (GvUint u))"

definition coerceFloat :: "nat \<Rightarrow> govalue \<Rightarrow> cerr + gval" where
  "coerceFloat bits v =
     (case valueAsFloat64 v of
        Inl e \<Rightarrow> Inl e
      | Inr f \<Rightarrow> if overflowFloat bits f then Inl (COverflowsFloat f) else Inr (GvFloat f))"

definition coerceTime :: "coerceEnv \<Rightarrow> govalue \<Rightarrow> ftag \<Rightarrow> cerr + gval" where
  "coerceTime E v tag =
     (case vdata v of
        TimeV t \<Rightarrow> Inr (GvTime t)
      | StringV s _ _ \<Rightarrow>
          (case parseTimeText (ceTimeParse E) s
                  (if tgLayout tag = [] then timeRFC3339 else tgLayout tag) (tgLayout tag = []) of
             Some t \<Rightarrow> Inr (GvTime t)
           | None \<Rightarrow> Inl (CBadText s))
      | d \<Rightarrow> Inl (CMismatch (kindOf d) ''time.Time''))"

definition coerceDuration :: "coerceEnv \<Rightarrow> govalue \<Rightarrow> cerr + gval" where
  "coerceDuration E v =
     (case vdata v of
        DurationV d \<Rightarrow> Inr (GvDur d)
      | StringV s _ _ \<Rightarrow> (case ceParseDuration E s of Some d \<Rightarrow> Inr (GvDur d) | None \<Rightarrow> Inl (CBadText s))
      | IntV i \<Rightarrow> Inr (GvDur i)
      | d \<Rightarrow> Inl (CMismatch (kindOf d) ''time.Duration''))"



section \<open>Texts split into lists and maps\<close>

definition sepOf :: "ftag \<Rightarrow> string" where
  "sepOf tag = (if tgSeparator tag = [] then '','' else tgSeparator tag)"

definition kvSepOf :: "ftag \<Rightarrow> string" where
  "kvSepOf tag = (if tgKVSeparator tag = [] then ''='' else tgKVSeparator tag)"

definition textValue :: "string \<Rightarrow> govalue" where
  "textValue s = NewValue (AStr s)"

definition parseEntry :: "string \<Rightarrow> string \<Rightarrow> govalue gomap \<Rightarrow> govalue gomap" where
  "parseEntry kv raw out =
     (let entry = trimSpace raw
      in if entry = [] then out
         else case cutStr entry kv of
                None \<Rightarrow> mput entry (textValue []) out
              | Some (k, v) \<Rightarrow>
                  if trimSpace k = [] then out else mput (trimSpace k) (textValue (trimSpace v)) out)"

definition parseStringMap :: "string \<Rightarrow> string \<Rightarrow> string \<Rightarrow> govalue gomap" where
  "parseStringMap s sep kv = fold (parseEntry kv) (split s sep) []"

text \<open>The elements \<open>coerceSlice\<close> fills a slice from; \<open>None\<close> for the empty text, an empty slice.\<close>

definition sliceElements :: "govalue \<Rightarrow> ftag \<Rightarrow> cerr + govalue list" where
  "sliceElements v tag =
     (case vdata v of
        SliceV xs \<Rightarrow> Inr xs
      | StringV s _ _ \<Rightarrow>
          Inr (if s = [] then [] else map (\<lambda>p. textValue (trimSpace p)) (split s (sepOf tag)))
      | d \<Rightarrow> Inl (CMismatch (kindOf d) ''slice''))"

definition mapEntries :: "govalue \<Rightarrow> ftag \<Rightarrow> cerr + govalue gomap" where
  "mapEntries v tag =
     (case vdata v of
        MapV m \<Rightarrow> Inr m
      | StringV s _ _ \<Rightarrow> Inr (parseStringMap s (sepOf tag) (kvSepOf tag))
      | d \<Rightarrow> Inl (CMismatch (kindOf d) ''map''))"

text \<open>\<open>coerceBytes\<close>.\<close>

fun byteElements :: "nat \<Rightarrow> govalue list \<Rightarrow> cerr + string" where
  "byteElements i [] = Inr []"
| "byteElements i (v # vs) =
     (case valueAsInt64 v of
        Inl e \<Rightarrow> Inl (CByte i e)
      | Inr n \<Rightarrow>
          if sint n < 0 \<or> 255 < sint n then Inl (CByteRange i n)
          else (case byteElements (i + 1) vs of
                  Inl e \<Rightarrow> Inl e
                | Inr bs \<Rightarrow> Inr (char_of (nat (sint n)) # bs)))"

definition coerceBytes :: "coerceEnv \<Rightarrow> govalue \<Rightarrow> ftag \<Rightarrow> cerr + string" where
  "coerceBytes E v tag =
     (case vdata v of
        StringV s _ _ \<Rightarrow>
          if tgBase64 tag then (case ceBase64 E s of Some b \<Rightarrow> Inr b | None \<Rightarrow> Inl (CBadText s))
          else if tgHex tag then (case ceHex E s of Some b \<Rightarrow> Inr b | None \<Rightarrow> Inl (CBadText s))
          else Inr s
      | SliceV xs \<Rightarrow> byteElements 0 xs
      | d \<Rightarrow> Inl (CMismatch (kindOf d) ''[]byte''))"


section \<open>Struct elements\<close>

text \<open>\<open>lookupElementPath\<close>: the entry at a path of segments, through nested maps.\<close>

fun lookupElementPath :: "govalue gomap \<Rightarrow> path \<Rightarrow> string \<Rightarrow> govalue option" where
  "lookupElementPath m [] transform = None"
| "lookupElementPath m (seg # p) transform =
     (case mget m (applyTransform seg transform) of
        None \<Rightarrow> None
      | Some v \<Rightarrow>
          if p = [] then Some v
          else (case vdata v of MapV n \<Rightarrow> lookupElementPath n p transform | _ \<Rightarrow> None))"

fun firstAlias :: "govalue gomap \<Rightarrow> string list \<Rightarrow> govalue option" where
  "firstAlias m [] = None"
| "firstAlias m (a # as) =
     (case lookupElementPath m (ParsePath a) [] of Some v \<Rightarrow> Some v | None \<Rightarrow> firstAlias m as)"

definition orElse :: "'a option \<Rightarrow> 'a option \<Rightarrow> 'a option" where
  "orElse a b = (case a of Some x \<Rightarrow> Some x | None \<Rightarrow> b)"

definition lookupElementKey :: "govalue gomap \<Rightarrow> sfield \<Rightarrow> ftag \<Rightarrow> govalue option" where
  "lookupElementKey m sf tag =
     orElse
       (if tgName tag \<noteq> []
        then lookupElementPath m
               (if CHR ''.'' \<in> set (tgName tag) \<or> lbrack \<in> set (tgName tag)
                then ParsePath (tgName tag) else [tgName tag]) (tgTransform tag)
        else orElse (mget m (applyTransform (toSnakeCase (sfName sf)) (tgTransform tag)))
               (mget m (toLower (sfName sf))))
       (firstAlias m (tgAliases tag))"

definition isEmptyValue :: "formatters \<Rightarrow> govalue \<Rightarrow> bool" where
  "isEmptyValue fm v =
     (case vdata v of
        NullV \<Rightarrow> True
      | SliceV xs \<Rightarrow> xs = []
      | MapV m \<Rightarrow> m = []
      | _ \<Rightarrow> valueString fm v = [])"

text \<open>
  \<open>bindElementField\<close> up to the conversion: the value a field of a struct element is filled from,
  \<open>Inr None\<close> when it stays as it is.
\<close>

definition elementSource :: "coerceEnv \<Rightarrow> govalue gomap \<Rightarrow> sfield \<Rightarrow> ftag \<Rightarrow> cerr + govalue option" where
  "elementSource E m sf tag =
     (case lookupElementKey m sf tag of
        Some v \<Rightarrow>
          if Kind v = NullKind \<and> (tgRequired tag \<or> tgHasDefault tag)
          then (if tgHasDefault tag then Inr (Some (textValue (tgDefault tag))) else Inl CKeyNotFound)
          else Inr (Some v)
      | None \<Rightarrow>
          if tgHasDefault tag then Inr (Some (textValue (tgDefault tag)))
          else if tgRequired tag then Inl CKeyNotFound
          else Inr None)"

definition elementFile :: "coerceEnv \<Rightarrow> ftag \<Rightarrow> govalue \<Rightarrow> cerr + govalue" where
  "elementFile E tag v =
     (if \<not> tgFromFile tag then Inr v
      else let p = valueString (ceFormat E) v
           in if p = [] then Inl CEmptyFilePath
              else (case ceReadFile E p of Inl e \<Rightarrow> Inl (CReadFile e) | Inr bs \<Rightarrow> Inr (textValue bs)))"

definition elementExpand :: "coerceEnv \<Rightarrow> ftag \<Rightarrow> govalue \<Rightarrow> cerr + govalue" where
  "elementExpand E tag v =
     (case (tgExpand tag, ceExpand E, vdata v) of
        (True, Some expand, StringV s _ _) \<Rightarrow>
          (case expand s of Inl e \<Rightarrow> Inl (CExpand e) | Inr t \<Rightarrow> Inr (textValue t))
      | _ \<Rightarrow> Inr v)"

definition elementValue :: "coerceEnv \<Rightarrow> govalue gomap \<Rightarrow> sfield \<Rightarrow> ftag \<Rightarrow> cerr + govalue option" where
  "elementValue E m sf tag =
     (case elementSource E m sf tag of
        Inl e \<Rightarrow> Inl e
      | Inr None \<Rightarrow> Inr None
      | Inr (Some v0) \<Rightarrow>
          (case elementFile E tag v0 of
             Inl e \<Rightarrow> Inl e
           | Inr v1 \<Rightarrow>
               (case elementExpand E tag v1 of
                  Inl e \<Rightarrow> Inl e
                | Inr v2 \<Rightarrow>
                    if tgNotEmpty tag \<and> isEmptyValue (ceFormat E) v2 then Inl CEmptyValue
                    else Inr (Some v2))))"

text \<open>\<open>structTarget\<close>: the fields of the struct a type is or points to.\<close>

fun structFields :: "gtype \<Rightarrow> (sfield \<times> gtype) list option" where
  "structFields (TyStruct fs) = Some fs"
| "structFields (TyPtr (TyStruct fs)) = Some fs"
| "structFields T = None"

text \<open>The field values in a struct destination, allocating what is nil.\<close>

definition structVals :: "gotime \<Rightarrow> (sfield \<times> gtype) list \<Rightarrow> gval \<Rightarrow> gval list" where
  "structVals z fs cur =
     (case cur of
        GvStruct xs \<Rightarrow> xs
      | GvPtr (Some (GvStruct xs)) \<Rightarrow> xs
      | _ \<Rightarrow> map (\<lambda>(sf, T). zeroVal z T) fs)"

fun wrapStruct :: "gtype \<Rightarrow> gval list \<Rightarrow> gval" where
  "wrapStruct (TyPtr T) xs = GvPtr (Some (GvStruct xs))"
| "wrapStruct T xs = GvStruct xs"


section \<open>The conversion\<close>

definition hookInput :: "coerceEnv \<Rightarrow> hookKind \<Rightarrow> string \<Rightarrow> govalue \<Rightarrow> cerr + gval" where
  "hookInput E k name v =
     (case (if k = HookRecon then ceHookValue E name v else ceHookText E name (valueString (ceFormat E) v)) of
        Inl e \<Rightarrow> Inl (CHook e) | Inr x \<Rightarrow> Inr x)"

definition inlineField :: "sfield \<Rightarrow> ftag \<Rightarrow> bool" where
  "inlineField sf tag = (tgInline tag \<or> sfAnonymous sf \<and> tgName tag = [])"

definition tagOf :: "coerceEnv \<Rightarrow> sfield \<Rightarrow> ftag" where
  "tagOf E sf = (case fieldTag (sfTags sf) (ceTagName E) of Some t \<Rightarrow> t | None \<Rightarrow> noTag)"

text \<open>The elements of a slice value, to be copied into an array.\<close>

fun elemsOf :: "gval \<Rightarrow> gval list" where
  "elemsOf (GvSlice (Some xs)) = xs"
| "elemsOf (GvBytes (Some bs)) = map (\<lambda>c. GvUint (of_nat (of_char c))) bs"
| "elemsOf g = []"

text \<open>What is at a pointer, or a new zero value.\<close>

definition pointee :: "gotime \<Rightarrow> gtype \<Rightarrow> gval \<Rightarrow> gval" where
  "pointee z T cur = (case cur of GvPtr (Some x) \<Rightarrow> x | _ \<Rightarrow> zeroVal z T)"

lemma size_mapV: "vdata v = MapV m \<Longrightarrow> size_list (\<lambda>(k, w). size w) m < size v"
proof -
  have "size_list (\<lambda>(k, w). size w) m \<le> size_list (size_prod (\<lambda>_. 0) size) m"
    by (induction m) auto
  then show "vdata v = MapV m \<Longrightarrow> ?thesis" by (cases v) auto
qed

lemma size_sliceV: "vdata v = SliceV xs \<Longrightarrow> size_list size xs < size v"
  by (cases v) auto

function (sequential)
  coerceWith :: "coerceEnv \<Rightarrow> gtype \<Rightarrow> govalue \<Rightarrow> ftag \<Rightarrow> gval \<Rightarrow> cerr + gval"
  and coerceElems :: "coerceEnv \<Rightarrow> gtype \<Rightarrow> nat \<Rightarrow> govalue list \<Rightarrow> ftag \<Rightarrow> cerr + gval list"
  and coerceEntries :: "coerceEnv \<Rightarrow> gtype \<Rightarrow> (string \<times> govalue) list \<Rightarrow> cerr + (string \<times> gval) list"
  and bindStructFields ::
    "coerceEnv \<Rightarrow> (sfield \<times> gtype) list \<Rightarrow> govalue gomap \<Rightarrow> gval list \<Rightarrow> cerr + gval list"
where
  "coerceWith E T v tag cur =
     (if Kind v = NullKind
      then (case T of TyHook HookRecon name U \<Rightarrow> hookInput E HookRecon name v
            | _ \<Rightarrow> Inr (zeroVal (ceZeroTime E) T))
      else case T of
        TyTime \<Rightarrow> coerceTime E v tag
      | TyHook k name U \<Rightarrow> hookInput E k name v
      | TyPtr U \<Rightarrow>
          (case coerceWith E U v tag (pointee (ceZeroTime E) U cur) of
             Inl e \<Rightarrow> Inl e | Inr x \<Rightarrow> Inr (GvPtr (Some x)))
      | TyDuration \<Rightarrow> coerceDuration E v
      | TyString \<Rightarrow> Inr (GvString (valueString (ceFormat E) v))
      | TyBool \<Rightarrow> coerceBool v
      | TyInt bits \<Rightarrow> coerceInt bits v
      | TyUint bits \<Rightarrow> coerceUint bits v
      | TyFloat bits \<Rightarrow> coerceFloat bits v
      | TySlice U \<Rightarrow>
          if U = TyUint 8
          then (case coerceBytes E v tag of Inl e \<Rightarrow> Inl e | Inr bs \<Rightarrow> Inr (GvBytes (Some bs)))
          else (case sliceElements v tag of
                  Inl e \<Rightarrow> Inl e
                | Inr els \<Rightarrow>
                    (case coerceElems E U 0 els (noTag\<lparr>tgSeparator := tgSeparator tag\<rparr>) of
                       Inl e \<Rightarrow> Inl e | Inr xs \<Rightarrow> Inr (GvSlice (Some xs))))
      | TyArray n U \<Rightarrow>
          if U = TyUint 8
          then (case coerceBytes E v tag of
                  Inl e \<Rightarrow> Inl e
                | Inr bs \<Rightarrow> if length bs \<noteq> n then Inl (CLength (length bs) n)
                            else Inr (GvArray (elemsOf (GvBytes (Some bs)))))
          else (case sliceElements v tag of
                  Inl e \<Rightarrow> Inl e
                | Inr els \<Rightarrow>
                    (case coerceElems E U 0 els (noTag\<lparr>tgSeparator := tgSeparator tag\<rparr>) of
                       Inl e \<Rightarrow> Inl e
                     | Inr xs \<Rightarrow> if length xs \<noteq> n then Inl (CLength (length xs) n) else Inr (GvArray xs)))
      | TyMap k U \<Rightarrow>
          if k = OtherKey then Inl (CMismatch (Kind v) ''map key must be string'')
          else (case mapEntries v tag of
                  Inl e \<Rightarrow> Inl e
                | Inr m \<Rightarrow>
                    (case coerceEntries E U m of
                       Inl e \<Rightarrow> Inl e
                     | Inr xs \<Rightarrow> if k = NamedStringKey \<and> xs \<noteq> [] then Inl CPanic else Inr (GvMap (Some xs))))
      | TyStruct fs \<Rightarrow>
          (case vdata v of
             MapV m \<Rightarrow>
               (case bindStructFields E fs m (structVals (ceZeroTime E) fs cur) of
                  Inl e \<Rightarrow> Inl e | Inr xs \<Rightarrow> Inr (GvStruct xs))
           | _ \<Rightarrow> Inl (CMismatch (Kind v) ''struct''))
      | TyIface methods \<Rightarrow>
          if methods then Inl (CMismatch (Kind v) ''interface'')
          else (case vdata v of
                  MapV m \<Rightarrow>
                    (case coerceEntries E (TyIface False) m of
                       Inl e \<Rightarrow> Inl e | Inr xs \<Rightarrow> Inr (GvIface (Some (GvMap (Some xs)))))
                | SliceV els \<Rightarrow>
                    (case coerceElems E (TyIface False) 0 els noTag of
                       Inl e \<Rightarrow> Inl e | Inr xs \<Rightarrow> Inr (GvIface (Some (GvSlice (Some xs)))))
                | _ \<Rightarrow> Inr (GvIface (Some (GvAny (Any v)))))
      | TyOther name \<Rightarrow> Inl (CMismatch (Kind v) name))"
| "coerceElems E T i [] tag = Inr []"
| "coerceElems E T i (v # vs) tag =
     (case coerceWith E T v tag (zeroVal (ceZeroTime E) T) of
        Inl e \<Rightarrow> Inl (CElement i e)
      | Inr x \<Rightarrow> (case coerceElems E T (i + 1) vs tag of Inl e \<Rightarrow> Inl e | Inr xs \<Rightarrow> Inr (x # xs)))"
| "coerceEntries E T [] = Inr []"
| "coerceEntries E T ((k, v) # m) =
     (case coerceWith E T v noTag (zeroVal (ceZeroTime E) T) of
        Inl e \<Rightarrow> Inl (CEntry k e)
      | Inr x \<Rightarrow> (case coerceEntries E T m of Inl e \<Rightarrow> Inl e | Inr xs \<Rightarrow> Inr ((k, x) # xs)))"
| "bindStructFields E [] m xs = Inr xs"
| "bindStructFields E ((sf, T) # fs) m [] = Inr []"
| "bindStructFields E ((sf, T) # fs) m (x # xs) =
     (let tag = tagOf E sf;
          filled =
            (if \<not> sfExported sf \<or> tgSkip tag then Inr x
             else if inlineField sf tag \<and> structFields T \<noteq> None
             then (case T of
                     TyStruct gs \<Rightarrow>
                       (case bindStructFields E gs m (structVals (ceZeroTime E) gs x) of
                          Inl e \<Rightarrow> Inl e | Inr ys \<Rightarrow> Inr (GvStruct ys))
                   | TyPtr (TyStruct gs) \<Rightarrow>
                       (case bindStructFields E gs m (structVals (ceZeroTime E) gs x) of
                          Inl e \<Rightarrow> Inl e | Inr ys \<Rightarrow> Inr (GvPtr (Some (GvStruct ys))))
                   | _ \<Rightarrow> Inr x)
             else (case (case elementValue E m sf tag of
                           Inl e \<Rightarrow> Inl e
                         | Inr None \<Rightarrow> Inr x
                         | Inr (Some v) \<Rightarrow> coerceWith E T v tag x) of
                     Inl e \<Rightarrow> Inl (CField (sfName sf) e) | Inr y \<Rightarrow> Inr y))
      in case filled of
           Inl e \<Rightarrow> Inl e
         | Inr y \<Rightarrow> (case bindStructFields E fs m xs of Inl e \<Rightarrow> Inl e | Inr ys \<Rightarrow> Inr (y # ys)))"
  by pat_completeness auto

termination
  by (relation "measures [\<lambda>x. case x of
          Inl (Inl (E, T, v, tag, cur)) \<Rightarrow> size T
        | Inl (Inr (E, T, i, vs, tag)) \<Rightarrow> size T
        | Inr (Inl (E, T, m)) \<Rightarrow> size T
        | Inr (Inr (E, fs, m, xs)) \<Rightarrow> size_list (size_prod (\<lambda>_. 0) size) fs,
      \<lambda>x. case x of
          Inl (Inl (E, T, v, tag, cur)) \<Rightarrow> size v
        | Inl (Inr (E, T, i, vs, tag)) \<Rightarrow> size_list size vs
        | Inr (Inl (E, T, m)) \<Rightarrow> size_list (\<lambda>(k, w). size w) m
        | Inr (Inr (E, fs, m, xs)) \<Rightarrow> 0]")
    (auto simp: size_mapV size_sliceV)

declare coerceWith.simps [simp del]


section \<open>What a failed conversion leaves\<close>

text \<open>
  The destination when the conversion returns an error. Slices, arrays, maps and interfaces are filled in
  a value of their own and set at the end, so they and the scalars keep what they hold; a pointer has been
  allocated, a struct holds the fields before the one that failed; a hook leaves what it likes (\<open>ceHookLeft\<close>).
\<close>

function (sequential)
  coerceLeft :: "coerceEnv \<Rightarrow> gtype \<Rightarrow> govalue \<Rightarrow> ftag \<Rightarrow> gval \<Rightarrow> gval"
  and fieldsLeft :: "coerceEnv \<Rightarrow> (sfield \<times> gtype) list \<Rightarrow> govalue gomap \<Rightarrow> gval list \<Rightarrow> gval list"
where
  "coerceLeft E T v tag cur =
     (case T of
        TyHook k name U \<Rightarrow> ceHookLeft E name v cur
      | TyPtr U \<Rightarrow> GvPtr (Some (coerceLeft E U v tag (pointee (ceZeroTime E) U cur)))
      | TyStruct fs \<Rightarrow>
          (case vdata v of
             MapV m \<Rightarrow> GvStruct (fieldsLeft E fs m (structVals (ceZeroTime E) fs cur))
           | _ \<Rightarrow> cur)
      | _ \<Rightarrow> cur)"
| "fieldsLeft E [] m xs = xs"
| "fieldsLeft E ((sf, T) # fs) m [] = []"
| "fieldsLeft E ((sf, T) # fs) m (x # xs) =
     (case bindStructFields E [(sf, T)] m [x] of
        Inr ys \<Rightarrow> ys @ fieldsLeft E fs m xs
      | Inl e \<Rightarrow>
          (let tag = tagOf E sf
           in if inlineField sf tag \<and> structFields T \<noteq> None
              then (case T of
                      TyStruct gs \<Rightarrow> GvStruct (fieldsLeft E gs m (structVals (ceZeroTime E) gs x))
                    | TyPtr (TyStruct gs) \<Rightarrow>
                        GvPtr (Some (GvStruct (fieldsLeft E gs m (structVals (ceZeroTime E) gs x))))
                    | _ \<Rightarrow> x)
              else (case elementValue E m sf tag of
                      Inr (Some v) \<Rightarrow> coerceLeft E T v tag x
                    | _ \<Rightarrow> x)) # xs)"
  by pat_completeness auto

termination
  by (relation "measure (\<lambda>x. case x of
          Inl (E, T, v, tag, cur) \<Rightarrow> size T
        | Inr (E, fs, m, xs) \<Rightarrow> size_list (size_prod (\<lambda>_. 0) size) fs)") auto

declare coerceLeft.simps [simp del]

end
