(* ===== verification/CoerceProps.thy ===== *)
theory CoerceProps
  imports Coerce
begin

text \<open>
  The properties of the conversion: its result always inhabits the destination type, widths and
  array lengths included; the numeric conversions are exact or refused.
\<close>

section \<open>Values of a type\<close>

fun isIface :: "gval \<Rightarrow> bool" where
  "isIface (GvIface x) = True"
| "isIface g = False"

text \<open>What an empty interface may hold: a scalar, or a map or slice of interfaces.\<close>

primrec ifaceOk :: "gval \<Rightarrow> bool" where
  "ifaceOk (GvString s) = False"
| "ifaceOk (GvBool b) = False"
| "ifaceOk (GvInt i) = False"
| "ifaceOk (GvUint u) = False"
| "ifaceOk (GvFloat f) = False"
| "ifaceOk (GvTime t) = False"
| "ifaceOk (GvDur d) = False"
| "ifaceOk (GvSlice xs) = (xs \<noteq> None \<and> pred_option (list_all isIface) xs
     \<and> pred_option (list_all id) (map_option (map ifaceOk) xs))"
| "ifaceOk (GvBytes b) = False"
| "ifaceOk (GvArray xs) = False"
| "ifaceOk (GvMap m) = (m \<noteq> None \<and> pred_option (list_all (\<lambda>(k, x). isIface x)) m
     \<and> pred_option (list_all (\<lambda>(k, b). b)) (map_option (map (map_prod id ifaceOk)) m))"
| "ifaceOk (GvPtr p) = False"
| "ifaceOk (GvStruct xs) = False"
| "ifaceOk (GvIface x) = pred_option id (map_option ifaceOk x)"
| "ifaceOk (GvAny a) = True"
| "ifaceOk (GvHooked s) = False"
| "ifaceOk GvUnset = False"

primrec hasType :: "gtype \<Rightarrow> gval \<Rightarrow> bool" where
  "hasType TyString g = (case g of GvString s \<Rightarrow> True | _ \<Rightarrow> False)"
| "hasType TyBool g = (case g of GvBool b \<Rightarrow> True | _ \<Rightarrow> False)"
| "hasType (TyInt bits) g = (case g of GvInt i \<Rightarrow> \<not> overflowInt bits i | _ \<Rightarrow> False)"
| "hasType (TyUint bits) g = (case g of GvUint u \<Rightarrow> \<not> overflowUint bits u | _ \<Rightarrow> False)"
| "hasType (TyFloat bits) g = (case g of GvFloat f \<Rightarrow> \<not> overflowFloat bits f | _ \<Rightarrow> False)"
| "hasType TyTime g = (case g of GvTime t \<Rightarrow> True | _ \<Rightarrow> False)"
| "hasType TyDuration g = (case g of GvDur d \<Rightarrow> True | _ \<Rightarrow> False)"
| "hasType (TySlice T) g =
     (if T = TyUint 8 then (case g of GvBytes b \<Rightarrow> True | _ \<Rightarrow> False)
      else (case g of GvSlice None \<Rightarrow> True | GvSlice (Some xs) \<Rightarrow> list_all (hasType T) xs | _ \<Rightarrow> False))"
| "hasType (TyArray n T) g =
     (case g of GvArray xs \<Rightarrow> length xs = n \<and> list_all (hasType T) xs | _ \<Rightarrow> False)"
| "hasType (TyMap k T) g =
     (case g of GvMap None \<Rightarrow> True | GvMap (Some m) \<Rightarrow> list_all (\<lambda>(_, x). hasType T x) m | _ \<Rightarrow> False)"
| "hasType (TyPtr T) g = (case g of GvPtr None \<Rightarrow> True | GvPtr (Some x) \<Rightarrow> hasType T x | _ \<Rightarrow> False)"
| "hasType (TyStruct fs) g =
     (case g of
        GvStruct xs \<Rightarrow> list_all2 (\<lambda>h x. h x) (map snd (map (map_prod id hasType) fs)) xs
      | _ \<Rightarrow> False)"
| "hasType (TyIface b) g = (isIface g \<and> ifaceOk g)"
| "hasType (TyHook k name T) g = True"
| "hasType (TyOther name) g = (case g of GvUnset \<Rightarrow> True | _ \<Rightarrow> False)"

definition fieldsTyped :: "(sfield \<times> gtype) list \<Rightarrow> gval list \<Rightarrow> bool" where
  "fieldsTyped fs xs = list_all2 (\<lambda>(sf, T) x. hasType T x) fs xs"

lemma hasType_struct: "hasType (TyStruct fs) g \<longleftrightarrow> (\<exists>xs. g = GvStruct xs \<and> fieldsTyped fs xs)"
  by (cases g) (simp_all add: fieldsTyped_def list.rel_map split_def)

lemma hasType_scalar [simp]:
  "hasType TyString g \<longleftrightarrow> (\<exists>s. g = GvString s)"
  "hasType TyBool g \<longleftrightarrow> (\<exists>b. g = GvBool b)"
  "hasType (TyInt bits) g \<longleftrightarrow> (\<exists>i. g = GvInt i \<and> \<not> overflowInt bits i)"
  "hasType (TyUint bits) g \<longleftrightarrow> (\<exists>u. g = GvUint u \<and> \<not> overflowUint bits u)"
  "hasType (TyFloat bits) g \<longleftrightarrow> (\<exists>f. g = GvFloat f \<and> \<not> overflowFloat bits f)"
  "hasType TyTime g \<longleftrightarrow> (\<exists>t. g = GvTime t)"
  "hasType TyDuration g \<longleftrightarrow> (\<exists>d. g = GvDur d)"
  "hasType (TyOther name) g \<longleftrightarrow> g = GvUnset"
  by (cases g; simp)+

lemma hasType_container [simp]:
  "hasType (TySlice T) g \<longleftrightarrow>
     (if T = TyUint 8 then \<exists>b. g = GvBytes b
      else g = GvSlice None \<or> (\<exists>xs. g = GvSlice (Some xs) \<and> list_all (hasType T) xs))"
  "hasType (TyArray n T) g \<longleftrightarrow> (\<exists>xs. g = GvArray xs \<and> length xs = n \<and> list_all (hasType T) xs)"
  "hasType (TyMap k T) g \<longleftrightarrow>
     g = GvMap None \<or> (\<exists>m. g = GvMap (Some m) \<and> list_all (\<lambda>(_, x). hasType T x) m)"
  "hasType (TyPtr T) g \<longleftrightarrow> g = GvPtr None \<or> (\<exists>x. g = GvPtr (Some x) \<and> hasType T x)"
  by (cases g; simp split: option.split)+

lemmas hasType_del = hasType.simps(1-12,15)

declare hasType_del [simp del]

lemma overflow_zero [simp]: "\<not> overflowInt bits 0" "\<not> overflowUint bits 0" "\<not> overflowFloat bits 0"
  by (simp_all add: overflowInt_def overflowUint_def overflowFloat_def isInf_def fscaled_def fmant_def
      fexp_def ffrac_def fmag_def maxFloat32Scaled_def)

lemma hasType_zero: "hasType T (zeroVal z T)"
proof (induction T)
  case (TyStruct fs)
  then have "fieldsTyped fs (map snd (map (map_prod id (zeroVal z)) fs))"
    by (auto simp: fieldsTyped_def list.rel_map list.rel_refl_strong split_def intro!: list.rel_refl_strong)
  then show ?case by (simp add: hasType_struct)
qed (auto simp: list_all_iff)



section \<open>The result inhabits the type\<close>

lemma scalar_typed:
  "coerceTime E v tag = Inr g \<Longrightarrow> hasType TyTime g"
  "coerceDuration E v = Inr g \<Longrightarrow> hasType TyDuration g"
  "coerceBool v = Inr g \<Longrightarrow> hasType TyBool g"
  "coerceInt bits v = Inr g \<Longrightarrow> hasType (TyInt bits) g"
  "coerceUint bits v = Inr g \<Longrightarrow> hasType (TyUint bits) g"
  "coerceFloat bits v = Inr g \<Longrightarrow> hasType (TyFloat bits) g"
  by (auto simp: coerceTime_def coerceDuration_def coerceBool_def coerceInt_def coerceUint_def coerceFloat_def
      split: vdata.splits option.splits sum.splits if_splits)

lemma structVals_typed:
  "hasType (TyStruct fs) cur \<or> hasType (TyPtr (TyStruct fs)) cur \<Longrightarrow> fieldsTyped fs (structVals z fs cur)"
proof -
  have "fieldsTyped fs (map (\<lambda>(sf, T). zeroVal z T) fs)"
    by (auto simp: fieldsTyped_def list.rel_map split_def hasType_zero intro!: list.rel_refl_strong)
  moreover assume "hasType (TyStruct fs) cur \<or> hasType (TyPtr (TyStruct fs)) cur"
  ultimately show ?thesis by (auto simp: hasType_struct structVals_def)
qed

lemma pointee_typed: "hasType (TyPtr T) cur \<Longrightarrow> hasType T (pointee z T cur)"
  by (auto simp: pointee_def hasType_zero)

lemma byte_typed: "hasType (TyUint 8) (GvUint (of_nat (of_char (c :: char))))"
proof -
  have c: "(of_char c :: nat) < 256" by simp
  have "uint (of_nat n :: 64 word) \<le> int n" for n
    by (simp add: unsigned_of_nat take_bit_int_less_eq_self_iff)
  then have "uint (of_nat (of_char c) :: 64 word) \<le> int (of_char c)" .
  also have "\<dots> < int 256" using c by (simp only: of_nat_less_iff)
  finally have "uint (of_nat (of_char c) :: 64 word) < 2 ^ 8" by simp
  then show ?thesis by (simp add: overflowUint_def)
qed

lemma ifaceOk_list: "list_all (hasType (TyIface False)) xs \<Longrightarrow> hasType (TyIface False) (GvIface (Some (GvSlice (Some xs))))"
  by (simp add: list_all_iff)

lemma ifaceOk_map: "list_all (\<lambda>(_, x). hasType (TyIface False) x) m \<Longrightarrow> hasType (TyIface False) (GvIface (Some (GvMap (Some m))))"
  by (auto simp: list_all_iff)

lemma fieldsTyped_Cons [simp]:
  "fieldsTyped ((sf, T) # fs) (x # xs) \<longleftrightarrow> hasType T x \<and> fieldsTyped fs xs" "fieldsTyped [] xs \<longleftrightarrow> xs = []"
  "\<not> fieldsTyped ((sf, T) # fs) []"
  by (simp_all add: fieldsTyped_def)

lemma coerce_typed:
  "hasType T cur \<Longrightarrow> coerceWith E T v tag cur = Inr g \<Longrightarrow> hasType T g"
  "coerceElems E T i vs tag = Inr gs \<Longrightarrow> length gs = length vs \<and> list_all (hasType T) gs"
  "coerceEntries E T m = Inr es \<Longrightarrow> map fst es = map fst m \<and> list_all (\<lambda>(_, x). hasType T x) es"
  "fieldsTyped fs xs \<Longrightarrow> bindStructFields E fs n xs = Inr ys \<Longrightarrow> fieldsTyped fs ys"
proof (induction E T v tag cur and E T i vs tag and E T m and E fs n xs arbitrary: g and gs and es and ys
    rule: coerceWith_coerceElems_coerceEntries_bindStructFields.induct)
  case (1 E T v tag cur)
  show ?case
  proof (cases "Kind v = NullKind")
    case True
    then have "g = zeroVal (ceZeroTime E) T \<or> (\<exists>k name U. T = TyHook k name U)"
      using "1.prems"(2) by (auto simp: coerceWith.simps simp del: zeroVal.simps split: gtype.splits hookKind.splits)
    then show ?thesis using hasType_zero[of T "ceZeroTime E"] by auto
  next
    case False
    note step = "1.prems"(2)[unfolded coerceWith.simps[of E T v tag cur] if_not_P[OF False]]
    note IH = "1.IH"[OF False]
    show ?thesis
    proof (cases T)
      case (TySlice U)
      with step IH(1)[OF TySlice] show ?thesis by (auto split: if_splits sum.splits)
    next
      case (TyArray n U)
      with step IH(2)[OF TyArray] byte_typed show ?thesis
        by (auto simp: list_all_iff split: if_splits sum.splits)
    next
      case (TyMap k U)
      with step IH(3)[OF TyMap] show ?thesis by (auto split: if_splits sum.splits)
    next
      case (TyPtr U)
      then obtain x where x: "coerceWith E U v tag (pointee (ceZeroTime E) U cur) = Inr x" "g = GvPtr (Some x)"
        using step by (auto split: sum.splits)
      have "hasType U (pointee (ceZeroTime E) U cur)" using "1.prems"(1) unfolding TyPtr by (rule pointee_typed)
      with IH(4)[OF TyPtr _ x(1)] show ?thesis by (simp add: TyPtr x(2))
    next
      case (TyStruct fs)
      have "fieldsTyped fs (structVals (ceZeroTime E) fs cur)"
        using "1.prems"(1) TyStruct by (intro structVals_typed) simp
      moreover obtain m ys where "vdata v = MapV m" "g = GvStruct ys"
        "bindStructFields E fs m (structVals (ceZeroTime E) fs cur) = Inr ys"
        using step TyStruct by (auto split: vdata.splits sum.splits)
      ultimately show ?thesis using IH(5)[OF TyStruct] unfolding TyStruct hasType_struct by blast
    next
      case (TyIface b)
      then have b: "\<not> b" using step by (auto split: if_splits)
      consider a where "g = GvIface (Some (GvAny a))"
        | m es where "vdata v = MapV m" "coerceEntries E (TyIface False) m = Inr es" "g = GvIface (Some (GvMap (Some es)))"
        | els xs where "vdata v = SliceV els" "coerceElems E (TyIface False) 0 els noTag = Inr xs"
            "g = GvIface (Some (GvSlice (Some xs)))"
        using step TyIface b by (auto split: vdata.splits sum.splits)
      then show ?thesis
      proof cases
        case 2
        have "hasType (TyIface False) g"
          unfolding 2(3) using IH(7)[OF TyIface b 2(1,2)] by (intro ifaceOk_map) (rule conjunct2)
        then show ?thesis using b by (simp add: TyIface)
      next
        case 3
        have "hasType (TyIface False) g"
          unfolding 3(3) using IH(6)[OF TyIface b 3(1,2)] by (intro ifaceOk_list) (rule conjunct2)
        then show ?thesis using b by (simp add: TyIface)
      qed (simp add: TyIface)
    qed (use step scalar_typed in auto)
  qed
next
  case (3 E T i v vs tag)
  obtain x xs where x: "coerceWith E T v tag (zeroVal (ceZeroTime E) T) = Inr x"
    "coerceElems E T (i + 1) vs tag = Inr xs" "gs = x # xs"
    using "3.prems" by (auto split: sum.splits)
  show ?case using "3.IH"(1)[OF hasType_zero x(1)] "3.IH"(2)[OF x(1,2)] by (simp add: x(3))
next
  case (5 E T k v m)
  obtain x xs where x: "coerceWith E T v noTag (zeroVal (ceZeroTime E) T) = Inr x"
    "coerceEntries E T m = Inr xs" "es = (k, x) # xs"
    using "5.prems" by (auto split: sum.splits)
  show ?case using "5.IH"(1)[OF hasType_zero x(1)] "5.IH"(2)[OF x(1,2)] by (simp add: x(3))
next
  case (8 E sf T fs m x xs)
  define tag where "tag = tagOf E sf"
  obtain y ys' where y: "ys = y # ys'" "bindStructFields E fs m xs = Inr ys'"
    and filled: "(if \<not> sfExported sf \<or> tgSkip tag then Inr x
             else if inlineField sf tag \<and> structFields T \<noteq> None
             then (case T of
                     TyStruct gs \<Rightarrow>
                       (case bindStructFields E gs m (structVals (ceZeroTime E) gs x) of
                          Inl e \<Rightarrow> Inl e | Inr ys \<Rightarrow> Inr (GvStruct ys))
                   | TyPtr (TyStruct gs) \<Rightarrow>
                       (case bindStructFields E gs m (structVals (ceZeroTime E) gs x) of
                          Inl e \<Rightarrow> Inl e | Inr ys \<Rightarrow> Inr (GvPtr (Some (GvStruct ys))))
                   | _ \<Rightarrow> Inr x)
             else (case (case elementValue E m sf tag of
                           Inl e \<Rightarrow> Inl e
                         | Inr None \<Rightarrow> Inr x
                         | Inr (Some v) \<Rightarrow> coerceWith E T v tag x) of
                     Inl e \<Rightarrow> Inl (CField (sfName sf) e) | Inr y \<Rightarrow> Inr y)) = Inr y"
    using "8.prems"(2) unfolding bindStructFields.simps Let_def tag_def[symmetric]
    by (auto split: sum.splits)
  have x: "hasType T x" "fieldsTyped fs xs" using "8.prems"(1) by simp_all
  have "hasType T y"
  proof (cases "\<not> sfExported sf \<or> tgSkip tag")
    case True
    with filled x show ?thesis by simp
  next
    case exported: False
    show ?thesis
    proof (cases "inlineField sf tag \<and> structFields T \<noteq> None")
      case True
      note filled' = filled[unfolded if_not_P[OF exported] if_P[OF True]]
      consider gs where "T = TyStruct gs" | gs where "T = TyPtr (TyStruct gs)"
        using True by (cases T rule: structFields.cases) auto
      then show ?thesis
      proof cases
        case 1
        then obtain ys1 where r: "bindStructFields E gs m (structVals (ceZeroTime E) gs x) = Inr ys1" "y = GvStruct ys1"
          using filled' by (auto split: sum.splits)
        have "fieldsTyped gs (structVals (ceZeroTime E) gs x)" using x(1) 1 by (intro structVals_typed) simp
        from "8.IH"(2)[OF tag_def exported True 1 this r(1)] show ?thesis
          unfolding 1 r(2) hasType_struct by blast
      next
        case 2
        then obtain ys1 where r: "bindStructFields E gs m (structVals (ceZeroTime E) gs x) = Inr ys1"
            "y = GvPtr (Some (GvStruct ys1))"
          using filled' by (auto split: sum.splits)
        have "fieldsTyped gs (structVals (ceZeroTime E) gs x)" using x(1) 2 by (intro structVals_typed) simp
        from "8.IH"(1)[OF tag_def exported True 2 refl this r(1)] show ?thesis
          unfolding 2 r(2) hasType_container(4) hasType_struct by blast
      qed
    next
      case False
      have v: "\<exists>v. elementValue E m sf tag = Inr v \<and> (case v of None \<Rightarrow> y = x | Some w \<Rightarrow> coerceWith E T w tag x = Inr y)"
        using filled[unfolded if_not_P[OF exported] if_not_P[OF False]] by (auto split: sum.splits option.splits)
      then show ?thesis
        using x(1) "8.IH"(3)[OF tag_def exported False _ refl x(1)] by (auto split: option.splits)
    qed
  qed
  moreover have "fieldsTyped fs ys'" by (rule "8.IH"(4)[OF tag_def refl filled x(2) y(2)])
  ultimately show ?case using y(1) by simp
qed auto


section \<open>What a failed conversion leaves inhabits the type\<close>

lemma field_typed:
  assumes "hasType T x" and "bindStructFields E [(sf, T)] m [x] = Inr ys"
  obtains y where "ys = [y]" and "hasType T y"
proof -
  have "fieldsTyped [(sf, T)] ys" by (rule coerce_typed(4)[OF _ assms(2)]) (simp add: assms(1))
  then show thesis using that by (cases ys) (auto simp: fieldsTyped_def)
qed

lemma structTarget_typed:
  assumes "\<And>gs. T = TyStruct gs \<or> T = TyPtr (TyStruct gs) \<Longrightarrow> fieldsTyped gs (F gs)" and "hasType T x"
  shows "hasType T (case T of TyStruct gs \<Rightarrow> GvStruct (F gs) | TyPtr (TyStruct gs) \<Rightarrow> GvPtr (Some (GvStruct (F gs))) | _ \<Rightarrow> x)"
  using assms by (cases T rule: structFields.cases) (simp_all add: hasType_struct del: hasType_container(1-3))

lemma left_typed:
  "hasType T cur \<Longrightarrow> hasType T (coerceLeft E T v tag cur)"
  "fieldsTyped fs xs \<Longrightarrow> fieldsTyped fs (fieldsLeft E fs m xs)"
proof (induction E T v tag cur and E fs m xs rule: coerceLeft_fieldsLeft.induct)
  case (1 E T v tag cur)
  show ?case
  proof (cases T)
    case (TyPtr U)
    have "hasType U (pointee (ceZeroTime E) U cur)" using "1.prems" unfolding TyPtr by (rule pointee_typed)
    then show ?thesis using "1.IH"(1)[OF TyPtr] by (simp add: coerceLeft.simps TyPtr)
  next
    case (TyStruct fs)
    have "fieldsTyped fs (structVals (ceZeroTime E) fs cur)"
      using "1.prems" TyStruct by (intro structVals_typed) simp
    then show ?thesis using "1.IH"(2)[OF TyStruct] "1.prems"
      by (auto simp: coerceLeft.simps TyStruct hasType_struct split: vdata.split)
  qed (use "1.prems" in \<open>simp_all add: coerceLeft.simps\<close>)
next
  case (4 E sf T fs m x xs)
  have x: "hasType T x" "fieldsTyped fs xs" using "4.prems" by simp_all
  show ?case
  proof (cases "bindStructFields E [(sf, T)] m [x]")
    case (Inr ys)
    then obtain y where "ys = [y]" "hasType T y" using field_typed[OF x(1)] by blast
    then show ?thesis using "4.IH"(4)[OF Inr x(2)] by (simp add: Inr del: bindStructFields.simps)
  next
    case (Inl e)
    have "fieldsTyped gs (structVals (ceZeroTime E) gs x)" if "T = TyStruct gs \<or> T = TyPtr (TyStruct gs)" for gs
      using x(1) that by (intro structVals_typed) auto
    then show ?thesis
      using "4.IH"(1-3)[OF Inl refl] x
      by (auto simp: Inl Let_def simp del: bindStructFields.simps intro!: structTarget_typed
          split: sum.split option.split)
  qed
qed simp_all


section \<open>Conversions of numbers\<close>

lemma fscaled_limits: "fscaled minInt64Float = - (2 ^ 63) * 2 ^ unitExp"
  "fscaled maxFloatBelowInt64Max = (2 ^ 63 - 1024) * 2 ^ unitExp"
  "\<not> isNaN minInt64Float" "\<not> isNaN maxFloatBelowInt64Max"
proof -
  have m: "nat (abs (sint (2 ^ 63 :: int64))) = 2 ^ 52 * 2 ^ 11" and M: "nat (abs (sint (2 ^ 63 - 1024 :: int64))) = (2 ^ 53 - 1) * 2 ^ 10"
    and s: "sint (2 ^ 63 :: int64) = - (2 ^ 63)" "sint (2 ^ 63 - 1024 :: int64) = 2 ^ 63 - 1024"
    by simp_all
  show "fscaled minInt64Float = - (2 ^ 63) * 2 ^ unitExp" "\<not> isNaN minInt64Float"
    using floatOfInt_scaled[OF m] unfolding minInt64Float_def s by simp_all
  show "fscaled maxFloatBelowInt64Max = (2 ^ 63 - 1024) * 2 ^ unitExp" "\<not> isNaN maxFloatBelowInt64Max"
    using floatOfInt_scaled[OF M] unfolding maxFloatBelowInt64Max_def s by simp_all
qed

lemma floatAsInt64_iff:
  "floatAsInt64 f = Inr i \<longleftrightarrow> \<not> isNaN f \<and> fscaled f = sint i * 2 ^ unitExp"
proof -
  define U where "U = (2 :: int) ^ unitExp"
  have U: "0 < U" by (simp add: U_def)
  note limits = fscaled_limits[folded U_def]
  show ?thesis unfolding U_def[symmetric]
  proof
    assume ok: "floatAsInt64 f = Inr i"
    then have "\<not> flt f minInt64Float" "\<not> flt maxFloatBelowInt64Max f" and nan: "\<not> isNaN f"
      and div: "U dvd fscaled f" "i = of_int (fscaled f div U)"
      by (auto simp: floatAsInt64_def U_def split: if_splits)
    then have range: "- (2 ^ 63) * U \<le> fscaled f" "fscaled f \<le> (2 ^ 63 - 1024) * U"
      by (auto simp: flt_def limits)
    obtain q where q: "fscaled f = q * U" using div(1) by (metis dvd_div_mult_self)
    then have "- (2 ^ 63) \<le> q" "q \<le> 2 ^ 63 - 1024"
      using range U unfolding q mult_le_cancel_right by auto
    then have "sint (of_int q :: int64) = q" by (simp add: signed_of_int signed_take_bit_int_eq_self)
    moreover have "i = of_int q" using q div(2) U by simp
    ultimately show "\<not> isNaN f \<and> fscaled f = sint i * U" using nan q by simp
  next
    assume r: "\<not> isNaN f \<and> fscaled f = sint i * U"
    have "sint i \<le> 2 ^ 63 - 1024"
      using r sint_lt[of i] by (intro fscaled_gap[of f]) (auto simp: U_def)
    then have "sint i * U \<le> (2 ^ 63 - 1024) * U" using U by (intro mult_right_mono) auto
    moreover have "- (2 ^ 63) * U \<le> sint i * U" using U sint_ge[of i] by (intro mult_right_mono) auto
    ultimately have "\<not> flt f minInt64Float" "\<not> flt maxFloatBelowInt64Max f"
      using r unfolding flt_def limits by linarith+
    then show "floatAsInt64 f = Inr i" using r U by (simp add: floatAsInt64_def U_def[symmetric])
  qed
qed

lemma coerceElems_error:
  "coerceElems E T i vs tag = Inl e \<longleftrightarrow>
   (\<exists>k < length vs. \<exists>err. e = CElement (i + k) err
      \<and> coerceWith E T (vs ! k) tag (zeroVal (ceZeroTime E) T) = Inl err
      \<and> (\<forall>j < k. \<exists>x. coerceWith E T (vs ! j) tag (zeroVal (ceZeroTime E) T) = Inr x))"
proof (induction vs arbitrary: i)
  case (Cons v vs)
  let ?c = "\<lambda>v. coerceWith E T v tag (zeroVal (ceZeroTime E) T)"
  show ?case
  proof (cases "?c v")
    case (Inl err)
    then show ?thesis
      by (auto simp: less_Suc_eq_0_disj nth_Cons' dest: spec[of _ 0])
  next
    case (Inr x)
    then have "coerceElems E T i (v # vs) tag = Inl e \<longleftrightarrow> coerceElems E T (i + 1) vs tag = Inl e"
      by (auto split: sum.splits)
    also note Cons.IH
    finally show ?thesis using Inr by (auto simp: Ex_less_Suc2 All_less_Suc2)
  qed
qed auto


section \<open>Properties\<close>

text \<open>
  C34: A conversion that succeeds leaves a value of the destination's type: every integer and float
  inside the width of its field, every array of exactly its length, in structs, maps, pointers and
  slices to any depth.
\<close>

theorem coerce_type_preserved:
  assumes "hasType T cur" and "coerceWith E T v tag cur = Inr g"
  shows "hasType T g"
  by (rule coerce_typed(1)[OF assms])

definition demoCoerce :: coerceEnv where
  "demoCoerce = \<lparr>ceFormat = \<lparr>formatFloatVerb = \<lambda>_ _. [], formatTime = \<lambda>_. [], formatDuration = \<lambda>_. []\<rparr>,
     ceTimeParse = \<lambda>_ _. None, ceZeroTime = (0, 0), ceParseDuration = \<lambda>_. None, ceBase64 = \<lambda>_. None,
     ceHex = \<lambda>_. None, ceHookValue = \<lambda>_ _. Inl [], ceHookText = \<lambda>_ _. Inl [],
     ceHookLeft = \<lambda>_ _ x. x, ceReadFile = \<lambda>_. Inl [],
     ceTagName = [], ceExpand = None\<rparr>"

lemma coerce_type_preserved_witness:
  "hasType (TyArray 2 (TyInt 8)) (GvArray [GvInt 1, GvInt (- 128)])"
  by (rule coerce_type_preserved[where cur = "GvArray [GvInt 0, GvInt 0]" and E = demoCoerce
        and v = "mk (SliceV [mk (IntV 1), mk (IntV (- 128))])" and tag = noTag])
    (simp_all add: coerceWith.simps sliceElements_def coerceInt_def valueAsInt64_def overflowInt_def Kind_def
      overflow_zero)


text \<open>
  C28: A float value is stored in an integer field exactly or refused: the conversion succeeds with
  an integer precisely when the float is that integer and the integer fits the field's width.
\<close>

theorem coerceInt_float_exact:
  "coerceInt bits (Value (FloatV f) src) = Inr (GvInt i) \<longleftrightarrow>
   \<not> isNaN f \<and> fscaled f = sint i * 2 ^ unitExp \<and> - (2 ^ (bits - 1)) \<le> sint i \<and> sint i < 2 ^ (bits - 1)"
proof -
  have "coerceInt bits (Value (FloatV f) src) = Inr (GvInt i) \<longleftrightarrow> floatAsInt64 f = Inr i \<and> \<not> overflowInt bits i"
    by (auto simp: coerceInt_def valueAsInt64_def split: sum.splits)
  then show ?thesis by (simp add: floatAsInt64_iff overflowInt_def)
qed


text \<open>
  A list fails to convert exactly when an element does; the error names the first such element
  by its index and carries its error.
\<close>

theorem coerceElems_first_error:
  "coerceElems E T 0 vs tag = Inl e \<longleftrightarrow>
   (\<exists>k < length vs. \<exists>err. e = CElement k err
      \<and> coerceWith E T (vs ! k) tag (zeroVal (ceZeroTime E) T) = Inl err
      \<and> (\<forall>j < k. \<exists>x. coerceWith E T (vs ! j) tag (zeroVal (ceZeroTime E) T) = Inr x))"
  using coerceElems_error[of E T 0 vs tag e] by simp

lemma coerceElems_first_error_witness:
  "coerceElems demoCoerce (TyInt 8) 0 [mk (IntV 1), mk (IntV 300)] noTag = Inl (CElement 1 (COverflowsInt 300))"
  unfolding coerceElems_first_error by (rule exI[of _ 1]) (auto simp: less_Suc_eq coerceWith.simps coerceInt_def
      valueAsInt64_def overflowInt_def Kind_def)

end
