(* ===== verification/Bind.thy ===== *)
theory Bind
  imports Expand CoerceProps
begin

text \<open>
  \<open>bind_walker.go\<close> and \<open>registry_bind.go\<close>: binding a struct from the snapshot of a registry. A struct is
  its fields with their types and values, as in the conversion; a walk carries the registry (a
  field with \<open>unset\<close> changes it while the walk goes on), the errors, the paths consulted and the
  secrets found. Types are finite terms, so no pointer leads back to a struct already being walked
  and the \<open>stack\<close> of the code is always free of the type it looks for; the plan cache and the memo of
  the secret scan only save time. Type names are written with their package path.

  Custom decoders, codecs and the validator hook of the target are parameters; the reading of a
  file is one of \<open>coerceEnv\<close>. The error of a conversion carries the field's type instead of its name.
  Where a conversion panics (\<open>CPanic\<close>) the bind does not return; the model records it as an error.
\<close>

datatype decoded = DecError string | DecNil | DecMismatch string | DecValue gval

record bindOpts =
  boView :: path
  boTag :: string
  boFailFast :: bool
  boStrict :: bool
  boDecoder :: "gtype \<Rightarrow> (govalue \<Rightarrow> decoded) option"
  boCodec :: "string \<Rightarrow> (string \<Rightarrow> string + goany) option"
  boErrText :: "expandError \<Rightarrow> string"
  boHook :: "gval list \<Rightarrow> string option"
  boEnv :: coerceEnv

datatype bindCause =
    CauseCoerce cerr
  | CauseDecoder string
  | CauseUnassignable string
  | CauseExpand expandError
  | CauseNoCodec string
  | CauseDecode string

datatype bindError =
    BindClosed
  | BindCoercion path string string gtype bindCause bool
  | BindMissing path "string list"
  | BindEmpty path string
  | BindUnknown path string
  | BindHook string

record walkState =
  wkReg :: registry
  wkErrs :: "bindError list"
  wkConsulted :: strset
  wkTrees :: "string list"
  wkSecrets :: "string list"


section \<open>Types\<close>

fun elemBase :: "gtype \<Rightarrow> gtype" where
  "elemBase (TyPtr T) = elemBase T"
| "elemBase (TySlice T) = elemBase T"
| "elemBase (TyArray n T) = elemBase T"
| "elemBase (TyMap k T) = elemBase T"
| "elemBase (TyHook k name (TyPtr T)) = elemBase T"
| "elemBase (TyHook k name (TySlice T)) = elemBase T"
| "elemBase (TyHook k name (TyArray n T)) = elemBase T"
| "elemBase (TyHook k name (TyMap j T)) = elemBase T"
| "elemBase T = T"

definition secretTypeName :: string where
  "secretTypeName = ''github.com/go-rotini/env.Secret[''"

definition isSecretType :: "gtype \<Rightarrow> bool" where
  "isSecretType T = (case elemBase T of TyHook k name U \<Rightarrow> hasPrefix name secretTypeName | _ \<Rightarrow> False)"

fun structOf :: "gtype \<Rightarrow> (sfield \<times> gtype) list" where
  "structOf (TyStruct fs) = fs"
| "structOf (TyHook k name (TyStruct fs)) = fs"
| "structOf T = []"

lemma elemBase_size: "size (elemBase T) \<le> size T"
  by (induction T rule: elemBase.induct) auto

lemma structOf_size: "structOf T \<noteq> [] \<Longrightarrow> size_list (size_prod (\<lambda>_. 0) size) (structOf T) < size T"
  by (induction T rule: structOf.induct) auto

lemma scan_size: "(sf, U) \<in> set (structOf (elemBase T)) \<Longrightarrow> size U < size T"
proof -
  assume u: "(sf, U) \<in> set (structOf (elemBase T))"
  then have "size U \<le> size_list (size_prod (\<lambda>_. 0) size) (structOf (elemBase T))"
    by (auto dest!: split_list)
  moreover have "structOf (elemBase T) \<noteq> []" using u by auto
  ultimately show ?thesis using structOf_size[of "elemBase T"] elemBase_size[of T] by linarith
qed

function scanSecrets :: "string \<Rightarrow> gtype \<Rightarrow> bool" where
  "scanSecrets tagName T =
     list_ex (\<lambda>(sf, U). sfExported sf \<and>
         (let tag = (case fieldTag (sfTags sf) tagName of Some t \<Rightarrow> t | None \<Rightarrow> noTag)
          in \<not> tgSkip tag \<and> (tgSecret tag \<or> isSecretType U \<or> scanSecrets tagName U)))
       (structOf (elemBase T))"
  by pat_completeness auto
termination
  by (relation "measure (\<lambda>(tagName, T). size T)") (auto dest: scan_size)

declare scanSecrets.simps [simp del]

fun underlying :: "gtype \<Rightarrow> gtype" where
  "underlying (TyHook k name T) = underlying T"
| "underlying T = T"

fun derefType :: "nat \<Rightarrow> gtype \<Rightarrow> gtype" where
  "derefType 0 T = T"
| "derefType (Suc n) T = (case underlying T of TyPtr U \<Rightarrow> derefType n U | _ \<Rightarrow> T)"

definition leafReadMode :: "gtype \<Rightarrow> ftag \<Rightarrow> readMode" where
  "leafReadMode T tag =
     (case underlying (derefType 16 T) of
        TyMap k U \<Rightarrow> if \<not> tgFromFile tag \<and> tgFormat tag = [] then ReadSection else ReadExact
      | TyIface m \<Rightarrow> if \<not> tgFromFile tag \<and> tgFormat tag = [] then ReadSection else ReadExact
      | _ \<Rightarrow> ReadExact)"


section \<open>Field plans\<close>

record fieldPlan =
  fpAnonymous :: bool
  fpTag :: ftag
  fpSegs :: "string list"
  fpAbs :: "path option"
  fpKey :: string
  fpAliases :: "path list"
  fpSecret :: bool
  fpWalkable :: bool

definition segmentsFor :: "sfield \<Rightarrow> ftag \<Rightarrow> string list" where
  "segmentsFor sf tag =
     (let name = (if tgName tag = [] then sfName sf else tgName tag)
      in if \<not> containsStr name DefaultDelimiter then [applyTransform name (tgTransform tag)]
         else map (\<lambda>seg. applyTransform seg (tgTransform tag)) (ParsePath name))"

definition tagFor :: "bindOpts \<Rightarrow> sfield \<Rightarrow> ftag" where
  "tagFor B sf =
     (case fieldTag (sfTags sf) (boTag B) of
        Some t \<Rightarrow> t | None \<Rightarrow> noTag\<lparr>tgName := toSnakeCase (sfName sf)\<rparr>)"

definition planOf :: "bindOpts \<Rightarrow> sfield \<Rightarrow> gtype \<Rightarrow> fieldPlan option" where
  "planOf B sf T =
     (if \<not> sfExported sf then None
      else let tag = tagFor B sf
           in if tgSkip tag then None
              else let segs = segmentsFor sf tag;
                       absolute = (if tgPath tag \<noteq> [] then Some (ParsePath (tgPath tag)) else None)
                   in Some \<lparr>fpAnonymous = sfAnonymous sf, fpTag = tag, fpSegs = segs, fpAbs = absolute,
                        fpKey = pathString (case absolute of Some p \<Rightarrow> p | None \<Rightarrow> segs),
                        fpAliases = map ParsePath (tgAliases tag),
                        fpSecret = (isSecretType T \<or> scanSecrets (boTag B) T),
                        fpWalkable = (tgFormat tag = [] \<and> structFields T \<noteq> None)\<rparr>)"

definition nestedPath :: "fieldPlan \<Rightarrow> path \<Rightarrow> path" where
  "nestedPath fp prefix =
     (if tgInline (fpTag fp) \<or> fpAnonymous fp \<and> tgName (fpTag fp) = [] then prefix
      else pathAppend prefix (fpSegs fp))"

definition leafPath :: "fieldPlan \<Rightarrow> path \<Rightarrow> path" where
  "leafPath fp prefix = (case fpAbs fp of Some p \<Rightarrow> p | None \<Rightarrow> pathAppend prefix (fpSegs fp))"

definition leafKey :: "fieldPlan \<Rightarrow> path \<Rightarrow> string" where
  "leafKey fp prefix =
     (if fpAbs fp \<noteq> None \<or> prefix = [] then fpKey fp else pathString (pathAppend prefix (fpSegs fp)))"


section \<open>Looking up\<close>

definition lookupSnapshot :: "registry \<Rightarrow> path option \<Rightarrow> string \<Rightarrow> readMode \<Rightarrow> govalue option" where
  "lookupSnapshot r p ks mode =
     (case rgSnapshot r of None \<Rightarrow> None | Some snap \<Rightarrow> readSnap snap ks p mode)"

fun aliasHit :: "registry \<Rightarrow> path list \<Rightarrow> readMode \<Rightarrow> govalue option" where
  "aliasHit r [] mode = None"
| "aliasHit r (a # as) mode =
     (case lookupSnapshot r (Some a) (pathString a) mode of
        Some v \<Rightarrow> Some v | None \<Rightarrow> aliasHit r as mode)"

definition bindLookup :: "registry \<Rightarrow> string \<Rightarrow> string \<Rightarrow> path list \<Rightarrow> readMode \<Rightarrow> govalue option" where
  "bindLookup r ks source aliases mode =
     (case lookupSnapshot r None ks mode of
        None \<Rightarrow> aliasHit r aliases mode
      | Some v \<Rightarrow> if source \<noteq> [] \<and> vsource v \<noteq> source then None else Some v)"

definition hasKeysUnder :: "registry \<Rightarrow> path \<Rightarrow> bool" where
  "hasKeysUnder r p =
     (case rgSnapshot r of None \<Rightarrow> False | Some snap \<Rightarrow> answers snap (pathString p) (Some p))"


section \<open>Values of a leaf\<close>

definition bindEnv :: "bindOpts \<Rightarrow> registry \<Rightarrow> coerceEnv" where
  "bindEnv B r = (boEnv B)\<lparr>ceTagName := boTag B, ceExpand := Some (\<lambda>s.
     case expandValueRefs (ceFormat (boEnv B)) (boView B) r s of Inl e \<Rightarrow> Inl (boErrText B e) | Inr t \<Rightarrow> Inr t)\<rparr>"

definition applyFromFile :: "bindOpts \<Rightarrow> govalue \<Rightarrow> bindCause + govalue" where
  "applyFromFile B v =
     (let p = valueString (ceFormat (boEnv B)) v
      in if p = [] then Inl (CauseCoerce CEmptyFilePath)
         else (case ceReadFile (boEnv B) p of
                 Inl e \<Rightarrow> Inl (CauseCoerce (CReadFile e)) | Inr bs \<Rightarrow> Inr (textValue bs)))"

definition applyExpand :: "bindOpts \<Rightarrow> registry \<Rightarrow> govalue \<Rightarrow> bindCause + govalue" where
  "applyExpand B r v =
     (case expandValueRefs (ceFormat (boEnv B)) (boView B) r (valueString (ceFormat (boEnv B)) v) of
        Inl e \<Rightarrow> Inl (CauseExpand e) | Inr s \<Rightarrow> Inr (textValue s))"

definition applyFormatDecode :: "bindOpts \<Rightarrow> govalue \<Rightarrow> string \<Rightarrow> bindCause + govalue" where
  "applyFormatDecode B v format =
     (case boCodec B format of
        None \<Rightarrow> Inl (CauseNoCodec format)
      | Some decode \<Rightarrow>
          (case decode (valueString (ceFormat (boEnv B)) v) of
             Inl e \<Rightarrow> Inl (CauseDecode e) | Inr a \<Rightarrow> Inr (NewValue a)))"

definition applyTransforms :: "bindOpts \<Rightarrow> registry \<Rightarrow> govalue \<Rightarrow> ftag \<Rightarrow> bindCause + govalue" where
  "applyTransforms B r v0 tag =
     (case (if tgFromFile tag then applyFromFile B v0 else Inr v0) of
        Inl e \<Rightarrow> Inl e
      | Inr v1 \<Rightarrow>
          (case (if tgExpand tag then applyExpand B r v1 else Inr v1) of
             Inl e \<Rightarrow> Inl e
           | Inr v2 \<Rightarrow>
               if tgFormat tag \<noteq> [] \<and> Kind v2 \<noteq> MapKind then applyFormatDecode B v2 (tgFormat tag)
               else Inr v2))"

definition genericDeprecationMessage :: "path \<Rightarrow> string" where
  "genericDeprecationMessage p = ''recon: key '' @ pathString p @ '' is deprecated''"

definition queueDeprecation :: "path \<Rightarrow> string \<Rightarrow> ftag \<Rightarrow> registry \<Rightarrow> registry" where
  "queueDeprecation p source tag r =
     queueWarning \<lparr>dwPath = p, dwSource = source, dwReplacement = [],
       dwMessage = (if tgDeprecation tag = [] then genericDeprecationMessage p else tgDeprecation tag)\<rparr> r"

definition noteFound :: "path \<Rightarrow> string \<Rightarrow> govalue \<Rightarrow> ftag \<Rightarrow> walkState \<Rightarrow> walkState" where
  "noteFound p ks v tag w =
     (let w1 = (if Kind v = MapKind then w\<lparr>wkTrees := wkTrees w @ [ks]\<rparr> else w);
          w2 = (if tgImmutable tag then w1\<lparr>wkReg := markImmutable p v (wkReg w1)\<rparr> else w1)
      in if tgDeprecated tag then w2\<lparr>wkReg := queueDeprecation p (vsource v) tag (wkReg w2)\<rparr> else w2)"

definition applyPostBind :: "path \<Rightarrow> ftag \<Rightarrow> walkState \<Rightarrow> walkState" where
  "applyPostBind p tag w =
     (if tgUnset tag then w\<lparr>wkReg := snd (opUnset [] (pathString p) (wkReg w))\<rparr> else w)"

definition appendErr :: "bindError \<Rightarrow> walkState \<Rightarrow> walkState" where
  "appendErr e w = w\<lparr>wkErrs := wkErrs w @ [e]\<rparr>"

definition shouldShortCircuit :: "bindOpts \<Rightarrow> walkState \<Rightarrow> bool" where
  "shouldShortCircuit B w = (boFailFast B \<and> wkErrs w \<noteq> [])"


section \<open>Leaves\<close>

text \<open>\<open>bindLeaf\<close> from the point where the value is known: decoding, transforms, conversion.\<close>

definition coercionErr :: "gtype \<Rightarrow> path \<Rightarrow> string \<Rightarrow> bool \<Rightarrow> govalue \<Rightarrow> bindCause \<Rightarrow> walkState \<Rightarrow> walkState" where
  "coercionErr T p ks secret v cause w =
     appendErr (BindCoercion p (vsource v) (kindString (Kind v)) T cause
       (secret \<or> IsSecret [] ks (wkReg w))) w"

definition assignLeaf ::
  "bindOpts \<Rightarrow> ftag \<Rightarrow> gtype \<Rightarrow> path \<Rightarrow> string \<Rightarrow> bool \<Rightarrow> govalue \<Rightarrow> gval \<Rightarrow> walkState \<Rightarrow> gval \<times> walkState" where
  "assignLeaf B tag T p ks secret v x w =
     (case boDecoder B T of
        Some dec \<Rightarrow>
          (case dec v of
             DecError e \<Rightarrow> (x, coercionErr T p ks secret v (CauseDecoder e) w)
           | DecMismatch name \<Rightarrow>
               (x, appendErr (BindCoercion p [] [] T (CauseUnassignable name)
                     (secret \<or> IsSecret [] ks (wkReg w))) w)
           | DecNil \<Rightarrow> (x, applyPostBind p tag w)
           | DecValue y \<Rightarrow> (y, applyPostBind p tag w))
      | None \<Rightarrow>
          (case applyTransforms B (wkReg w) v tag of
             Inl cause \<Rightarrow> (x, coercionErr T p ks secret v cause w)
           | Inr v' \<Rightarrow>
               if tgNotEmpty tag \<and> isEmptyValue (ceFormat (boEnv B)) v'
               then (x, appendErr (BindEmpty p (vsource v')) w)
               else (case coerceWith (bindEnv B (wkReg w)) T v' tag x of
                       Inl e \<Rightarrow> (coerceLeft (bindEnv B (wkReg w)) T v' tag x,
                                 coercionErr T p ks secret v' (CauseCoerce e) w)
                     | Inr y \<Rightarrow> (y, applyPostBind p tag w))))"

definition bindLeaf ::
  "bindOpts \<Rightarrow> fieldPlan \<Rightarrow> gtype \<Rightarrow> path \<Rightarrow> bool \<Rightarrow> gval \<Rightarrow> walkState \<Rightarrow> gval \<times> walkState" where
  "bindLeaf B fp T prefix inherited x w =
     (let tag = fpTag fp;
          p = leafPath fp prefix;
          ks = leafKey fp prefix;
          secret = (tgSecret tag \<or> inherited \<or> fpSecret fp);
          w1 = w\<lparr>wkConsulted := fold sadd (ks # map pathString (fpAliases fp)) (wkConsulted w),
                 wkSecrets := wkSecrets w @ (if secret then [ks] else [])\<rparr>;
          hit = bindLookup (wkReg w1) ks (tgSource tag) (fpAliases fp) (leafReadMode T tag);
          found = (case hit of
                     Some v \<Rightarrow> if (tgRequired tag \<or> tgHasDefault tag) \<and> Kind v = NullKind then None else Some v
                   | None \<Rightarrow> None)
      in case found of
           Some v \<Rightarrow> assignLeaf B tag T p ks secret v x (noteFound p ks v tag w1)
         | None \<Rightarrow>
             if tgHasDefault tag then assignLeaf B tag T p ks secret (textValue (tgDefault tag)) x w1
             else if tgRequired tag
             then (x, appendErr (BindMissing p (case hit of Some v \<Rightarrow> [vsource v] | None \<Rightarrow> [])) w1)
             else (x, w1))"


section \<open>The walk\<close>

text \<open>The fields of a struct value, its own or a new pointee's.\<close>

definition enterSecret :: "ftag \<Rightarrow> path \<Rightarrow> path \<Rightarrow> walkState \<Rightarrow> walkState" where
  "enterSecret tag nested prefix w =
     (if tgSecret tag \<and> length prefix < length nested
      then w\<lparr>wkSecrets := wkSecrets w @ [pathString nested]\<rparr> else w)"

text \<open>The fields of a nested struct the walk enters.\<close>

definition nestedFields :: "fieldPlan \<Rightarrow> gtype \<Rightarrow> (sfield \<times> gtype) list option" where
  "nestedFields fp T = (if fpWalkable fp then structFields T else None)"

lemma nestedFields_size: "nestedFields fp T = Some gs \<Longrightarrow> size_list (size_prod (\<lambda>_. 0) size) gs < Suc (size T)"
  by (cases T rule: structFields.cases) (auto simp: nestedFields_def split: if_splits)

function (sequential) walkFields ::
  "bindOpts \<Rightarrow> (sfield \<times> gtype) list \<Rightarrow> path \<Rightarrow> bool \<Rightarrow> gval list \<Rightarrow> walkState \<Rightarrow> gval list \<times> walkState" where
  "walkFields B [] prefix secret xs w = (xs, w)"
| "walkFields B ((sf, T) # fs) prefix secret [] w = ([], w)"
| "walkFields B ((sf, T) # fs) prefix secret (x # xs) w =
     (case planOf B sf T of
        None \<Rightarrow> (case walkFields B fs prefix secret xs w of (ys, w1) \<Rightarrow> (x # ys, w1))
      | Some fp \<Rightarrow>
          (let tag = fpTag fp;
               nested = nestedPath fp prefix;
               (y, w1) =
                 (case nestedFields fp T of
                    Some gs \<Rightarrow>
                      if x = GvPtr None \<and> tgOmitEmpty tag \<and> \<not> hasKeysUnder (wkReg w) nested then (x, w)
                      else (case walkFields B gs nested (secret \<or> tgSecret tag)
                                   (structVals (ceZeroTime (boEnv B)) gs x) (enterSecret tag nested prefix w) of
                              (ys, w1) \<Rightarrow> (wrapStruct T ys, w1))
                  | None \<Rightarrow> bindLeaf B fp T prefix secret x w)
           in if shouldShortCircuit B w1 then (y # xs, w1)
              else (case walkFields B fs prefix secret xs w1 of (ys, w2) \<Rightarrow> (y # ys, w2))))"
  by pat_completeness auto

termination
  by (relation "measure (\<lambda>(B, fs, prefix, secret, xs, w). size_list (size_prod (\<lambda>_. 0) size) fs)")
    (auto dest: nestedFields_size)


section \<open>Paths a bind will read\<close>

function (sequential) collectPaths ::
  "bindOpts \<Rightarrow> snapshot \<Rightarrow> (sfield \<times> gtype) list \<Rightarrow> path \<Rightarrow> (string \<times> path) list" where
  "collectPaths B snap [] prefix = []"
| "collectPaths B snap ((sf, T) # fs) prefix =
     (case planOf B sf T of
        None \<Rightarrow> []
      | Some fp \<Rightarrow>
          (case nestedFields fp T of
             Some gs \<Rightarrow> collectPaths B snap gs (nestedPath fp prefix)
           | None \<Rightarrow>
          (if answers snap (leafKey fp prefix) None then []
                else [(leafKey fp prefix, leafPath fp prefix)])
             @ concat (map (\<lambda>a. if answers snap (pathString a) (Some a) then [] else [(pathString a, a)])
                          (fpAliases fp))))
     @ collectPaths B snap fs prefix"
  by pat_completeness auto

termination
  by (relation "measure (\<lambda>(B, snap, fs, prefix). size_list (size_prod (\<lambda>_. 0) size) fs)")
    (auto dest: nestedFields_size)


section \<open>Strict mode\<close>

definition underConsultedTree :: "string list \<Rightarrow> string \<Rightarrow> bool" where
  "underConsultedTree trees ks = (\<exists>t \<in> set trees. hasPrefix ks (t @ DefaultDelimiter))"

text \<open>Does a source spell the path like a path the bind consulted?\<close>

definition spelledAlike :: "source list \<Rightarrow> strset \<Rightarrow> string \<Rightarrow> path \<Rightarrow> bool" where
  "spelledAlike ss consulted name p =
     (\<exists>s \<in> set ss. srcName s = name \<and>
        (case srcNative s of
           None \<Rightarrow> False
         | Some native \<Rightarrow> \<exists>ks \<in> set (mkeys consulted). native (ParsePath ks) = native p))"

definition unknownKey :: "bindOpts \<Rightarrow> snapshot \<Rightarrow> walkState \<Rightarrow> string \<times> path \<Rightarrow> bindError list" where
  "unknownKey B snap w = (\<lambda>(ks, p).
     if mhas (snAliases snap) ks then []
     else if boView B \<noteq> [] \<and> \<not> pathHasPrefix p (boView B) then []
     else if mhas (wkConsulted w) ks then []
     else if underConsultedTree (wkTrees w) ks then []
     else let src = (case mget (snSources snap) ks of Some (s # ss) \<Rightarrow> s | _ \<Rightarrow> [])
          in if spelledAlike (rgSources (wkReg w)) (wkConsulted w) src p then []
             else [BindUnknown p src])"

definition emitUnknownKeyErrors :: "bindOpts \<Rightarrow> walkState \<Rightarrow> walkState" where
  "emitUnknownKeyErrors B w =
     (case rgSnapshot (wkReg w) of
        None \<Rightarrow> w
      | Some snap \<Rightarrow> w\<lparr>wkErrs := wkErrs w @ concat (map (unknownKey B snap w) (zip (snKeyStrs snap) (snKeys snap)))\<rparr>)"


section \<open>Bind\<close>

definition runValidatorHooks :: "bindOpts \<Rightarrow> gval list \<Rightarrow> walkState \<Rightarrow> walkState" where
  "runValidatorHooks B xs w =
     (if shouldShortCircuit B w then w
      else case boHook B xs of None \<Rightarrow> w | Some e \<Rightarrow> appendErr (BindHook e) w)"

definition startWalk :: "bindOpts \<Rightarrow> (sfield \<times> gtype) list \<Rightarrow> registry \<Rightarrow> walkState" where
  "startWalk B fs r =
     \<lparr>wkReg = (case rgSnapshot r of
                 None \<Rightarrow> r
               | Some snap \<Rightarrow> (let missing = collectPaths B snap fs (boView B)
                             in if missing = [] then r else addBoundPaths missing r)),
      wkErrs = [], wkConsulted = [], wkTrees = [], wkSecrets = []\<rparr>"

definition bindStruct ::
  "bindOpts \<Rightarrow> (sfield \<times> gtype) list \<Rightarrow> gval list \<Rightarrow> registry \<Rightarrow> gval list \<times> walkState" where
  "bindStruct B fs xs r =
     (if rgClosed r then (xs, (startWalk B [] r)\<lparr>wkReg := r, wkErrs := [BindClosed]\<rparr>)
      else case walkFields B fs (boView B) False xs (startWalk B fs r) of
             (ys, w) \<Rightarrow>
               (let w1 = w\<lparr>wkReg := recordConsulted (mkeys (wkConsulted w)) (markSecrets (wkSecrets w) (wkReg w))\<rparr>;
                    w2 = runValidatorHooks B ys w1
                in (ys, if boStrict B then emitUnknownKeyErrors B w2 else w2)))"


section \<open>UnmarshalKey\<close>

text \<open>
  \<open>unmarshalKeyValue\<close>: a destination that takes the value at the key whole. The result is the
  destination, the error and the registry.
\<close>

definition decodeWhole ::
  "bindOpts \<Rightarrow> string \<Rightarrow> gtype \<Rightarrow> gval \<Rightarrow> govalue \<Rightarrow> registry \<Rightarrow> gval \<times> bindError option \<times> registry" where
  "decodeWhole B key T x v r =
     (let full = fullPath (boView B) (ParsePath key);
          fail = (\<lambda>y cause. (y, Some (BindCoercion full (vsource v) (kindString (Kind v)) T cause
                                     (IsSecret (boView B) key r)), r))
      in case boDecoder B T of
           Some dec \<Rightarrow>
             (case dec v of
                DecError e \<Rightarrow> fail x (CauseDecoder e)
              | DecMismatch name \<Rightarrow> fail x (CauseUnassignable name)
              | DecNil \<Rightarrow> (x, None, r)
              | DecValue y \<Rightarrow> (y, None, r))
         | None \<Rightarrow>
             (case coerceWith (bindEnv B r) T v noTag x of
                Inl e \<Rightarrow> fail (coerceLeft (bindEnv B r) T v noTag x) (CauseCoerce e)
              | Inr y \<Rightarrow> (y, None, r)))"

definition unmarshalKeyValue ::
  "bindOpts \<Rightarrow> string \<Rightarrow> gtype \<Rightarrow> gval \<Rightarrow> registry \<Rightarrow> gval \<times> bindError option \<times> registry" where
  "unmarshalKeyValue B key T x r =
     (if rgClosed r then (x, Some BindClosed, r)
      else let r1 = (if isSecretType T \<or> scanSecrets (boTag B) T then MarkSecret (boView B) key r else r);
               full = fullPath (boView B) (ParsePath key);
               r2 = resolveBindPaths [(pathString full, full)] r1
           in case regGet (boView B) key (leafReadMode T noTag) r2 of
                Inl e \<Rightarrow> (x, Some BindClosed, r2)
              | Inr None \<Rightarrow> (x, None, r2)
              | Inr (Some v) \<Rightarrow> decodeWhole B key T x v r2)"

text \<open>\<open>UnmarshalKey\<close>: a struct binds in the view of the key.\<close>

definition UnmarshalKey ::
  "bindOpts \<Rightarrow> string \<Rightarrow> gtype \<Rightarrow> gval \<Rightarrow> registry \<Rightarrow> gval \<times> bindError list \<times> registry" where
  "UnmarshalKey B key T x r =
     (case T of
        TyStruct fs \<Rightarrow>
          (let B' = (if key = [] then B else B\<lparr>boView := Sub (boView B) key\<rparr>)
           in case bindStruct B' fs (structVals (ceZeroTime (boEnv B)) fs x) r of
                (ys, w) \<Rightarrow> (GvStruct ys, wkErrs w, wkReg w))
      | _ \<Rightarrow>
          (case unmarshalKeyValue B key T x r of
             (y, None, r') \<Rightarrow> (y, [], r') | (y, Some e, r') \<Rightarrow> (y, [e], r')))"

end
