(* ===== verification/BindProps.thy ===== *)
theory BindProps
  imports Bind
begin

text \<open>
  The properties of binding: the struct it leaves is well typed, the registry it leaves is one the
  registry's operations reach, and in collect mode every required field without a value is reported.
\<close>

section \<open>Effects on the registry\<close>

lemma opStep_intro: "applyOp op r = (e, r') \<Longrightarrow> opStep\<^sup>*\<^sup>* r r'"
  by (rule r_into_rtranclp) (auto simp: opStep_def)

lemma opStep_marks:
  "opStep\<^sup>*\<^sup>* r (markImmutable p v r)" "opStep\<^sup>*\<^sup>* r (queueWarning d r)" "opStep\<^sup>*\<^sup>* r (markSecrets ks r)"
  "opStep\<^sup>*\<^sup>* r (recordConsulted ks r)" "opStep\<^sup>*\<^sup>* r (addBoundPaths m r)" "opStep\<^sup>*\<^sup>* r (snd (opUnset pre k r))"
proof -
  show "opStep\<^sup>*\<^sup>* r (markImmutable p v r)" by (rule opStep_intro[of "OpMarkImmutable p v"]) simp
  show "opStep\<^sup>*\<^sup>* r (queueWarning d r)" by (rule opStep_intro[of "OpQueueWarning d"]) simp
  show "opStep\<^sup>*\<^sup>* r (markSecrets ks r)" by (rule opStep_intro[of "OpMarkSecrets ks"]) simp
  show "opStep\<^sup>*\<^sup>* r (recordConsulted ks r)" by (rule opStep_intro[of "OpRecordConsulted ks"]) simp
  show "opStep\<^sup>*\<^sup>* r (addBoundPaths m r)" by (rule opStep_intro[of "OpAddBoundPaths m"]) simp
  show "opStep\<^sup>*\<^sup>* r (snd (opUnset pre k r))" by (rule opStep_intro[of "OpUnset pre k" _ "fst (opUnset pre k r)"]) simp
qed

lemma appendErr_frame [simp]:
  "wkReg (appendErr e w) = wkReg w" "wkSecrets (appendErr e w) = wkSecrets w"
  "wkErrs (appendErr e w) = wkErrs w @ [e]" "wkConsulted (appendErr e w) = wkConsulted w"
  by (simp_all add: appendErr_def)

lemma coercionErr_frame [simp]:
  "wkReg (coercionErr T p ks s v c w) = wkReg w" "wkSecrets (coercionErr T p ks s v c w) = wkSecrets w"
  by (simp_all add: coercionErr_def)

lemma applyPostBind_frame [simp]:
  "wkErrs (applyPostBind p tag w) = wkErrs w" "wkSecrets (applyPostBind p tag w) = wkSecrets w"
  by (simp_all add: applyPostBind_def)

lemma noteFound_frame [simp]:
  "wkErrs (noteFound p ks v tag w) = wkErrs w" "wkSecrets (noteFound p ks v tag w) = wkSecrets w"
  by (simp_all add: noteFound_def Let_def)

lemma enterSecret_frame [simp]:
  "wkReg (enterSecret tag n p w) = wkReg w" "wkErrs (enterSecret tag n p w) = wkErrs w"
  "\<exists>ss. wkSecrets (enterSecret tag n p w) = wkSecrets w @ ss"
  by (simp_all add: enterSecret_def)

lemma noteFound_ops: "opStep\<^sup>*\<^sup>* (wkReg w) (wkReg (noteFound p ks v tag w))"
proof -
  have "opStep\<^sup>*\<^sup>* r (if b then markImmutable p v r else r)" for r b by (simp add: opStep_marks)
  moreover have "opStep\<^sup>*\<^sup>* r (if b then queueDeprecation p s tag r else r)" for r b s
    by (simp add: queueDeprecation_def opStep_marks)
  ultimately show ?thesis
    unfolding noteFound_def Let_def by (auto simp: queueDeprecation_def intro: opStep_marks rtranclp_trans)
qed

lemma applyPostBind_ops: "opStep\<^sup>*\<^sup>* (wkReg w) (wkReg (applyPostBind p tag w))"
  by (simp add: applyPostBind_def opStep_marks)

lemma assignLeaf_ops: "opStep\<^sup>*\<^sup>* (wkReg w) (wkReg (snd (assignLeaf B tag T p ks secret v x w)))"
  using applyPostBind_ops[of w p tag]
  by (auto simp: assignLeaf_def split: option.split decoded.split sum.split)

lemma bindLeaf_ops: "opStep\<^sup>*\<^sup>* (wkReg w) (wkReg (snd (bindLeaf B fp T prefix inh x w)))"
proof -
  have "opStep\<^sup>*\<^sup>* (wkReg w) (wkReg (snd (assignLeaf B tag T p ks s v x (noteFound p' ks' v' tag' w1))))"
    if "wkReg w1 = wkReg w" for tag p ks s v p' ks' v' tag' w1
    using rtranclp_trans[OF noteFound_ops assignLeaf_ops] that by metis
  moreover have "opStep\<^sup>*\<^sup>* (wkReg w) (wkReg (snd (assignLeaf B tag T p ks s v x w1)))"
    if "wkReg w1 = wkReg w" for tag p ks s v w1
    using assignLeaf_ops that by metis
  ultimately show ?thesis
    unfolding bindLeaf_def Let_def by (auto split: option.split if_split)
qed

section \<open>Induction over a walk\<close>

lemma walk_skip:
  "planOf B sf T = None \<Longrightarrow> walkFields B ((sf, T) # fs) prefix secret (x # xs) w =
     (x # fst (walkFields B fs prefix secret xs w), snd (walkFields B fs prefix secret xs w))"
  by (simp split: prod.split)

lemma walk_leaf:
  assumes "planOf B sf T = Some fp" and "nestedFields fp T = None"
    and "bindLeaf B fp T prefix secret x w = (y, w1)"
  shows "walkFields B ((sf, T) # fs) prefix secret (x # xs) w =
     (if shouldShortCircuit B w1 then (y # xs, w1)
      else (y # fst (walkFields B fs prefix secret xs w1), snd (walkFields B fs prefix secret xs w1)))"
  using assms by (simp split: prod.split)

lemma walk_nested:
  assumes "planOf B sf T = Some fp" and "nestedFields fp T = Some gs"
    and "\<not> (x = GvPtr None \<and> tgOmitEmpty (fpTag fp) \<and> \<not> hasKeysUnder (wkReg w) (nestedPath fp prefix))"
    and "walkFields B gs (nestedPath fp prefix) (secret \<or> tgSecret (fpTag fp))
           (structVals (ceZeroTime (boEnv B)) gs x) (enterSecret (fpTag fp) (nestedPath fp prefix) prefix w) = (ys, w1)"
  shows "walkFields B ((sf, T) # fs) prefix secret (x # xs) w =
     (if shouldShortCircuit B w1 then (wrapStruct T ys # xs, w1)
      else (wrapStruct T ys # fst (walkFields B fs prefix secret xs w1), snd (walkFields B fs prefix secret xs w1)))"
  using assms by (simp add: if_not_P[OF assms(3)] split: prod.split)

lemma walk_absent:
  assumes "planOf B sf T = Some fp" and "nestedFields fp T = Some gs"
    and "x = GvPtr None \<and> tgOmitEmpty (fpTag fp) \<and> \<not> hasKeysUnder (wkReg w) (nestedPath fp prefix)"
  shows "walkFields B ((sf, T) # fs) prefix secret (x # xs) w =
     (if shouldShortCircuit B w then (x # xs, w)
      else (x # fst (walkFields B fs prefix secret xs w), snd (walkFields B fs prefix secret xs w)))"
  using assms by (simp split: prod.split)

declare walkFields.simps(3) [simp del]

lemma walk_induct [case_names Nil Short Skip Leaf Nested Absent]:
  assumes "\<And>prefix secret xs w. P [] prefix secret xs w"
    and "\<And>sf T fs prefix secret w. P ((sf, T) # fs) prefix secret [] w"
    and "\<And>sf T fs prefix secret x xs w. planOf B sf T = None \<Longrightarrow> P fs prefix secret xs w \<Longrightarrow>
      P ((sf, T) # fs) prefix secret (x # xs) w"
    and "\<And>sf T fs prefix secret x xs w fp y w1. planOf B sf T = Some fp \<Longrightarrow> nestedFields fp T = None \<Longrightarrow>
      bindLeaf B fp T prefix secret x w = (y, w1) \<Longrightarrow>
      (\<not> shouldShortCircuit B w1 \<Longrightarrow> P fs prefix secret xs w1) \<Longrightarrow> P ((sf, T) # fs) prefix secret (x # xs) w"
    and "\<And>sf T fs prefix secret x xs w fp gs ys w1. planOf B sf T = Some fp \<Longrightarrow> nestedFields fp T = Some gs \<Longrightarrow>
      \<not> (x = GvPtr None \<and> tgOmitEmpty (fpTag fp) \<and> \<not> hasKeysUnder (wkReg w) (nestedPath fp prefix)) \<Longrightarrow>
      P gs (nestedPath fp prefix) (secret \<or> tgSecret (fpTag fp)) (structVals (ceZeroTime (boEnv B)) gs x)
        (enterSecret (fpTag fp) (nestedPath fp prefix) prefix w) \<Longrightarrow>
      walkFields B gs (nestedPath fp prefix) (secret \<or> tgSecret (fpTag fp))
        (structVals (ceZeroTime (boEnv B)) gs x) (enterSecret (fpTag fp) (nestedPath fp prefix) prefix w) = (ys, w1) \<Longrightarrow>
      (\<not> shouldShortCircuit B w1 \<Longrightarrow> P fs prefix secret xs w1) \<Longrightarrow> P ((sf, T) # fs) prefix secret (x # xs) w"
    and "\<And>sf T fs prefix secret x xs w fp gs. planOf B sf T = Some fp \<Longrightarrow> nestedFields fp T = Some gs \<Longrightarrow>
      x = GvPtr None \<and> tgOmitEmpty (fpTag fp) \<and> \<not> hasKeysUnder (wkReg w) (nestedPath fp prefix) \<Longrightarrow>
      (\<not> shouldShortCircuit B w \<Longrightarrow> P fs prefix secret xs w) \<Longrightarrow> P ((sf, T) # fs) prefix secret (x # xs) w"
  shows "P fs prefix secret xs w"
proof (induction "size_list (size_prod (\<lambda>_. 0) size) fs" arbitrary: fs prefix secret xs w rule: less_induct)
  case (less fs prefix secret xs w)
  show ?case
  proof (cases fs)
    case Nil
    then show ?thesis using assms(1) by simp
  next
    case (Cons f fs')
    obtain sf T where f: "f = (sf, T)" by force
    have rest: "P fs' prefix secret xs w" for prefix secret xs w by (rule less) (simp add: Cons)
    show ?thesis
    proof (cases xs)
      case Nil
      then show ?thesis using assms(2) Cons f by simp
    next
      case (Cons x xs')
      have sub: "nestedFields fp T = Some gs \<Longrightarrow> P gs prefix secret ys w" for fp gs prefix secret ys w
        by (rule less) (use nestedFields_size[of fp T gs] in \<open>simp add: \<open>fs = f # fs'\<close> f\<close>)
      have "P ((sf, T) # fs') prefix secret (x # xs') w"
      proof (cases "planOf B sf T")
        case None
        then show ?thesis by (rule assms(3)) (rule rest)
      next
        case plan: (Some fp)
        show ?thesis
        proof (cases "nestedFields fp T")
          case None
          obtain y w1 where "bindLeaf B fp T prefix secret x w = (y, w1)" by force
          with plan None show ?thesis by (rule assms(4)) (rule rest)
        next
          case gs: (Some gs)
          obtain ys w1 where walk: "walkFields B gs (nestedPath fp prefix) (secret \<or> tgSecret (fpTag fp))
              (structVals (ceZeroTime (boEnv B)) gs x) (enterSecret (fpTag fp) (nestedPath fp prefix) prefix w) = (ys, w1)"
            by force
          show ?thesis
          proof (cases "x = GvPtr None \<and> tgOmitEmpty (fpTag fp) \<and> \<not> hasKeysUnder (wkReg w) (nestedPath fp prefix)")
            case True
            with plan gs show ?thesis by (rule assms(6)) (rule rest)
          next
            case False
            from plan gs False sub[OF gs] walk show ?thesis by (rule assms(5)) (rule rest)
          qed
        qed
      qed
      then show ?thesis by (simp add: \<open>fs = f # fs'\<close> \<open>xs = x # xs'\<close> f)
    qed
  qed
qed

text \<open>A relation that every leaf keeps holds between the ends of a walk.\<close>

lemma walk_rel:
  assumes refl: "\<And>w. R w w" and trans: "\<And>u v w. R u v \<Longrightarrow> R v w \<Longrightarrow> R u w"
    and leaf: "\<And>fp T prefix inh x w. R w (snd (bindLeaf B fp T prefix inh x w))"
    and enter: "\<And>tag n p w. R w (enterSecret tag n p w)"
  shows "R w (snd (walkFields B fs prefix secret xs w))"
proof (induction fs prefix secret xs w rule: walk_induct[of _ B])
  case (Leaf sf T fs prefix secret x xs w fp y w1)
  have "R w w1" using leaf[of w fp T prefix secret x] Leaf.hyps(3) by simp
  with Leaf.IH show ?case by (auto simp: walk_leaf[OF Leaf.hyps] intro: trans)
next
  case (Nested sf T fs prefix secret x xs w fp gs ys w1)
  have "R w w1" using trans[OF enter Nested.IH(1)] Nested.hyps(4) by simp
  with Nested.IH(2) show ?case by (auto simp: walk_nested[OF Nested.hyps] intro: trans)
next
  case (Absent sf T fs prefix secret x xs w fp gs)
  then show ?case by (simp add: walk_absent refl)
qed (simp_all add: refl walk_skip)

lemma walkFields_ops: "opStep\<^sup>*\<^sup>* (wkReg w) (wkReg (snd (walkFields B fs prefix secret xs w)))"
  by (rule walk_rel[where R = "\<lambda>u v. opStep\<^sup>*\<^sup>* (wkReg u) (wkReg v)"]) (auto intro: bindLeaf_ops)

lemma bindStruct_ops: "opStep\<^sup>*\<^sup>* r (wkReg (snd (bindStruct B fs xs r)))"
proof -
  have start: "opStep\<^sup>*\<^sup>* r (wkReg (startWalk B fs r))"
    by (auto simp: startWalk_def Let_def opStep_marks split: option.split)
  obtain ys w where w: "walkFields B fs (boView B) False xs (startWalk B fs r) = (ys, w)" by force
  have walk: "opStep\<^sup>*\<^sup>* r (wkReg w)" using rtranclp_trans[OF start walkFields_ops] w by (metis snd_conv)
  have hooks: "wkReg (runValidatorHooks B ys v) = wkReg v" for v
    by (simp add: runValidatorHooks_def split: option.split)
  have strict: "wkReg (if boStrict B then emitUnknownKeyErrors B v else v) = wkReg v" for v
    by (simp add: emitUnknownKeyErrors_def split: option.split)
  have "opStep\<^sup>*\<^sup>* (wkReg w) (recordConsulted ks (markSecrets ss (wkReg w)))" for ks ss
    using rtranclp_trans[OF opStep_marks(3,4)] .
  then show ?thesis
    using rtranclp_trans[OF walk]
    by (simp add: bindStruct_def w Let_def hooks strict)
qed



section \<open>Types\<close>

definition decodersTyped :: "bindOpts \<Rightarrow> bool" where
  "decodersTyped B = (\<forall>T dec v y. boDecoder B T = Some dec \<longrightarrow> dec v = DecValue y \<longrightarrow> hasType T y)"

lemma assignLeaf_typed:
  assumes "decodersTyped B" and "hasType T x"
  shows "hasType T (fst (assignLeaf B tag T p ks secret v x w))"
proof (cases "boDecoder B T")
  case (Some dec)
  with assms show ?thesis by (auto simp: assignLeaf_def decodersTyped_def split: decoded.split)
next
  case None
  then show ?thesis
    using assms coerce_typed(1)[OF assms(2)] left_typed(1)[OF assms(2)]
    by (auto simp: assignLeaf_def split: sum.split)
qed

lemma bindLeaf_typed:
  assumes "decodersTyped B" and "hasType T x"
  shows "hasType T (fst (bindLeaf B fp T prefix inh x w))"
  using assms(2) assignLeaf_typed[OF assms] unfolding bindLeaf_def Let_def by (auto split: option.split if_split)

lemma nested_typed:
  assumes "nestedFields fp T = Some gs"
  shows "hasType T x \<Longrightarrow> fieldsTyped gs (structVals z gs x)" and "fieldsTyped gs ys \<Longrightarrow> hasType T (wrapStruct T ys)"
proof -
  have "T = TyStruct gs \<or> T = TyPtr (TyStruct gs)"
    using assms by (cases T rule: structFields.cases) (auto simp: nestedFields_def split: if_splits)
  then show "hasType T x \<Longrightarrow> fieldsTyped gs (structVals z gs x)" "fieldsTyped gs ys \<Longrightarrow> hasType T (wrapStruct T ys)"
    by (auto intro: structVals_typed simp: hasType_struct)
qed

lemma walkFields_typed:
  "decodersTyped B \<Longrightarrow> fieldsTyped fs xs \<Longrightarrow> fieldsTyped fs (fst (walkFields B fs prefix secret xs w))"
proof (induction fs prefix secret xs w rule: walk_induct[of _ B])
  case (Leaf sf T fs prefix secret x xs w fp y w1)
  have "hasType T y" using bindLeaf_typed[OF Leaf.prems(1), of T x fp prefix secret w] Leaf.prems(2) Leaf.hyps(3) by simp
  with Leaf.IH Leaf.prems show ?case by (simp add: walk_leaf[OF Leaf.hyps])
next
  case (Nested sf T fs prefix secret x xs w fp gs ys w1)
  have "fieldsTyped gs ys"
    using Nested.IH(1)[OF Nested.prems(1) nested_typed(1)[OF Nested.hyps(2)]] Nested.prems(2) Nested.hyps(4) by simp
  then have "hasType T (wrapStruct T ys)" by (rule nested_typed(2)[OF Nested.hyps(2)])
  with Nested.IH(2) Nested.prems show ?case by (simp add: walk_nested[OF Nested.hyps])
next
  case (Absent sf T fs prefix secret x xs w fp gs)
  then show ?case by (simp add: walk_absent)
qed (simp_all add: walk_skip)


section \<open>The leaves a walk meets\<close>

type_synonym leaf = "fieldPlan \<times> gtype \<times> path \<times> bool"

function (sequential) walkedLeaves ::
  "registry \<Rightarrow> bindOpts \<Rightarrow> (sfield \<times> gtype) list \<Rightarrow> path \<Rightarrow> bool \<Rightarrow> gval list \<Rightarrow> leaf list" where
  "walkedLeaves r B [] prefix secret xs = []"
| "walkedLeaves r B ((sf, T) # fs) prefix secret [] = []"
| "walkedLeaves r B ((sf, T) # fs) prefix secret (x # xs) =
     (case planOf B sf T of
        None \<Rightarrow> []
      | Some fp \<Rightarrow>
          (case nestedFields fp T of
             None \<Rightarrow> [(fp, T, prefix, secret)]
           | Some gs \<Rightarrow>
               if x = GvPtr None \<and> tgOmitEmpty (fpTag fp) \<and> \<not> hasKeysUnder r (nestedPath fp prefix) then []
               else walkedLeaves r B gs (nestedPath fp prefix) (secret \<or> tgSecret (fpTag fp))
                      (structVals (ceZeroTime (boEnv B)) gs x)))
     @ walkedLeaves r B fs prefix secret xs"
  by pat_completeness auto

termination
  by (relation "measure (\<lambda>(r, B, fs, prefix, secret, xs). size_list (size_prod (\<lambda>_. 0) size) fs)")
    (auto dest: nestedFields_size)

declare walkedLeaves.simps(3) [simp del]

lemmas walked_step = walkedLeaves.simps(3)

definition noUnset :: "leaf list \<Rightarrow> bool" where
  "noUnset ls = list_all (\<lambda>(fp, T, p, s). \<not> tgUnset (fpTag fp)) ls"

definition leafHit :: "registry \<Rightarrow> leaf \<Rightarrow> govalue option" where
  "leafHit r = (\<lambda>(fp, T, prefix, s).
     bindLookup r (leafKey fp prefix) (tgSource (fpTag fp)) (fpAliases fp) (leafReadMode T (fpTag fp)))"

definition missingOf :: "registry \<Rightarrow> leaf \<Rightarrow> bindError list" where
  "missingOf r = (\<lambda>(fp, T, prefix, s).
     let hit = leafHit r (fp, T, prefix, s)
     in if tgRequired (fpTag fp) \<and> \<not> tgHasDefault (fpTag fp)
           \<and> (case hit of None \<Rightarrow> True | Some v \<Rightarrow> Kind v = NullKind)
        then [BindMissing (leafPath fp prefix) (case hit of Some v \<Rightarrow> [vsource v] | None \<Rightarrow> [])] else [])"

fun isMissing :: "bindError \<Rightarrow> bool" where
  "isMissing (BindMissing p ss) = True"
| "isMissing e = False"

lemma noUnset_simps [simp]: "noUnset []" "noUnset (l # ls) \<longleftrightarrow> \<not> tgUnset (fpTag (fst l)) \<and> noUnset ls"
  "noUnset (ls @ ms) \<longleftrightarrow> noUnset ls \<and> noUnset ms"
  by (auto simp: noUnset_def)

lemma walkedLeaves_cong:
  "hasKeysUnder r = hasKeysUnder r' \<Longrightarrow>
   walkedLeaves r B fs prefix secret xs = walkedLeaves r' B fs prefix secret xs"
  by (induction r B fs prefix secret xs rule: walkedLeaves.induct) (auto simp: walked_step split: option.split)

lemma lookup_cong:
  assumes "rgSnapshot r = rgSnapshot r'"
  shows "hasKeysUnder r = hasKeysUnder r'" and "bindLookup r ks s as mode = bindLookup r' ks s as mode"
    and "walkedLeaves r B fs prefix secret xs = walkedLeaves r' B fs prefix secret xs"
    and "missingOf r = missingOf r'"
proof -
  show h: "hasKeysUnder r = hasKeysUnder r'" by (rule ext) (simp add: hasKeysUnder_def assms)
  have l: "lookupSnapshot r = lookupSnapshot r'" by (intro ext) (simp add: lookupSnapshot_def assms)
  have a: "aliasHit r as mode = aliasHit r' as mode" for as mode by (induction as) (simp_all add: l cong: deep_cong)
  show b: "bindLookup r ks s as mode = bindLookup r' ks s as mode" for ks s as mode
    by (simp add: bindLookup_def l a cong: deep_cong)
  show "walkedLeaves r B fs prefix secret xs = walkedLeaves r' B fs prefix secret xs"
    by (rule walkedLeaves_cong[OF h])
  show "missingOf r = missingOf r'" by (simp add: missingOf_def leafHit_def b cong: deep_cong)
qed

lemma assignLeaf_effect:
  assumes "\<not> tgUnset tag"
  shows "rgSnapshot (wkReg (snd (assignLeaf B tag T p ks secret v x w))) = rgSnapshot (wkReg w)"
    and "filter isMissing (wkErrs (snd (assignLeaf B tag T p ks secret v x w))) = filter isMissing (wkErrs w)"
    and "wkSecrets (snd (assignLeaf B tag T p ks secret v x w)) = wkSecrets w"
  using assms
  by (auto simp: assignLeaf_def coercionErr_def applyPostBind_def split: option.split decoded.split sum.split)

lemma noteFound_snapshot: "rgSnapshot (wkReg (noteFound p ks v tag w)) = rgSnapshot (wkReg w)"
  by (simp add: noteFound_def Let_def markImmutable_def queueDeprecation_def queueWarning_def)

lemma bindLeaf_effect:
  assumes "\<not> tgUnset (fpTag fp)" and "bindLeaf B fp T prefix inh x w = (y, w1)"
  shows "rgSnapshot (wkReg w1) = rgSnapshot (wkReg w)
    \<and> filter isMissing (wkErrs w1) = filter isMissing (wkErrs w) @ missingOf (wkReg w) (fp, T, prefix, inh)"
proof -
  define secret where "secret = (tgSecret (fpTag fp) \<or> inh \<or> fpSecret fp)"
  define w0 where "w0 = w\<lparr>wkConsulted := fold sadd (leafKey fp prefix # map pathString (fpAliases fp)) (wkConsulted w),
                 wkSecrets := wkSecrets w @ (if secret then [leafKey fp prefix] else [])\<rparr>"
  define hit where "hit = leafHit (wkReg w) (fp, T, prefix, inh)"
  define found where "found = (case hit of
      Some v \<Rightarrow> if (tgRequired (fpTag fp) \<or> tgHasDefault (fpTag fp)) \<and> Kind v = NullKind then None else Some v
    | None \<Rightarrow> None)"
  have hit0: "bindLookup (wkReg w0) (leafKey fp prefix) (tgSource (fpTag fp)) (fpAliases fp) (leafReadMode T (fpTag fp)) = hit"
    by (simp add: hit_def leafHit_def w0_def)
  have w0: "rgSnapshot (wkReg w0) = rgSnapshot (wkReg w)" "wkErrs w0 = wkErrs w"
    by (simp_all add: w0_def)
  have w1: "w1 = snd (case found of
      Some v \<Rightarrow> assignLeaf B (fpTag fp) T (leafPath fp prefix) (leafKey fp prefix) secret v x
                  (noteFound (leafPath fp prefix) (leafKey fp prefix) v (fpTag fp) w0)
    | None \<Rightarrow>
        if tgHasDefault (fpTag fp)
        then assignLeaf B (fpTag fp) T (leafPath fp prefix) (leafKey fp prefix) secret (textValue (tgDefault (fpTag fp))) x w0
        else if tgRequired (fpTag fp)
        then (x, appendErr (BindMissing (leafPath fp prefix) (case hit of Some v \<Rightarrow> [vsource v] | None \<Rightarrow> [])) w0)
        else (x, w0))"
    using arg_cong[OF assms(2), of snd] unfolding bindLeaf_def Let_def secret_def[symmetric] w0_def[symmetric]
    unfolding hit0 found_def[symmetric] by simp
  have missing: "missingOf (wkReg w) (fp, T, prefix, inh)
      = (if found = None \<and> tgRequired (fpTag fp) \<and> \<not> tgHasDefault (fpTag fp)
         then [BindMissing (leafPath fp prefix) (case hit of Some v \<Rightarrow> [vsource v] | None \<Rightarrow> [])] else [])"
    by (auto simp: missingOf_def hit_def[symmetric] found_def Let_def split: option.splits)
  show ?thesis
    using w0 assignLeaf_effect[OF assms(1)]
    unfolding missing w1
    by (cases found) (auto simp: noteFound_snapshot)
qed

definition walkEffect :: "bindOpts \<Rightarrow> leaf list \<Rightarrow> walkState \<Rightarrow> walkState \<Rightarrow> bool" where
  "walkEffect B ls w w1 =
     (rgSnapshot (wkReg w1) = rgSnapshot (wkReg w)
      \<and> filter isMissing (wkErrs w1) = filter isMissing (wkErrs w) @ concat (map (missingOf (wkReg w)) ls))"

lemma walkEffect_append:
  assumes "walkEffect B ls w w1" and "walkEffect B ms w1 w2"
  shows "walkEffect B (ls @ ms) w w2"
proof -
  have "missingOf (wkReg w1) = missingOf (wkReg w)" using assms(1) by (intro lookup_cong(4)) (simp add: walkEffect_def)
  with assms show ?thesis by (auto simp: walkEffect_def)
qed

lemma walkEffect_refl: "walkEffect B [] w w"
  by (simp add: walkEffect_def)

lemma enterSecret_effect: "walkEffect B [] w (enterSecret tag n p w)"
  by (auto simp: walkEffect_def enterSecret_def)

lemma walk_effect:
  "\<not> boFailFast B \<Longrightarrow> noUnset (walkedLeaves (wkReg w) B fs prefix secret xs) \<Longrightarrow>
   walkEffect B (walkedLeaves (wkReg w) B fs prefix secret xs) w (snd (walkFields B fs prefix secret xs w))"
proof (induction fs prefix secret xs w rule: walk_induct[of _ B])
  case (Skip sf T fs prefix secret x xs w)
  then show ?case by (simp add: walk_skip walked_step)
next
  case (Leaf sf T fs prefix secret x xs w fp y w1)
  have go: "\<not> shouldShortCircuit B w1" using Leaf.prems(1) by (simp add: shouldShortCircuit_def)
  have ls: "walkedLeaves (wkReg w) B ((sf, T) # fs) prefix secret (x # xs)
      = [(fp, T, prefix, secret)] @ walkedLeaves (wkReg w) B fs prefix secret xs"
    using Leaf.hyps by (simp add: walked_step)
  have step: "walkEffect B [(fp, T, prefix, secret)] w w1"
    using bindLeaf_effect[OF _ Leaf.hyps(3)] Leaf.prems(2) unfolding ls walkEffect_def by simp
  then have same: "walkedLeaves (wkReg w1) B fs prefix secret xs = walkedLeaves (wkReg w) B fs prefix secret xs"
    by (intro lookup_cong(3)) (simp add: walkEffect_def)
  show ?case
    unfolding ls walk_leaf[OF Leaf.hyps] if_not_P[OF go] snd_conv
    using Leaf.IH[OF go Leaf.prems(1)] Leaf.prems(2) unfolding ls same
    by (intro walkEffect_append[OF step]) simp
next
  case (Nested sf T fs prefix secret x xs w fp gs ys w1)
  let ?in = "walkedLeaves (wkReg w) B gs (nestedPath fp prefix) (secret \<or> tgSecret (fpTag fp)) (structVals (ceZeroTime (boEnv B)) gs x)"
  have go: "\<not> shouldShortCircuit B w1" using Nested.prems(1) by (simp add: shouldShortCircuit_def)
  have ls: "walkedLeaves (wkReg w) B ((sf, T) # fs) prefix secret (x # xs)
      = ?in @ walkedLeaves (wkReg w) B fs prefix secret xs"
    using Nested.hyps(1,2) by (simp add: walked_step if_not_P[OF Nested.hyps(3)])
  have "walkEffect B ?in (enterSecret (fpTag fp) (nestedPath fp prefix) prefix w) w1"
    using Nested.IH(1)[OF Nested.prems(1)] Nested.prems(2) Nested.hyps(4) unfolding ls by simp
  then have step: "walkEffect B ?in w w1" using walkEffect_append[OF enterSecret_effect] by fastforce
  then have same: "walkedLeaves (wkReg w1) B fs prefix secret xs = walkedLeaves (wkReg w) B fs prefix secret xs"
    by (intro lookup_cong(3)) (simp add: walkEffect_def)
  show ?case
    unfolding ls walk_nested[OF Nested.hyps] if_not_P[OF go] snd_conv
    using Nested.IH(2)[OF go Nested.prems(1)] Nested.prems(2) unfolding ls same
    by (intro walkEffect_append[OF step]) simp
next
  case (Absent sf T fs prefix secret x xs w fp gs)
  have "\<not> shouldShortCircuit B w" using Absent.prems(1) by (simp add: shouldShortCircuit_def)
  with Absent show ?case by (simp add: walk_absent walked_step)
qed (simp_all add: walkEffect_refl)



section \<open>The whole bind\<close>

lemma bindStruct_open:
  assumes "\<not> rgClosed r" and "walkFields B fs (boView B) False xs (startWalk B fs r) = (ys, w)"
  shows "fst (bindStruct B fs xs r) = ys"
    and "wkReg (snd (bindStruct B fs xs r))
      = recordConsulted (mkeys (wkConsulted w)) (markSecrets (wkSecrets w) (wkReg w))"
    and "filter isMissing (wkErrs (snd (bindStruct B fs xs r))) = filter isMissing (wkErrs w)"
proof -
  let ?w1 = "w\<lparr>wkReg := recordConsulted (mkeys (wkConsulted w)) (markSecrets (wkSecrets w) (wkReg w))\<rparr>"
  have b: "bindStruct B fs xs r = (ys, if boStrict B then emitUnknownKeyErrors B (runValidatorHooks B ys ?w1)
      else runValidatorHooks B ys ?w1)"
    using assms by (simp add: bindStruct_def Let_def)
  have unknown: "filter isMissing (concat (map (unknownKey B snap v) kps)) = []" for snap v kps
    by (auto simp: filter_concat unknownKey_def Let_def split: list.splits)
  have hooks: "wkReg (runValidatorHooks B ys v) = wkReg v"
    "filter isMissing (wkErrs (runValidatorHooks B ys v)) = filter isMissing (wkErrs v)" for v
    by (simp_all add: runValidatorHooks_def split: option.split)
  have strict: "wkReg (emitUnknownKeyErrors B v) = wkReg v"
    "filter isMissing (wkErrs (emitUnknownKeyErrors B v)) = filter isMissing (wkErrs v)" for v
    by (simp_all add: emitUnknownKeyErrors_def unknown split: option.split)
  show "fst (bindStruct B fs xs r) = ys" by (simp add: b)
  show "wkReg (snd (bindStruct B fs xs r))
      = recordConsulted (mkeys (wkConsulted w)) (markSecrets (wkSecrets w) (wkReg w))"
    by (simp add: b hooks strict)
  show "filter isMissing (wkErrs (snd (bindStruct B fs xs r))) = filter isMissing (wkErrs w)"
    by (simp add: b hooks strict)
qed

lemma unset_closed: "rgClosed (snd (opUnset pre k r)) = rgClosed r"
  by (auto simp: opUnset_def Let_def split: option.splits prod.splits)

lemma bindLeaf_closed: "rgClosed (wkReg (snd (bindLeaf B fp T prefix inh x w))) = rgClosed (wkReg w)"
proof -
  have a: "rgClosed (wkReg (snd (assignLeaf B tag T p ks s v x w))) = rgClosed (wkReg w)" for tag p ks s v w
    by (auto simp: assignLeaf_def coercionErr_def applyPostBind_def unset_closed
        split: option.split decoded.split sum.split)
  have n: "rgClosed (wkReg (noteFound p ks v tag w)) = rgClosed (wkReg w)" for p ks v tag w
    by (simp add: noteFound_def Let_def markImmutable_def queueDeprecation_def queueWarning_def)
  show ?thesis unfolding bindLeaf_def Let_def by (auto simp: a n split: option.split if_split)
qed

lemma walk_closed: "rgClosed (wkReg (snd (walkFields B fs prefix secret xs w))) = rgClosed (wkReg w)"
  by (rule walk_rel[where R = "\<lambda>u v. rgClosed (wkReg v) = rgClosed (wkReg u)"]) (simp_all add: bindLeaf_closed)

lemma start_closed: "rgClosed (wkReg (startWalk B fs r)) = rgClosed r"
  by (auto simp: startWalk_def Let_def addBoundPaths_def split: option.split prod.split dest: rebuild_closed)

lemma markSecrets_marks: "\<not> rgClosed r \<Longrightarrow> k \<in> set ks \<Longrightarrow> mhas (rgSecretKeys (markSecrets ks r)) k"
proof -
  have "mhas (fold sadd ks m) k \<longleftrightarrow> k \<in> set ks \<or> mhas m k" for ks m by (induction ks arbitrary: m) auto
  then show "\<not> rgClosed r \<Longrightarrow> k \<in> set ks \<Longrightarrow> mhas (rgSecretKeys (markSecrets ks r)) k"
    by (auto simp: markSecrets_def Let_def)
qed

lemma leafKey_path: "planOf B sf T = Some fp \<Longrightarrow> leafKey fp prefix = pathString (leafPath fp prefix)"
  by (auto simp: planOf_def Let_def leafKey_def leafPath_def pathAppend_def split: if_splits)


text \<open>
  \<open>applyExpand\<close> never passes a value through: a null becomes the empty text and a list or a number
  its text, which the conversion then reads as a text.
\<close>

lemma applyExpand_text: "applyExpand B r v = Inr v' \<Longrightarrow> \<exists>s. v' = textValue s \<and> Kind v' = StringKind"
  by (auto simp: applyExpand_def textValue_def NewValue.simps Kind_def split: sum.splits)

lemma applyExpand_null: "applyExpand B r (mk NullV) = Inr (textValue [])"
  by (simp add: applyExpand_def expandValueRefs_def containsStr_def refOpen_def valueString_def)


section \<open>Properties\<close>

text \<open>
  C5: Binding is safe for the struct and for the registry: whatever errors it meets, the struct it
  leaves is well typed in every field, also where a conversion failed half way and left a pointer it had
  allocated or a struct filled in part, and the registry it leaves is one the registry's own operations
  reach, so all that holds of reachable registries still holds. The struct passed in and what the custom
  decoders return have to be well typed.
\<close>

theorem bind_preserves:
  assumes "reachable r" and "fieldsTyped fs xs" and "decodersTyped B"
  shows "reachable (wkReg (snd (bindStruct B fs xs r))) \<and> fieldsTyped fs (fst (bindStruct B fs xs r))"
proof -
  obtain ys w where w: "walkFields B fs (boView B) False xs (startWalk B fs r) = (ys, w)" by force
  have "fieldsTyped fs (fst (bindStruct B fs xs r))"
  proof (cases "rgClosed r")
    case True
    with assms(2) show ?thesis by (simp add: bindStruct_def)
  next
    case False
    then show ?thesis
      using walkFields_typed[OF assms(3,2), of "boView B" False "startWalk B fs r"] bindStruct_open(1)[OF False w] w
      by simp
  qed
  with opSteps_reachable[OF bindStruct_ops assms(1)] show ?thesis by simp
qed

definition demoBind :: bindOpts where
  "demoBind = \<lparr>boView = [], boTag = [], boFailFast = False, boStrict = False, boDecoder = \<lambda>_. None,
     boCodec = \<lambda>_. None, boErrText = \<lambda>_. [], boHook = \<lambda>_. None, boEnv = demoCoerce\<rparr>"

definition demoFields :: "(sfield \<times> gtype) list" where
  "demoFields =
     [(\<lparr>sfName = ''Token'', sfTags = [(''recon'', ''token,secret,required'')], sfExported = True, sfAnonymous = False\<rparr>,
       TyString)]"

definition demoPointer :: "(sfield \<times> gtype) list" where
  "demoPointer =
     [(\<lparr>sfName = ''Flag'', sfTags = [(''recon'', ''b'')], sfExported = True, sfAnonymous = False\<rparr>, TyPtr TyBool)]"

text \<open>The number 2 is no bool: the field keeps the error's trace, a pointer to the zero value.\<close>

lemma demo_allocated:
  "fst (bindStruct demoBind demoPointer [GvPtr None] demoRegistry) = [GvPtr (Some (GvBool False))]"
  "wkErrs (snd (bindStruct demoBind demoPointer [GvPtr None] demoRegistry))
   = [BindCoercion [''b''] ''file'' ''int'' (TyPtr TyBool) (CauseCoerce (CNotBool 2)) False]"
  by code_simp+

lemma bind_preserves_witness:
  "reachable (wkReg (snd (bindStruct demoBind demoPointer [GvPtr None] demoRegistry)))
   \<and> fieldsTyped demoPointer [GvPtr (Some (GvBool False))]"
proof -
  have "fieldsTyped demoPointer [GvPtr None]" by (simp add: demoPointer_def)
  moreover have "decodersTyped demoBind" by (simp add: decodersTyped_def demoBind_def)
  ultimately show ?thesis using bind_preserves[OF demoRegistry_reachable] demo_allocated(1) by metis
qed


text \<open>
  C6: In collect mode a bind without \<open>unset\<close> fields reports exactly the required fields without a
  value: one error for each field it walks that is required, has no default and is absent or null
  in the snapshot, in the order of the fields.
\<close>

theorem required_fields_reported:
  assumes "\<not> rgClosed r" and "\<not> boFailFast B"
    and "noUnset (walkedLeaves (wkReg (startWalk B fs r)) B fs (boView B) False xs)"
  shows "filter isMissing (wkErrs (snd (bindStruct B fs xs r)))
    = concat (map (missingOf (wkReg (startWalk B fs r)))
        (walkedLeaves (wkReg (startWalk B fs r)) B fs (boView B) False xs))"
proof -
  obtain ys w where w: "walkFields B fs (boView B) False xs (startWalk B fs r) = (ys, w)" by force
  have "wkErrs (startWalk B fs r) = []" by (simp add: startWalk_def)
  then show ?thesis
    using walk_effect[OF assms(2,3)] bindStruct_open(3)[OF assms(1) w] by (simp add: walkEffect_def w)
qed

lemma demo_leaves:
  "noUnset (walkedLeaves (wkReg (startWalk demoBind demoFields emptyRegistry)) demoBind demoFields (boView demoBind) False [GvString []])"
  "concat (map (missingOf (wkReg (startWalk demoBind demoFields emptyRegistry)))
     (walkedLeaves (wkReg (startWalk demoBind demoFields emptyRegistry)) demoBind demoFields (boView demoBind) False [GvString []]))
   = [BindMissing [''token''] []]"
  by code_simp+

lemma required_fields_reported_witness:
  "filter isMissing (wkErrs (snd (bindStruct demoBind demoFields [GvString []] emptyRegistry))) = [BindMissing [''token''] []]"
  by (subst required_fields_reported) (simp_all add: demo_leaves emptyRegistry_def[THEN arg_cong, of rgClosed] demoBind_def[THEN arg_cong, of boFailFast])

end
