(* ===== verification/BindSecrets.thy ===== *)
theory BindSecrets
  imports BindProps
begin

text \<open>
  What of a struct is secret, said apart from the plans and the walk of the code: which types hold
  secrets, which keys of a struct are secret, and that a bind marks all of these.
\<close>

section \<open>Types that hold secrets\<close>

text \<open>The element type of a pointer, slice, array or map.\<close>

fun elementOf :: "gtype \<Rightarrow> gtype option" where
  "elementOf (TyPtr T) = Some T"
| "elementOf (TySlice T) = Some T"
| "elementOf (TyArray n T) = Some T"
| "elementOf (TyMap k T) = Some T"
| "elementOf (TyHook k name (TyPtr T)) = Some T"
| "elementOf (TyHook k name (TySlice T)) = Some T"
| "elementOf (TyHook k name (TyArray n T)) = Some T"
| "elementOf (TyHook k name (TyMap j T)) = Some T"
| "elementOf T = None"

inductive leadsTo :: "gtype \<Rightarrow> gtype \<Rightarrow> bool" where
  here: "elementOf T = None \<Longrightarrow> leadsTo T T"
| element: "elementOf T = Some U \<Longrightarrow> leadsTo U V \<Longrightarrow> leadsTo T V"

text \<open>
  A type holds secrets when it leads to a \<open>Secret\<close>, or to a struct with an exported field that is not
  skipped and is tagged \<open>secret\<close> or holds secrets itself.
\<close>

inductive holdsSecrets :: "string \<Rightarrow> gtype \<Rightarrow> bool" for tagName where
  secretType: "leadsTo T (TyHook k name U) \<Longrightarrow> hasPrefix name secretTypeName \<Longrightarrow> holdsSecrets tagName T"
| taggedField: "leadsTo T S \<Longrightarrow> (sf, U) \<in> set (structOf S) \<Longrightarrow> sfExported sf \<Longrightarrow>
    fieldTag (sfTags sf) tagName = Some t \<Longrightarrow> \<not> tgSkip t \<Longrightarrow> tgSecret t \<Longrightarrow> holdsSecrets tagName T"
| secretField: "leadsTo T S \<Longrightarrow> (sf, U) \<in> set (structOf S) \<Longrightarrow> sfExported sf \<Longrightarrow>
    \<forall>t. fieldTag (sfTags sf) tagName = Some t \<longrightarrow> \<not> tgSkip t \<Longrightarrow> holdsSecrets tagName U \<Longrightarrow> holdsSecrets tagName T"

lemma elementOf_base:
  "elementOf T = None \<Longrightarrow> elemBase T = T" "elementOf T = Some U \<Longrightarrow> elemBase T = elemBase U"
  by (cases T rule: elementOf.cases; simp)+

lemma leadsTo_base: "leadsTo T (elemBase T)"
proof (induction "size T" arbitrary: T rule: less_induct)
  case less
  show ?case
  proof (cases "elementOf T")
    case None
    then show ?thesis using leadsTo.here elementOf_base(1) by simp
  next
    case (Some U)
    then have "size U < size T" by (cases T rule: elementOf.cases) auto
    then show ?thesis using less[of U] leadsTo.element[OF Some] elementOf_base(2)[OF Some] by simp
  qed
qed

lemma leadsTo_iff: "leadsTo T U \<longleftrightarrow> elemBase T = U"
proof
  show "leadsTo T U \<Longrightarrow> elemBase T = U" by (induction rule: leadsTo.induct) (simp_all add: elementOf_base)
qed (use leadsTo_base in blast)

lemma isSecretType_iff: "isSecretType T \<longleftrightarrow> (\<exists>k name U. leadsTo T (TyHook k name U) \<and> hasPrefix name secretTypeName)"
  by (auto simp: isSecretType_def leadsTo_iff split: gtype.split)

lemma scan_holds: "scanSecrets tagName T \<Longrightarrow> holdsSecrets tagName T"
proof (induction tagName T rule: scanSecrets.induct)
  case (1 tagName T)
  from "1.prems" obtain sf U where f: "(sf, U) \<in> set (structOf (elemBase T))" "sfExported sf"
    and tag: "\<not> tgSkip (case fieldTag (sfTags sf) tagName of Some t \<Rightarrow> t | None \<Rightarrow> noTag)"
    and secret: "tgSecret (case fieldTag (sfTags sf) tagName of Some t \<Rightarrow> t | None \<Rightarrow> noTag)
      \<or> isSecretType U \<or> scanSecrets tagName U"
    by (subst (asm) scanSecrets.simps) (auto simp: list_ex_iff Let_def)
  have skip: "\<forall>t. fieldTag (sfTags sf) tagName = Some t \<longrightarrow> \<not> tgSkip t" using tag by auto
  show ?case
  proof (cases "tgSecret (case fieldTag (sfTags sf) tagName of Some t \<Rightarrow> t | None \<Rightarrow> noTag)")
    case True
    then obtain t where "fieldTag (sfTags sf) tagName = Some t" "tgSecret t"
      by (cases "fieldTag (sfTags sf) tagName") (auto simp: noTag_def)
    then show ?thesis using holdsSecrets.taggedField[OF leadsTo_base f] skip by blast
  next
    case False
    then have "holdsSecrets tagName U"
      using secret tag "1.IH"[OF f(1) refl refl] isSecretType_iff[of U] holdsSecrets.secretType by blast
    then show ?thesis using holdsSecrets.secretField[OF leadsTo_base f skip] by blast
  qed
qed

lemma holds_scan: "holdsSecrets tagName T \<Longrightarrow> isSecretType T \<or> scanSecrets tagName T"
proof (induction rule: holdsSecrets.induct)
  case (secretType T k name U)
  then show ?case using isSecretType_iff by blast
next
  case (taggedField T S sf U t)
  then show ?case
    by (subst scanSecrets.simps) (force simp: leadsTo_iff list_ex_iff)
next
  case (secretField T S sf U)
  then show ?case
    by (subst scanSecrets.simps) (force simp: leadsTo_iff list_ex_iff noTag_def split: option.split)
qed

lemma holdsSecrets_iff: "holdsSecrets tagName T \<longleftrightarrow> isSecretType T \<or> scanSecrets tagName T"
  using holds_scan scan_holds isSecretType_iff holdsSecrets.secretType by blast


section \<open>The secret keys of a struct\<close>

text \<open>
  The keys a bind of the fields \<open>fs\<close> with the values \<open>xs\<close> under \<open>prefix\<close> has to mark. \<open>below\<close> tells that
  the fields belong to a struct tagged \<open>secret\<close>; \<open>H\<close> that keys exist under a path, which decides whether a
  nil pointer tagged \<open>omitempty\<close> is entered. A struct that adds a segment of its own has a key too.
\<close>

definition entered :: "(path \<Rightarrow> bool) \<Rightarrow> fieldPlan \<Rightarrow> path \<Rightarrow> gval \<Rightarrow> bool" where
  "entered H fp prefix x = (x \<noteq> GvPtr None \<or> \<not> tgOmitEmpty (fpTag fp) \<or> H (nestedPath fp prefix))"

inductive secretKey ::
  "(path \<Rightarrow> bool) \<Rightarrow> bindOpts \<Rightarrow> (sfield \<times> gtype) list \<Rightarrow> path \<Rightarrow> bool \<Rightarrow> gval list \<Rightarrow> string \<Rightarrow> bool"
  for H B where
  leaf: "secretKey H B ((sf, T) # fs) prefix below (x # xs) (pathString (leafPath fp prefix))"
    if "planOf B sf T = Some fp" and "nestedFields fp T = None"
    and "tgSecret (tagFor B sf) \<or> below \<or> holdsSecrets (boTag B) T"
| struct: "secretKey H B ((sf, T) # fs) prefix below (x # xs) (pathString (nestedPath fp prefix))"
    if "planOf B sf T = Some fp" and "nestedFields fp T = Some gs" and "entered H fp prefix x"
    and "tgSecret (tagFor B sf)" and "nestedPath fp prefix \<noteq> prefix"
| inside: "secretKey H B ((sf, T) # fs) prefix below (x # xs) k"
    if "planOf B sf T = Some fp" and "nestedFields fp T = Some gs" and "entered H fp prefix x"
    and "secretKey H B gs (nestedPath fp prefix) (below \<or> tgSecret (tagFor B sf))
           (structVals (ceZeroTime (boEnv B)) gs x) k"
| later: "secretKey H B ((sf, T) # fs) prefix below (x # xs) k" if "secretKey H B fs prefix below xs k"

inductive_cases secretKey_none: "secretKey H B [] prefix below xs k" "secretKey H B fs prefix below [] k"

inductive_cases secretKey_field: "secretKey H B ((sf, T) # fs) prefix below (x # xs) k"

lemma planOf_secret:
  "planOf B sf T = Some fp \<Longrightarrow> fpTag fp = tagFor B sf \<and> (fpSecret fp \<longleftrightarrow> holdsSecrets (boTag B) T)"
  by (auto simp: planOf_def Let_def holdsSecrets_iff split: if_splits)

lemma nestedPath_longer: "nestedPath fp prefix \<noteq> prefix \<longleftrightarrow> length prefix < length (nestedPath fp prefix)"
  by (simp add: nestedPath_def pathAppend_def)


section \<open>A walk marks them\<close>

lemma assignLeaf_secrets: "wkSecrets (snd (assignLeaf B tag T p ks secret v x w)) = wkSecrets w"
  by (simp add: assignLeaf_def split: option.split decoded.split sum.split)

lemma bindLeaf_secrets:
  "wkSecrets (snd (bindLeaf B fp T prefix inh x w)) =
     wkSecrets w @ (if tgSecret (fpTag fp) \<or> inh \<or> fpSecret fp then [leafKey fp prefix] else [])"
  unfolding bindLeaf_def Let_def by (auto simp: assignLeaf_secrets split: option.split)

lemma walk_keeps_secrets: "set (wkSecrets w) \<subseteq> set (wkSecrets (snd (walkFields B fs prefix secret xs w)))"
  by (rule walk_rel[where R = "\<lambda>u v. set (wkSecrets u) \<subseteq> set (wkSecrets v)"])
    (auto simp: bindLeaf_secrets enterSecret_def)

text \<open>What \<open>H\<close> counts on stays: no field of the walk is tagged \<open>unset\<close>.\<close>

definition counted :: "(path \<Rightarrow> bool) \<Rightarrow> leaf list \<Rightarrow> walkState \<Rightarrow> bool" where
  "counted H ls w = ((\<forall>p. \<not> H p) \<or> noUnset ls \<and> (\<forall>p. H p \<longrightarrow> hasKeysUnder (wkReg w) p))"

lemma counted_after:
  assumes "counted H (walkedLeaves (wkReg w) B fs prefix secret xs) w"
    and "noUnset (walkedLeaves (wkReg w) B fs prefix secret xs) \<Longrightarrow> rgSnapshot (wkReg w1) = rgSnapshot (wkReg w)"
    and "noUnset (walkedLeaves (wkReg w) B fs prefix secret xs) \<Longrightarrow> noUnset (walkedLeaves (wkReg w) B gs q s ys)"
  shows "counted H (walkedLeaves (wkReg w1) B gs q s ys) w1"
  using assms lookup_cong(1,3)[of "wkReg w1" "wkReg w"] by (auto simp: counted_def)

lemma walk_marks:
  assumes "\<not> boFailFast B"
  shows "counted H (walkedLeaves (wkReg w) B fs prefix secret xs) w \<Longrightarrow> secretKey H B fs prefix secret xs k \<Longrightarrow>
    k \<in> set (wkSecrets (snd (walkFields B fs prefix secret xs w)))"
proof (induction fs prefix secret xs w arbitrary: k rule: walk_induct[of _ B])
  case (Skip sf T fs prefix secret x xs w)
  from Skip.prems(2) show ?case
    by (rule secretKey_field) (use Skip in \<open>simp_all add: walk_skip walked_step\<close>)
next
  case (Leaf sf T fs prefix secret x xs w fp y w1)
  have go: "\<not> shouldShortCircuit B w1" using assms by (simp add: shouldShortCircuit_def)
  have ls: "walkedLeaves (wkReg w) B ((sf, T) # fs) prefix secret (x # xs)
      = (fp, T, prefix, secret) # walkedLeaves (wkReg w) B fs prefix secret xs"
    using Leaf.hyps by (simp add: walked_step)
  have rest: "counted H (walkedLeaves (wkReg w1) B fs prefix secret xs) w1"
    using Leaf.prems(1) by (rule counted_after) (use bindLeaf_effect[OF _ Leaf.hyps(3)] in \<open>simp_all add: ls\<close>)
  have own: "leafKey fp prefix \<in> set (wkSecrets w1)"
    if "tgSecret (tagFor B sf) \<or> secret \<or> holdsSecrets (boTag B) T"
    using that bindLeaf_secrets[of B fp T prefix secret x w] planOf_secret[OF Leaf.hyps(1)] Leaf.hyps(3) by auto
  from Leaf.prems(2) show ?case
    unfolding walk_leaf[OF Leaf.hyps] if_not_P[OF go] snd_conv
    by (rule secretKey_field)
      (use Leaf.hyps(1,2) Leaf.IH[OF go rest] own leafKey_path[OF Leaf.hyps(1)]
        in \<open>auto intro: walk_keeps_secrets[THEN subsetD]\<close>)
next
  case (Nested sf T fs prefix secret x xs w fp gs ys w1)
  let ?n = "nestedPath fp prefix" and ?in = "structVals (ceZeroTime (boEnv B)) gs x"
  have go: "\<not> shouldShortCircuit B w1" using assms by (simp add: shouldShortCircuit_def)
  have tag: "fpTag fp = tagFor B sf" using planOf_secret[OF Nested.hyps(1)] by simp
  have ls: "walkedLeaves (wkReg w) B ((sf, T) # fs) prefix secret (x # xs)
      = walkedLeaves (wkReg w) B gs ?n (secret \<or> tgSecret (fpTag fp)) ?in @ walkedLeaves (wkReg w) B fs prefix secret xs"
    using Nested.hyps(1,2) by (simp add: walked_step if_not_P[OF Nested.hyps(3)])
  have inner: "counted H (walkedLeaves (wkReg (enterSecret (fpTag fp) ?n prefix w)) B gs ?n
      (secret \<or> tgSecret (fpTag fp)) ?in) (enterSecret (fpTag fp) ?n prefix w)"
    using Nested.prems(1) by (rule counted_after) (simp_all add: ls)
  have same: "rgSnapshot (wkReg w1) = rgSnapshot (wkReg w)"
    if "noUnset (walkedLeaves (wkReg w) B gs ?n (secret \<or> tgSecret (fpTag fp)) ?in)"
    using walk_effect[OF assms, of "enterSecret (fpTag fp) ?n prefix w" gs ?n "secret \<or> tgSecret (fpTag fp)" ?in]
      that Nested.hyps(4) by (simp add: walkEffect_def)
  have rest: "counted H (walkedLeaves (wkReg w1) B fs prefix secret xs) w1"
    using Nested.prems(1) by (rule counted_after) (use same in \<open>simp_all add: ls\<close>)
  have mono: "set (wkSecrets (enterSecret (fpTag fp) ?n prefix w)) \<subseteq> set (wkSecrets w1)"
    using walk_keeps_secrets[of "enterSecret (fpTag fp) ?n prefix w"] Nested.hyps(4) by (metis snd_conv)
  have own: "pathString ?n \<in> set (wkSecrets w1)" if "tgSecret (tagFor B sf)" "?n \<noteq> prefix"
    using that mono by (auto simp: enterSecret_def tag nestedPath_longer)
  have below: "secretKey H B gs ?n (secret \<or> tgSecret (fpTag fp)) ?in k \<Longrightarrow> k \<in> set (wkSecrets w1)"
    using Nested.IH(1)[OF inner] Nested.hyps(4) by simp
  from Nested.prems(2) show ?case
    unfolding walk_nested[OF Nested.hyps] if_not_P[OF go] snd_conv
    by (rule secretKey_field)
      (use Nested.hyps(1,2) Nested.IH(2)[OF go rest] own below tag
        in \<open>auto intro: walk_keeps_secrets[THEN subsetD]\<close>)
next
  case (Absent sf T fs prefix secret x xs w fp gs)
  have go: "\<not> shouldShortCircuit B w" using assms by (simp add: shouldShortCircuit_def)
  have ls: "walkedLeaves (wkReg w) B ((sf, T) # fs) prefix secret (x # xs) = walkedLeaves (wkReg w) B fs prefix secret xs"
    using Absent.hyps by (simp add: walked_step)
  have "\<not> entered H fp prefix x" using Absent.hyps(3) Absent.prems(1) by (auto simp: entered_def counted_def)
  from Absent.prems(2) this show ?case
    unfolding walk_absent[OF Absent.hyps] if_not_P[OF go] snd_conv
    by (elim secretKey_field) (use Absent.hyps(1,2) Absent.IH[OF go] Absent.prems(1) ls in auto)
qed (auto elim: secretKey_none)


section \<open>Property\<close>

text \<open>Keys exist under the path when the bind starts, and no field it walks is tagged \<open>unset\<close>, so they stay.\<close>

definition keysThroughout ::
  "bindOpts \<Rightarrow> (sfield \<times> gtype) list \<Rightarrow> gval list \<Rightarrow> registry \<Rightarrow> path \<Rightarrow> bool" where
  "keysThroughout B fs xs r p =
     (noUnset (walkedLeaves (wkReg (startWalk B fs r)) B fs (boView B) False xs)
      \<and> hasKeysUnder (wkReg (startWalk B fs r)) p)"

text \<open>
  C8: A collecting bind of an open registry marks every secret key of the struct: that of every field that
  is tagged \<open>secret\<close>, is of a \<open>Secret\<close> type, holds one or a secret field behind pointers, slices, arrays, maps
  and structs, or lies in a struct tagged \<open>secret\<close>, and the key of such a struct itself; also when the value
  was missing or did not convert. What a nil pointer tagged \<open>omitempty\<close> would hold counts where keys exist under
  its path and no field of the struct is tagged \<open>unset\<close> (an \<open>unset\<close> could take the keys away before).
\<close>

theorem secret_fields_marked:
  assumes "\<not> rgClosed r" and "\<not> boFailFast B"
    and "secretKey (keysThroughout B fs xs r) B fs (boView B) False xs k"
  shows "mhas (rgSecretKeys (wkReg (snd (bindStruct B fs xs r)))) k"
proof -
  obtain ys w where w: "walkFields B fs (boView B) False xs (startWalk B fs r) = (ys, w)" by force
  have "counted (keysThroughout B fs xs r) (walkedLeaves (wkReg (startWalk B fs r)) B fs (boView B) False xs) (startWalk B fs r)"
    by (auto simp: counted_def keysThroughout_def)
  then have "k \<in> set (wkSecrets w)" using walk_marks[OF assms(2) _ assms(3)] w by (metis snd_conv)
  moreover have "\<not> rgClosed (wkReg w)"
    using walk_closed[of B fs "boView B" False xs "startWalk B fs r"] start_closed[of B fs r] assms(1) w by simp
  ultimately have "mhas (rgSecretKeys (markSecrets (wkSecrets w) (wkReg w))) k" by (intro markSecrets_marks)
  then show ?thesis using bindStruct_open(2)[OF assms(1) w] by (simp add: recordConsulted_def)
qed

text \<open>A struct tagged \<open>secret\<close> with a field, and a list of a \<open>Secret\<close> type.\<close>

definition demoSecretFields :: "(sfield \<times> gtype) list" where
  "demoSecretFields =
     [(\<lparr>sfName = ''Db'', sfTags = [(''recon'', ''db,secret'')], sfExported = True, sfAnonymous = False\<rparr>,
       TyStruct [(\<lparr>sfName = ''User'', sfTags = [(''recon'', ''user'')], sfExported = True, sfAnonymous = False\<rparr>, TyString)]),
      (\<lparr>sfName = ''Keys'', sfTags = [(''recon'', ''keys'')], sfExported = True, sfAnonymous = False\<rparr>,
       TySlice (TyHook HookText (secretTypeName @ ''string]'') (TyStruct [])))]"

definition demoSecretValues :: "gval list" where
  "demoSecretValues = [GvStruct [GvString []], GvSlice None]"

lemma secretKey_leafI:
  assumes "map_option (\<lambda>fp. (nestedFields fp T, pathString (leafPath fp prefix))) (planOf B sf T) = Some (None, k)"
    and "tgSecret (tagFor B sf) \<or> below \<or> holdsSecrets (boTag B) T"
  shows "secretKey H B ((sf, T) # fs) prefix below (x # xs) k"
  using assms by (auto intro: secretKey.leaf)

lemma secretKey_structI:
  assumes "map_option (\<lambda>fp. (nestedFields fp T, nestedPath fp prefix)) (planOf B sf T) = Some (Some gs, n)"
    and "x \<noteq> GvPtr None" and "tgSecret (tagFor B sf)"
  shows "n \<noteq> prefix \<Longrightarrow> secretKey H B ((sf, T) # fs) prefix below (x # xs) (pathString n)"
    and "secretKey H B gs n True (structVals (ceZeroTime (boEnv B)) gs x) k \<Longrightarrow>
      secretKey H B ((sf, T) # fs) prefix below (x # xs) k"
  using assms by (auto simp: entered_def intro: secretKey.struct secretKey.inside)

lemma demo_secret_keys:
  "secretKey H demoBind demoSecretFields [] False demoSecretValues ''db''"
  "secretKey H demoBind demoSecretFields [] False demoSecretValues ''db.user''"
  "secretKey H demoBind demoSecretFields [] False demoSecretValues ''keys''"
proof -
  let ?tag = "\<lambda>n t. \<lparr>sfName = n, sfTags = [(''recon'', t)], sfExported = True, sfAnonymous = False\<rparr>"
  let ?user = "(?tag ''User'' ''user'', TyString)"
  let ?keys = "TySlice (TyHook HookText (secretTypeName @ ''string]'') (TyStruct []))"
  have db: "map_option (\<lambda>fp. (nestedFields fp (TyStruct [?user]), nestedPath fp [])) (planOf demoBind (?tag ''Db'' ''db,secret'') (TyStruct [?user]))
      = Some (Some [?user], [''db''])" "tgSecret (tagFor demoBind (?tag ''Db'' ''db,secret''))" "pathString [''db''] = ''db''"
    by code_simp+
  have user: "map_option (\<lambda>fp. (nestedFields fp TyString, pathString (leafPath fp [''db'']))) (planOf demoBind (?tag ''User'' ''user'') TyString)
      = Some (None, ''db.user'')"
    by code_simp
  have keys: "map_option (\<lambda>fp. (nestedFields fp ?keys, pathString (leafPath fp []))) (planOf demoBind (?tag ''Keys'' ''keys'') ?keys)
      = Some (None, ''keys'')" "isSecretType ?keys"
    by code_simp+
  show "secretKey H demoBind demoSecretFields [] False demoSecretValues ''db''"
    using secretKey_structI(1)[OF db(1) _ db(2), of "GvStruct [GvString []]"]
    by (simp add: demoSecretFields_def demoSecretValues_def db(3))
  show "secretKey H demoBind demoSecretFields [] False demoSecretValues ''db.user''"
    unfolding demoSecretFields_def demoSecretValues_def
    by (rule secretKey_structI(2)[OF db(1) _ db(2)]) (simp_all add: structVals_def secretKey_leafI[OF user])
  show "secretKey H demoBind demoSecretFields [] False demoSecretValues ''keys''"
    unfolding demoSecretFields_def demoSecretValues_def
    by (rule secretKey.later, rule secretKey_leafI[OF keys(1)]) (simp add: holdsSecrets_iff keys(2))
qed

lemma secret_fields_marked_witness:
  "mhas (rgSecretKeys (wkReg (snd (bindStruct demoBind demoSecretFields demoSecretValues emptyRegistry)))) ''db''
   \<and> mhas (rgSecretKeys (wkReg (snd (bindStruct demoBind demoSecretFields demoSecretValues emptyRegistry)))) ''db.user''
   \<and> mhas (rgSecretKeys (wkReg (snd (bindStruct demoBind demoSecretFields demoSecretValues emptyRegistry)))) ''keys''"
proof -
  have "\<not> rgClosed emptyRegistry" "\<not> boFailFast demoBind" "boView demoBind = []"
    by (simp_all add: emptyRegistry_def demoBind_def)
  then show ?thesis
    using secret_fields_marked[of emptyRegistry demoBind demoSecretFields demoSecretValues] demo_secret_keys by simp
qed

end
