(* ===== verification/Save.thy ===== *)
theory Save
  imports RegistryTheorems
begin

text \<open>
  \<open>registry_save.go\<close>, \<open>options_encode.go\<close> and the descriptions of \<open>registry_describe.go\<close>: what a registry
  shows of its snapshot. A codec is a parameter, from the payload to an error or the bytes. The
  files a save to a path touches are a map from paths to contents; what each system call answers is
  a parameter too, so every failure is a case. The lengths the code preallocates are left out.
\<close>

record saveOptions =
  soFormat :: string
  soIncludeSecrets :: bool
  soIncludeDefaults :: bool
  soOnlyPrefix :: string

record savePolicy =
  spSecretKeys :: strset
  spAliases :: "string gomap"
  spRedactor :: "(string \<Rightarrow> string) option"
  spUnscoped :: "string list"
  spConsulted :: strset

datatype saveError =
    SaveClosed
  | SaveNoFormat
  | SaveUnsupported string
  | SaveEncode string
  | SaveIO string string

type_synonym codec = "(string \<times> goany) list \<Rightarrow> string + string"

definition savePolicyOf :: "registry \<Rightarrow> savePolicy" where
  "savePolicyOf r =
     \<lparr>spSecretKeys = rgSecretKeys r, spAliases = rgAliases r, spRedactor = rgRedactor r,
      spUnscoped = map srcName (filter srcUnscoped (rgSources r)), spConsulted = rgConsulted r\<rparr>"


section \<open>The payload\<close>

definition saveKeeps :: "snapshot \<Rightarrow> saveOptions \<Rightarrow> savePolicy \<Rightarrow> nat \<Rightarrow> bool" where
  "saveKeeps s cfg pol i =
     (let ps = snKeyStrs s ! i;
          p = snKeys s ! i;
          prefix = ParsePath (soOnlyPrefix cfg);
          srcs = (case mget (snSources s) ps of Some srcs \<Rightarrow> srcs | None \<Rightarrow> [])
      in \<not> mhas (snAliases s) ps
         \<and> (prefix = [] \<or> pathHasPrefix p prefix)
         \<and> (soIncludeDefaults cfg \<or> srcs \<noteq> [srcDefault])
         \<and> (srcs = [] \<or> hd srcs \<notin> set (spUnscoped pol) \<or> mhas (spConsulted pol) ps))"

definition policySecret :: "savePolicy \<Rightarrow> string \<Rightarrow> bool" where
  "policySecret pol ps = secretHas (spSecretKeys pol) (spAliases pol) ps"

text \<open>What is written for a key: nothing for a secret without a redactor.\<close>

definition saveLeaf :: "formatters \<Rightarrow> snapshot \<Rightarrow> saveOptions \<Rightarrow> savePolicy \<Rightarrow> string \<Rightarrow> goany option" where
  "saveLeaf fm s cfg pol ps =
     (let v = valueAt s ps
      in if policySecret pol ps \<and> \<not> soIncludeSecrets cfg
         then map_option (\<lambda>red. AStr (red (valueString fm v))) (spRedactor pol)
         else Some (unwrapValueDeep v))"

definition saveWritePath :: "saveOptions \<Rightarrow> path \<Rightarrow> path" where
  "saveWritePath cfg p =
     (let prefix = ParsePath (soOnlyPrefix cfg)
      in if prefix = [] then p else (case pathAfter p prefix of Some q \<Rightarrow> q | None \<Rightarrow> []))"

definition saveStep ::
  "formatters \<Rightarrow> snapshot \<Rightarrow> saveOptions \<Rightarrow> savePolicy \<Rightarrow> strset \<Rightarrow> nat
   \<Rightarrow> (string \<times> goany) list \<Rightarrow> (string \<times> goany) list" where
  "saveStep fm s cfg pol shadowed i out =
     (let ps = snKeyStrs s ! i; writePath = saveWritePath cfg (snKeys s ! i)
      in if mhas shadowed ps then out
         else case saveLeaf fm s cfg pol ps of
                None \<Rightarrow> out
              | Some leaf \<Rightarrow> if ParsePath (soOnlyPrefix cfg) \<noteq> [] \<and> writePath = [] then out
                             else setNested out writePath leaf)"

definition buildSavePayload ::
  "formatters \<Rightarrow> snapshot \<Rightarrow> saveOptions \<Rightarrow> savePolicy \<Rightarrow> (string \<times> goany) list" where
  "buildSavePayload fm s cfg pol =
     (let idx = filter (saveKeeps s cfg pol) [0..<length (snKeys s)]
      in fold (saveStep fm s cfg pol (shadowedAmong s idx)) idx [])"

definition encodeWith :: "(string \<Rightarrow> codec option) \<Rightarrow> saveOptions \<Rightarrow> registry \<Rightarrow> saveError + string" where
  "encodeWith codecs cfg r =
     (case codecs (soFormat cfg) of
        None \<Rightarrow> Inl (SaveUnsupported (soFormat cfg))
      | Some encode \<Rightarrow>
          (case encode (case rgSnapshot r of
                          None \<Rightarrow> []
                        | Some snap \<Rightarrow> buildSavePayload (rgFormat r) snap cfg (savePolicyOf r)) of
             Inl e \<Rightarrow> Inl (SaveEncode e) | Inr b \<Rightarrow> Inr b))"

text \<open>\<open>Save\<close> into a writer that takes all bytes, which is \<open>SaveString\<close>; and the template.\<close>

definition SaveString :: "(string \<Rightarrow> codec option) \<Rightarrow> saveOptions \<Rightarrow> registry \<Rightarrow> saveError + string" where
  "SaveString codecs cfg r =
     (if rgClosed r then Inl SaveClosed
      else if soFormat cfg = [] then Inl SaveNoFormat
      else encodeWith codecs cfg r)"

definition GenerateTemplate ::
  "(string \<Rightarrow> codec option) \<Rightarrow> string \<Rightarrow> (saveOptions \<Rightarrow> saveOptions) list \<Rightarrow> registry \<Rightarrow> saveError + string" where
  "GenerateTemplate codecs format opts r =
     (if rgClosed r then Inl SaveClosed
      else if format = [] then Inl SaveNoFormat
      else encodeWith codecs
             (fold (\<lambda>opt cfg. opt cfg) opts
                \<lparr>soFormat = format, soIncludeSecrets = False, soIncludeDefaults = True, soOnlyPrefix = []\<rparr>) r)"

definition TemplateKeys :: "string \<Rightarrow> registry \<Rightarrow> path list" where
  "TemplateKeys onlyPrefix r =
     (if rgClosed r then []
      else case rgSnapshot r of
             None \<Rightarrow> []
           | Some snap \<Rightarrow>
               (let prefix = ParsePath onlyPrefix
                in map ParsePath (sort (map pathString (filter (\<lambda>p.
                     \<not> mhas (snAliases snap) (pathString p) \<and> (prefix = [] \<or> pathHasPrefix p prefix))
                     (snKeys snap))))))"


section \<open>Descriptions\<close>

record keyDescription =
  kdPath :: path
  kdValue :: string
  kdSource :: string
  kdSources :: "string list"
  kdSecret :: bool
  kdAliases :: "path list"

text \<open>\<open>invertAliasesLocked\<close>: the aliases of each final key, sorted.\<close>

definition aliasesOfKey :: "string gomap \<Rightarrow> string \<Rightarrow> path list" where
  "aliasesOfKey aliases ks =
     sortPaths (map (\<lambda>(alias, canon). ParsePath alias)
       (filter (\<lambda>(alias, canon). resolveAliasChain canon aliases = ks) aliases))"

definition describeRow :: "registry \<Rightarrow> snapshot \<Rightarrow> string \<Rightarrow> keyDescription" where
  "describeRow r snap ks =
     (let v = valueAt snap ks;
          secret = secretHas (rgSecretKeys r) (rgAliases r) ks;
          display = valueString (rgFormat r) v;
          srcs = (case mget (snSources snap) ks of Some srcs \<Rightarrow> srcs | None \<Rightarrow> [])
      in \<lparr>kdPath = ParsePath ks,
          kdValue = (case (secret, rgRedactor r) of (True, Some red) \<Rightarrow> red display | _ \<Rightarrow> display),
          kdSource = (case srcs of [] \<Rightarrow> [] | w # ws \<Rightarrow> w), kdSources = srcs, kdSecret = secret,
          kdAliases = aliasesOfKey (rgAliases r) ks\<rparr>)"

definition Describe :: "registry \<Rightarrow> keyDescription list" where
  "Describe r =
     (if rgClosed r then []
      else case rgSnapshot r of
             None \<Rightarrow> []
           | Some snap \<Rightarrow>
               map (describeRow r snap)
                 (sort (filter (\<lambda>ps. \<not> mhas (snAliases snap) ps) (map pathString (snKeys snap)))))"

definition DescribeKey :: "path \<Rightarrow> string \<Rightarrow> registry \<Rightarrow> keyDescription option" where
  "DescribeKey prefix key r =
     (if rgClosed r then None
      else case rgSnapshot r of
             None \<Rightarrow> None
           | Some snap \<Rightarrow>
               (let canon = resolveAliasChain (fullKey prefix key) (rgAliases r)
                in if mhas (snValues snap) canon then Some (describeRow r snap canon) else None))"


section \<open>Saving to a file\<close>

text \<open>\<open>resolveSymlinks\<close>: at most 40 links, each already joined to the directory it is in.\<close>

definition maxSymlinkHops :: nat where
  "maxSymlinkHops = 40"

fun followLinks :: "nat \<Rightarrow> (string \<Rightarrow> string option) \<Rightarrow> string \<Rightarrow> string" where
  "followLinks 0 link p = p"
| "followLinks (Suc n) link p = (case link p of None \<Rightarrow> p | Some q \<Rightarrow> followLinks n link q)"

definition resolveSymlinks :: "(string \<Rightarrow> string option) \<Rightarrow> string \<Rightarrow> string" where
  "resolveSymlinks link p = followLinks maxSymlinkHops link p"

text \<open>
  What the system calls answer: the name of the temporary file, how much of the bytes a failing
  write leaves in it, the error of each call, and whether removing the temporary file works.
\<close>

record saveCalls =
  scTemp :: "string + string"
  scWrite :: "(string \<times> nat) option"
  scFinish :: "string option"
  scClose :: "string option"
  scRename :: "string option"
  scRemove :: bool

text \<open>The states of the files a save goes through, first to last, and its error.\<close>

definition removeTemp :: "saveCalls \<Rightarrow> string \<Rightarrow> string gomap \<Rightarrow> string gomap" where
  "removeTemp calls tmp files = (if scRemove calls then mdel tmp files else files)"

definition writeTemp :: "saveCalls \<Rightarrow> saveError + string \<Rightarrow> string \<Rightarrow> string gomap \<Rightarrow> saveError option \<times> string gomap" where
  "writeTemp calls encoded tmp files =
     (case encoded of
        Inl e \<Rightarrow> (Some e, files)
      | Inr b \<Rightarrow>
          (case scWrite calls of
             Some (e, n) \<Rightarrow> (Some (SaveIO ''write'' e), mput tmp (take n b) files)
           | None \<Rightarrow> (map_option (SaveIO ''finish'') (scFinish calls), mput tmp b files)))"

definition saveFile ::
  "(string \<Rightarrow> string option) \<Rightarrow> saveCalls \<Rightarrow> saveError + string \<Rightarrow> string \<Rightarrow> string gomap
   \<Rightarrow> saveError option \<times> string gomap list" where
  "saveFile link calls encoded p files =
     (let target = resolveSymlinks link p
      in case scTemp calls of
           Inl e \<Rightarrow> (Some (SaveIO ''create tmp'' e), [files])
         | Inr tmp \<Rightarrow>
             (let f1 = mput tmp [] files; (writeErr, f2) = writeTemp calls encoded tmp f1
              in case writeErr of
                   Some e \<Rightarrow> (Some e, [files, f1, f2, removeTemp calls tmp f2])
                 | None \<Rightarrow>
                     (case scClose calls of
                        Some e \<Rightarrow> (Some (SaveIO ''close tmp'' e), [files, f1, f2, removeTemp calls tmp f2])
                      | None \<Rightarrow>
                          (case scRename calls of
                             Some e \<Rightarrow> (Some (SaveIO ''rename'' e), [files, f1, f2, removeTemp calls tmp f2])
                           | None \<Rightarrow> (None, [files, f1, f2,
                               mput target (case mget f2 tmp of Some b \<Rightarrow> b | None \<Rightarrow> []) (mdel tmp f2)])))))"

definition SaveTo ::
  "(string \<Rightarrow> codec option) \<Rightarrow> (string \<Rightarrow> string option) \<Rightarrow> (string \<Rightarrow> string option) \<Rightarrow> saveCalls \<Rightarrow> saveOptions
   \<Rightarrow> string \<Rightarrow> registry \<Rightarrow> string gomap \<Rightarrow> saveError option \<times> string gomap list" where
  "SaveTo codecs detect link calls cfg0 p r files =
     (if rgClosed r then (Some SaveClosed, [files])
      else let cfg = (if soFormat cfg0 = [] then (case detect p of Some name \<Rightarrow> cfg0\<lparr>soFormat := name\<rparr> | None \<Rightarrow> cfg0)
                      else cfg0)
           in if soFormat cfg = [] then (Some SaveNoFormat, [files])
              else saveFile link calls (encodeWith codecs cfg r) p files)"


section \<open>What a save guarantees\<close>

text \<open>Two snapshots of the same keys whose values agree wherever no secret is stored.\<close>

definition sameButSecrets :: "registry \<Rightarrow> govalue gomap \<Rightarrow> govalue gomap \<Rightarrow> bool" where
  "sameButSecrets r vals vals' \<longleftrightarrow>
     (\<forall>k. if secretHas (rgSecretKeys r) (rgAliases r) k
          then \<forall>red. rgRedactor r = Some red \<longrightarrow>
                 red (valueString (rgFormat r) (case mget vals k of Some v \<Rightarrow> v | None \<Rightarrow> zeroValue))
                 = red (valueString (rgFormat r) (case mget vals' k of Some v \<Rightarrow> v | None \<Rightarrow> zeroValue))
          else mget vals k = mget vals' k)"

lemma rankOf_values [simp]: "rankOf (s\<lparr>snValues := vals\<rparr>) = rankOf s"
  by (auto simp: rankOf_def rankIndex_def)

lemma shadowedAmong_values [simp]: "shadowedAmong (s\<lparr>snValues := vals\<rparr>) idx = shadowedAmong s idx"
  by (simp add: shadowedAmong_def shadowedKeys_def)

lemma saveKeeps_values [simp]: "saveKeeps (s\<lparr>snValues := vals\<rparr>) cfg pol i = saveKeeps s cfg pol i"
  by (simp add: saveKeeps_def)

lemma savePolicyOf_snapshot [simp]: "savePolicyOf (r\<lparr>rgSnapshot := s\<rparr>) = savePolicyOf r"
  by (simp add: savePolicyOf_def)

lemma saveLeaf_values:
  assumes "sameButSecrets r (snValues s) vals'" and "\<not> soIncludeSecrets cfg"
  shows "saveLeaf (rgFormat r) (s\<lparr>snValues := vals'\<rparr>) cfg (savePolicyOf r) ps
         = saveLeaf (rgFormat r) s cfg (savePolicyOf r) ps"
proof -
  note same = assms(1)[unfolded sameButSecrets_def, rule_format, of ps]
  show ?thesis
    using same assms(2)
    by (cases "rgRedactor r") (auto simp: saveLeaf_def policySecret_def savePolicyOf_def valueAt_def Let_def split: if_splits)
qed

lemma buildSavePayload_values:
  assumes "sameButSecrets r (snValues s) vals'" and "\<not> soIncludeSecrets cfg"
  shows "buildSavePayload (rgFormat r) (s\<lparr>snValues := vals'\<rparr>) cfg (savePolicyOf r)
         = buildSavePayload (rgFormat r) s cfg (savePolicyOf r)"
proof -
  have kept: "snKeyStrs (s\<lparr>snValues := vals'\<rparr>) = snKeyStrs s" "snKeys (s\<lparr>snValues := vals'\<rparr>) = snKeys s"
    by simp_all
  have "saveStep (rgFormat r) (s\<lparr>snValues := vals'\<rparr>) cfg (savePolicyOf r) shadowed i
        = saveStep (rgFormat r) s cfg (savePolicyOf r) shadowed i" for shadowed i
    by (rule ext)
      (simp only: saveStep_def saveLeaf_values[OF assms] snapshot.simps snapshot.update_convs Let_def kept
             cong: if_cong option.case_cong)
  then have "saveStep (rgFormat r) (s\<lparr>snValues := vals'\<rparr>) cfg (savePolicyOf r) shadowed
        = saveStep (rgFormat r) s cfg (savePolicyOf r) shadowed" for shadowed
    by (rule ext)
  then show ?thesis by (simp add: buildSavePayload_def Let_def cong: filter_cong)
qed

lemma describeRow_values:
  assumes "sameButSecrets r (snValues s) vals'" and "rgRedactor r \<noteq> None"
  shows "describeRow r (s\<lparr>snValues := vals'\<rparr>) ks = describeRow r s ks"
proof -
  note same = assms(1)[unfolded sameButSecrets_def, rule_format, of ks]
  show ?thesis
    using same assms(2) by (auto simp: describeRow_def valueAt_def Let_def split: if_splits)
qed

lemma encodeWith_values:
  assumes "rgSnapshot r = Some s" and "sameButSecrets r (snValues s) vals'" and "\<not> soIncludeSecrets cfg"
  shows "encodeWith codecs cfg (r\<lparr>rgSnapshot := Some (s\<lparr>snValues := vals'\<rparr>)\<rparr>) = encodeWith codecs cfg r"
proof -
  have "(case rgSnapshot (r\<lparr>rgSnapshot := Some (s\<lparr>snValues := vals'\<rparr>)\<rparr>) of None \<Rightarrow> []
         | Some snap \<Rightarrow> buildSavePayload (rgFormat (r\<lparr>rgSnapshot := Some (s\<lparr>snValues := vals'\<rparr>)\<rparr>)) snap cfg
             (savePolicyOf (r\<lparr>rgSnapshot := Some (s\<lparr>snValues := vals'\<rparr>)\<rparr>)))
        = (case rgSnapshot r of None \<Rightarrow> [] | Some snap \<Rightarrow> buildSavePayload (rgFormat r) snap cfg (savePolicyOf r))"
    by (simp add: assms(1) buildSavePayload_values[OF assms(2,3)])
  then show ?thesis unfolding encodeWith_def by (rule arg_cong)
qed

lemma describeRow_snapshot [simp]: "describeRow (r\<lparr>rgSnapshot := x\<rparr>) = describeRow r"
  by (intro ext) (simp add: describeRow_def)

text \<open>
  C16: What is stored under a secret key does not reach a saved document or a description. Take a registry
  and replace the values of its snapshot, any way whatever under the keys marked secret (when a
  redactor is set: any way it does not tell apart), not at all elsewhere. The bytes \<open>Save\<close> writes
  without \<open>WithSaveIncludeSecrets\<close> are the same, and, with a redactor, so are the rows of \<open>Describe\<close>.
\<close>

theorem secrets_do_not_flow:
  assumes "rgSnapshot r = Some s" and "sameButSecrets r (snValues s) vals'"
  shows "(\<not> soIncludeSecrets cfg \<longrightarrow>
         SaveString codecs cfg (r\<lparr>rgSnapshot := Some (s\<lparr>snValues := vals'\<rparr>)\<rparr>) = SaveString codecs cfg r)
    \<and> (rgRedactor r \<noteq> None \<longrightarrow>
         Describe (r\<lparr>rgSnapshot := Some (s\<lparr>snValues := vals'\<rparr>)\<rparr>) = Describe r)"
  by (simp add: SaveString_def Describe_def encodeWith_values[OF assms] describeRow_values[OF assms(2)] assms(1)
        cong: map_cong)

lemma saveFile_cases:
  assumes "saveFile link calls encoded p files = (err, states)" and "mwf files"
    and "\<And>tmp. scTemp calls = Inr tmp \<Longrightarrow> mget files tmp = None"
  obtains (no_temp) "err \<noteq> None" "states = [files]"
  | (failed) tmp c where "scTemp calls = Inr tmp" "err \<noteq> None"
      "states = [files, mput tmp [] files, mput tmp c files, if scRemove calls then files else mput tmp c files]"
  | (renamed) tmp b where "scTemp calls = Inr tmp" "err = None" "encoded = Inr b"
      "states = [files, mput tmp [] files, mput tmp b files, mput (resolveSymlinks link p) b files]"
proof (cases "scTemp calls")
  case (Inl e)
  with assms(1) show ?thesis by (intro no_temp) (auto simp: saveFile_def)
next
  case (Inr tmp)
  have del: "mdel tmp (mput tmp c files) = files" for c
    using gm.del_put[OF assms(2)] assms(3)[OF Inr] by blast
  note put = gm.put_put[OF assms(2)]
  show ?thesis
  proof (cases "err = None")
    case True
    with assms(1) Inr obtain b where "encoded = Inr b"
      "states = [files, mput tmp [] files, mput tmp b files, mput (resolveSymlinks link p) b files]"
      by (auto simp: saveFile_def writeTemp_def put del mget_mput Let_def split: sum.splits option.splits prod.splits)
    with Inr True show ?thesis by (intro renamed)
  next
    case False
    obtain c where "snd (writeTemp calls encoded tmp (mput tmp [] files)) = mput tmp c files"
      by (cases encoded; cases "scWrite calls") (auto simp: writeTemp_def put)
    with assms(1) Inr False
    have "states = [files, mput tmp [] files, mput tmp c files, if scRemove calls then files else mput tmp c files]"
      by (auto simp: saveFile_def removeTemp_def del Let_def split: option.splits prod.splits)
    with Inr False show ?thesis by (intro failed)
  qed
qed

lemma SaveTo_cases:
  assumes "SaveTo codecs detect link calls cfg p r files = (err, states)"
    and "\<not> (err \<noteq> None \<and> states = [files])"
  obtains fmt where "saveFile link calls (encodeWith codecs (cfg\<lparr>soFormat := fmt\<rparr>) r) p files = (err, states)"
proof -
  have "\<exists>fmt. (if soFormat cfg = [] then case detect p of Some name \<Rightarrow> cfg\<lparr>soFormat := name\<rparr> | None \<Rightarrow> cfg else cfg)
              = cfg\<lparr>soFormat := fmt\<rparr>"
    by (cases "detect p") (auto intro: exI[of _ "soFormat cfg"])
  then obtain fmt where
    "(if soFormat cfg = [] then case detect p of Some name \<Rightarrow> cfg\<lparr>soFormat := name\<rparr> | None \<Rightarrow> cfg else cfg)
     = cfg\<lparr>soFormat := fmt\<rparr>" by blast
  with assms show ?thesis by (intro that[of fmt]) (auto simp: SaveTo_def Let_def split: if_splits)
qed

text \<open>
  C19: A save to a path is all or nothing. \<open>os.CreateTemp\<close> makes a file that did not exist, and its
  name is not the target's. At every moment of the save the file the path leads to
  holds what it held before, until the rename gives it exactly the encoded bytes; other files are
  never touched; and a save that reports an error leaves the target as it was and, when the
  temporary file can be removed, every file.
\<close>

theorem SaveTo_all_or_nothing:
  assumes "SaveTo codecs detect link calls cfg p r files = (err, states)" and "mwf files"
    and "\<And>tmp. scTemp calls = Inr tmp \<Longrightarrow> mget files tmp = None \<and> tmp \<noteq> resolveSymlinks link p"
  shows "(\<forall>st \<in> set (butlast states). mget st (resolveSymlinks link p) = mget files (resolveSymlinks link p))
    \<and> (\<forall>st \<in> set states. \<forall>k. k \<noteq> resolveSymlinks link p \<longrightarrow> scTemp calls \<noteq> Inr k \<longrightarrow> mget st k = mget files k)
    \<and> (err \<noteq> None \<longrightarrow> mget (last states) (resolveSymlinks link p) = mget files (resolveSymlinks link p)
         \<and> (scRemove calls \<longrightarrow> last states = files))
    \<and> (err = None \<longrightarrow> (\<exists>fmt b. encodeWith codecs (cfg\<lparr>soFormat := fmt\<rparr>) r = Inr b
         \<and> last states = mput (resolveSymlinks link p) b files))"
proof (cases "err \<noteq> None \<and> states = [files]")
  case True
  then show ?thesis by auto
next
  case False
  with assms(1) obtain fmt where
    "saveFile link calls (encodeWith codecs (cfg\<lparr>soFormat := fmt\<rparr>) r) p files = (err, states)"
    by (rule SaveTo_cases)
  then show ?thesis
    by (rule saveFile_cases[OF _ assms(2) conjunct1[OF assms(3)]]) (auto simp: mget_mput dest: assms(3))
qed

definition demoSnapshot :: "string \<Rightarrow> govalue \<Rightarrow> snapshot" where
  "demoSnapshot k v =
     \<lparr>snValues = [(k, v)], snSources = [(k, [''file''])], snKeys = [ParsePath k], snKeyStrs = [k],
      snLookupKeys = [k], snLookupPaths = [ParsePath k], snOverridden = [], snInParent = [],
      snSourceNames = [''file''], snAliases = [], snSecretKeys = sadd ''http.token'' [], snRedactor = None\<rparr>"

definition demoSecrets :: "string \<Rightarrow> govalue \<Rightarrow> registry" where
  "demoSecrets k v = emptyRegistry\<lparr>rgSecretKeys := sadd ''http.token'' [], rgSnapshot := Some (demoSnapshot k v)\<rparr>"

definition demoSave :: saveOptions where
  "demoSave = \<lparr>soFormat = ''json'', soIncludeSecrets = False, soIncludeDefaults = False, soOnlyPrefix = []\<rparr>"

lemma demoSecrets_same:
  "sameButSecrets (demoSecrets ''http.token'' v) (snValues (demoSnapshot ''http.token'' v)) [(''http.token'', w)]"
proof -
  have "secretHas (sadd ''http.token'' []) [] ''http.token''"
    by code_simp
  then show ?thesis
    by (auto simp: sameButSecrets_def demoSecrets_def demoSnapshot_def emptyRegistry_def)
qed

lemma secrets_do_not_flow_witness:
  "Describe (demoSecrets ''http.token'' (mk (StringV ''one'' False False)))
   = Describe ((demoSecrets ''http.token'' (mk (StringV ''one'' False False)))
       \<lparr>rgSnapshot := Some ((demoSnapshot ''http.token'' (mk (StringV ''one'' False False)))\<lparr>snValues := [(''http.token'', mk NullV)]\<rparr>)\<rparr>)
   \<and> SaveString (\<lambda>_. Some (\<lambda>_. Inr [])) demoSave (demoSecrets ''http.token'' (mk (StringV ''one'' False False)))
     = SaveString (\<lambda>_. Some (\<lambda>_. Inr [])) demoSave ((demoSecrets ''http.token'' (mk (StringV ''one'' False False)))
       \<lparr>rgSnapshot := Some ((demoSnapshot ''http.token'' (mk (StringV ''one'' False False)))\<lparr>snValues := [(''http.token'', mk NullV)]\<rparr>)\<rparr>)"
proof -
  have snap: "rgSnapshot (demoSecrets ''http.token'' (mk (StringV ''one'' False False))) = Some (demoSnapshot ''http.token'' (mk (StringV ''one'' False False)))"
    and red: "rgRedactor (demoSecrets ''http.token'' (mk (StringV ''one'' False False))) \<noteq> None"
    and cfg: "\<not> soIncludeSecrets demoSave"
    by (simp_all add: demoSecrets_def demoSave_def emptyRegistry_def)
  show ?thesis
    using secrets_do_not_flow[OF snap demoSecrets_same] cfg red by simp
qed

text \<open>
  The redaction is by key: a marked child of a key that holds a whole map is written out with it.
\<close>

lemma marked_child_of_map_saved:
  "buildSavePayload (rgFormat emptyRegistry)
     (demoSnapshot ''http'' (mk (MapV [(''token'', mk (StringV ''s3cret'' False False))]))) demoSave
     (savePolicyOf (demoSecrets ''http'' v))
   = [(''http'', AAnyMap [(''token'', AStr ''s3cret'')])]"
  "IsSecret [] ''http.token'' (demoSecrets ''http'' v)"
  by (code_simp, code_simp)

definition demoCalls :: "(string \<times> nat) option \<Rightarrow> saveCalls" where
  "demoCalls w =
     \<lparr>scTemp = Inr ''c.tmp'', scWrite = w, scFinish = None, scClose = None, scRename = None, scRemove = True\<rparr>"

lemma SaveTo_all_or_nothing_witness:
  "mget (last (snd (SaveTo (\<lambda>_. Some (\<lambda>_. Inr ''{}'')) (\<lambda>_. None) (\<lambda>_. None) (demoCalls (Some (''full'', 1)))
      demoSave ''c'' emptyRegistry [(''c'', ''old'')]))) ''c'' = Some ''old''"
proof -
  let ?res = "SaveTo (\<lambda>_. Some (\<lambda>_. Inr ''{}'')) (\<lambda>_. None) (\<lambda>_. None) (demoCalls (Some (''full'', 1)))
      demoSave ''c'' emptyRegistry [(''c'', ''old'')]"
  have target: "resolveSymlinks (\<lambda>_. None) ''c'' = ''c''"
    by (simp add: resolveSymlinks_def maxSymlinkHops_def numeral_eq_Suc)
  have failed: "fst ?res \<noteq> None"
    by (simp add: SaveTo_def saveFile_def writeTemp_def demoCalls_def demoSave_def emptyRegistry_def
        encodeWith_def Let_def)
  show ?thesis
    using SaveTo_all_or_nothing[of _ _ _ _ _ _ _ _ "fst ?res" "snd ?res", OF prod.collapse[symmetric]] failed
    by (simp add: target demoCalls_def)
qed

end
