(* ===== verification/ShellPath.thy ===== *)
theory ShellPath
  imports GoStrings
begin

text \<open>
  \<open>path_expansion.go\<close>: the expansion of \<open>~\<close> and of variables in file paths. The process environment,
  the home directory of the process and the users of the system are parameters. The index into the
  text is a recursion on the rest of it.
\<close>

datatype shellError =
    ShellHome string
  | ShellUser string string
  | ShellUnset string string

record shellEnv =
  shGetenv :: "string \<Rightarrow> string option"
  shHome :: "string + string"
  shUser :: "string \<Rightarrow> string + string"

definition isVarFirstByte :: "char \<Rightarrow> bool" where
  "isVarFirstByte c =
     (c = CHR ''_'' \<or> CHR ''A'' \<le> c \<and> c \<le> CHR ''Z'' \<or> CHR ''a'' \<le> c \<and> c \<le> CHR ''z'')"

definition isVarByte :: "char \<Rightarrow> bool" where
  "isVarByte c = (isVarFirstByte c \<or> CHR ''0'' \<le> c \<and> c \<le> CHR ''9'')"

definition getenv :: "shellEnv \<Rightarrow> string \<Rightarrow> string" where
  "getenv sh name = (case shGetenv sh name of Some v \<Rightarrow> v | None \<Rightarrow> [])"

text \<open>The text before the first slash of either kind, and the rest from it.\<close>

definition isSlash :: "char \<Rightarrow> bool" where
  "isSlash c = (c = CHR ''/'' \<or> c = CHR 0x5C)"

definition expandTilde :: "shellEnv \<Rightarrow> string \<Rightarrow> shellError + string" where
  "expandTilde sh p =
     (if \<not> hasPrefix p ''~'' then Inr p
      else let name = drop 1 (takeWhile (\<lambda>c. \<not> isSlash c) p);
               rest = dropWhile (\<lambda>c. \<not> isSlash c) p
           in if name = []
              then (case shHome sh of Inl e \<Rightarrow> Inl (ShellHome e) | Inr home \<Rightarrow> Inr (home @ rest))
              else (case shUser sh name of Inl e \<Rightarrow> Inl (ShellUser name e) | Inr home \<Rightarrow> Inr (home @ rest)))"

datatype shellOp = DefaultEmpty | AltEmpty | RequireSet | DefaultUnset | AltUnset

text \<open>\<open>findShellOp\<close>: the variable name at the start, the modifier after it and the word.\<close>

definition shellOps :: "(string \<times> shellOp) list" where
  "shellOps = [('':-'', DefaultEmpty), ('':+'', AltEmpty), ('':?'', RequireSet), (''-'', DefaultUnset),
     (''+'', AltUnset)]"

definition findShellOp :: "string \<Rightarrow> (string \<times> shellOp \<times> string) option" where
  "findShellOp expr =
     (if expr = [] \<or> \<not> isVarFirstByte (hd expr) then None
      else let name = takeWhile isVarByte expr; rest = dropWhile isVarByte expr
           in case List.find (\<lambda>(op, _). hasPrefix rest op) shellOps of
                None \<Rightarrow> None
              | Some (op, m) \<Rightarrow> Some (name, m, drop (length op) rest))"

definition evalBraced :: "shellEnv \<Rightarrow> string \<Rightarrow> shellError + string" where
  "evalBraced sh expr =
     (case findShellOp expr of
        None \<Rightarrow> Inr (getenv sh expr)
      | Some (name, op, rhs) \<Rightarrow>
          (let val = getenv sh name; set = (shGetenv sh name \<noteq> None)
           in case op of
                DefaultEmpty \<Rightarrow> Inr (if \<not> set \<or> val = [] then rhs else val)
              | DefaultUnset \<Rightarrow> Inr (if \<not> set then rhs else val)
              | RequireSet \<Rightarrow> if \<not> set \<or> val = [] then Inl (ShellUnset name rhs) else Inr val
              | AltEmpty \<Rightarrow> Inr (if set \<and> val \<noteq> [] then rhs else [])
              | AltUnset \<Rightarrow> Inr (if set then rhs else [])))"

text \<open>\<open>expandBraced\<close>: the substitution for a text \<open>${...\<close>, and what follows it.\<close>

definition expandBraced :: "shellEnv \<Rightarrow> string \<Rightarrow> (shellError + string) \<times> string" where
  "expandBraced sh s =
     (case cutStr (drop 2 s) ''}'' of
        None \<Rightarrow> (Inr s, [])
      | Some (expr, rest) \<Rightarrow> (evalBraced sh expr, rest))"

lemma expandBraced_shorter: "(out, r) = expandBraced sh (c # s) \<Longrightarrow> length r < Suc (length s)"
  by (auto simp: expandBraced_def split: option.splits dest!: cutStr_shorter)

function expandVarsLoop :: "shellEnv \<Rightarrow> string \<Rightarrow> shellError + string" where
  "expandVarsLoop sh [] = Inr []"
| "expandVarsLoop sh (c # s) =
     (if c \<noteq> CHR ''$'' then map_sum id ((#) c) (expandVarsLoop sh s)
      else if hasPrefix s ''{''
      then (case expandBraced sh (c # s) of
              (Inl e, rest) \<Rightarrow> Inl e
            | (Inr out, rest) \<Rightarrow> map_sum id ((@) out) (expandVarsLoop sh rest))
      else if s \<noteq> [] \<and> isVarFirstByte (hd s)
      then map_sum id ((@) (getenv sh (takeWhile isVarByte s))) (expandVarsLoop sh (dropWhile isVarByte s))
      else map_sum id ((#) c) (expandVarsLoop sh s))"
  by pat_completeness auto
termination
proof (relation "measure (\<lambda>(sh, s). length s)", goal_cases)
  case (3 sh c s p1 p2 out)
  then show ?case using expandBraced_shorter[of "Inr out" p2 sh c s] by simp
qed (simp_all add: length_dropWhile_le le_imp_less_Suc)

definition expandVars :: "shellEnv \<Rightarrow> string \<Rightarrow> shellError + string" where
  "expandVars sh s = (if CHR ''$'' \<notin> set s then Inr s else expandVarsLoop sh s)"

definition expandShellPath :: "shellEnv \<Rightarrow> string \<Rightarrow> shellError + string" where
  "expandShellPath sh p =
     (if p = [] then Inr []
      else case expandTilde sh p of Inl e \<Rightarrow> Inl e | Inr expanded \<Rightarrow> expandVars sh expanded)"


section \<open>One pass over the pieces\<close>

text \<open>
  The pieces of a path: literal text, \<open>$NAME\<close>, \<open>${...}\<close>, a dollar that starts neither and a \<open>${\<close> that is
  not closed.
\<close>

datatype piece = Lit string | Var string | Braced string | Stray | Unclosed string

fun renderPiece :: "piece \<Rightarrow> string" where
  "renderPiece (Lit s) = s"
| "renderPiece (Var n) = CHR ''$'' # n"
| "renderPiece (Braced e) = ''${'' @ e @ ''}''"
| "renderPiece Stray = ''$''"
| "renderPiece (Unclosed s) = ''${'' @ s"

fun evalPiece :: "shellEnv \<Rightarrow> piece \<Rightarrow> shellError + string" where
  "evalPiece sh (Lit s) = Inr s"
| "evalPiece sh (Var n) = Inr (getenv sh n)"
| "evalPiece sh (Braced e) = evalBraced sh e"
| "evalPiece sh Stray = Inr ''$''"
| "evalPiece sh (Unclosed s) = Inr (''${'' @ s)"

text \<open>A name ends where the next text does not continue it; a stray dollar starts nothing.\<close>

fun pieceOk :: "piece \<Rightarrow> string \<Rightarrow> bool" where
  "pieceOk (Lit s) rest = (CHR ''$'' \<notin> set s)"
| "pieceOk (Var n) rest = (n \<noteq> [] \<and> isVarFirstByte (hd n) \<and> list_all isVarByte n
     \<and> (rest = [] \<or> \<not> isVarByte (hd rest)))"
| "pieceOk (Braced e) rest = (CHR ''}'' \<notin> set e)"
| "pieceOk Stray rest = (rest = [] \<or> hd rest \<noteq> CHR ''{'' \<and> \<not> isVarFirstByte (hd rest))"
| "pieceOk (Unclosed s) rest = (rest = [] \<and> CHR ''}'' \<notin> set s)"

fun piecesOk :: "piece list \<Rightarrow> bool" where
  "piecesOk [] = True"
| "piecesOk (p # ps) = (pieceOk p (concat (map renderPiece ps)) \<and> piecesOk ps)"

fun evalPieces :: "shellEnv \<Rightarrow> piece list \<Rightarrow> shellError + string" where
  "evalPieces sh [] = Inr []"
| "evalPieces sh (p # ps) =
     (case evalPiece sh p of Inl e \<Rightarrow> Inl e | Inr t \<Rightarrow> map_sum id ((@) t) (evalPieces sh ps))"

lemma map_sum_id [simp]: "map_sum id (\<lambda>x. x) r = r" "map_sum id ((@) []) r = r"
  by (cases r; simp)+

lemma map_sum_append: "map_sum id ((@) s) (map_sum id ((@) t) r) = map_sum id ((@) (s @ t)) r"
  by (cases r) auto

lemma map_sum_Cons: "map_sum id ((#) c) (map_sum id ((@) t) r) = map_sum id ((@) (c # t)) r"
  by (cases r) auto

lemma loop_literal:
  "CHR ''$'' \<notin> set s \<Longrightarrow> expandVarsLoop sh (s @ r) = map_sum id ((@) s) (expandVarsLoop sh r)"
  by (induction s) (auto simp: map_sum_Cons)

lemma varByte_not_brace: "isVarByte c \<Longrightarrow> c \<noteq> CHR ''{''"
  by (auto simp: isVarByte_def isVarFirstByte_def less_eq_char_def)

lemma loop_var:
  assumes "pieceOk (Var n) r"
  shows "expandVarsLoop sh (CHR ''$'' # n @ r) = map_sum id ((@) (getenv sh n)) (expandVarsLoop sh r)"
proof -
  from assms obtain c m where n: "n = c # m" and c: "isVarFirstByte c" by (cases n) auto
  have name: "takeWhile isVarByte (n @ r) = n" "dropWhile isVarByte (n @ r) = r"
    using assms by (cases r; auto simp: list_all_iff takeWhile_append dropWhile_append)+
  have "\<not> hasPrefix (n @ r) ''{''"
    using c varByte_not_brace[of c] by (simp add: n isVarByte_def)
  then show ?thesis using c name by (simp add: n)
qed

lemma cut_close: "CHR ''}'' \<notin> set e \<Longrightarrow> cutStr (e @ CHR ''}'' # s) ''}'' = Some (e, s)"
  by (induction e) auto

lemma cut_none_iff: "cutStr s ''}'' = None \<longleftrightarrow> CHR ''}'' \<notin> set s"
  by (induction s) (auto simp: cutStr_byte_Cons)

lemma cut_none_close: "CHR ''}'' \<notin> set s \<Longrightarrow> cutStr s ''}'' = None"
  using cut_none_iff by blast

lemma cut_first: "cutStr s ''}'' = Some (e, r) \<Longrightarrow> CHR ''}'' \<notin> set e"
  by (induction s arbitrary: e) (auto simp: cutStr_byte_Cons split: if_splits option.splits)

lemma loop_pieces: "piecesOk ps \<Longrightarrow> expandVarsLoop sh (concat (map renderPiece ps)) = evalPieces sh ps"
proof (induction ps)
  case (Cons p ps)
  let ?r = "concat (map renderPiece ps)"
  from Cons have IH: "expandVarsLoop sh ?r = evalPieces sh ps" and ok: "pieceOk p ?r" by simp_all
  show ?case
  proof (cases p)
    case (Lit s)
    with ok IH show ?thesis by (simp add: loop_literal)
  next
    case (Var n)
    with ok IH loop_var[of n ?r sh] show ?thesis by simp
  next
    case (Braced e)
    with ok IH show ?thesis by (simp add: expandBraced_def cut_close split: sum.splits)
  next
    case Stray
    have "\<not> hasPrefix ?r ''{''"
    proof (cases ?r)
      case (Cons c r)
      with ok Stray show ?thesis by (simp only: Cons hasPrefix.simps) auto
    qed (simp only: hasPrefix.simps simp_thms)
    with ok IH Stray show ?thesis by (auto simp: map_sum_def split: sum.splits)
  next
    case (Unclosed s)
    with ok have r: "?r = []" and c: "cutStr s ''}'' = None" by (simp_all add: cut_none_close)
    have "evalPieces sh ps = Inr []" using IH by (simp only: r expandVarsLoop.simps)
    with Unclosed c show ?thesis by (simp only: list.map concat.simps r evalPieces.simps) (simp add: expandBraced_def)
  qed
qed simp

text \<open>Every text is the text of its pieces.\<close>

lemma pieces_exist: "\<exists>ps. piecesOk ps \<and> concat (map renderPiece ps) = s"
proof (induction "length s" arbitrary: s rule: less_induct)
  case less
  have piece: "\<exists>ps. piecesOk ps \<and> concat (map renderPiece ps) = s"
    if "s = renderPiece p @ r" "length r < length s" "pieceOk p r" for p r
  proof -
    from less[OF that(2)] obtain ps where "piecesOk ps" "concat (map renderPiece ps) = r" by blast
    with that show ?thesis by (intro exI[of _ "p # ps"]) simp
  qed
  show ?case
  proof (cases s)
    case Nil
    then show ?thesis by (intro exI[of _ "[]"]) simp
  next
    case (Cons c t)
    consider (lit) "c \<noteq> CHR ''$''" | (brace) "c = CHR ''$''" "hasPrefix t ''{''"
      | (var) "c = CHR ''$''" "t \<noteq> []" "isVarFirstByte (hd t)"
      | (stray) "c = CHR ''$''" "\<not> hasPrefix t ''{''" "t = [] \<or> \<not> isVarFirstByte (hd t)" by blast
    then show ?thesis
    proof cases
      case lit
      with Cons show ?thesis by (intro piece[of "Lit [c]" t]) auto
    next
      case brace
      then obtain u where t: "t = CHR ''{'' # u" by (cases t) auto
      show ?thesis
      proof (cases "cutStr u ''}''")
        case None
        then have "CHR ''}'' \<notin> set u" using cut_none_iff by blast
        with brace t Cons show ?thesis by (intro piece[of "Unclosed u" "[]"]) auto
      next
        case (Some er)
        obtain e r where er: "er = (e, r)" by force
        with Some have "u = e @ CHR ''}'' # r" "CHR ''}'' \<notin> set e"
          using cutStr_Some cut_first by (fastforce, blast)
        with brace t Cons show ?thesis by (intro piece[of "Braced e" r]) auto
      qed
    next
      case var
      let ?n = "takeWhile isVarByte t" and ?r = "dropWhile isVarByte t"
      from var obtain d u where t: "t = d # u" "isVarFirstByte d" by (cases t) auto
      then have "?n = d # takeWhile isVarByte u" by (simp add: isVarByte_def)
      moreover have "list_all isVarByte ?n" by (auto simp: list_all_iff dest: set_takeWhileD)
      ultimately have "pieceOk (Var ?n) ?r" using t by (cases ?r) (auto dest: dropWhile_eq_Cons_conv[THEN iffD1])
      moreover have "s = renderPiece (Var ?n) @ ?r" "length ?r < length s"
        using Cons var(1) by (simp_all add: length_dropWhile_le le_imp_less_Suc)
      ultimately show ?thesis by (intro piece)
    next
      case stray
      then have "pieceOk Stray t" by (cases t) auto
      with stray Cons show ?thesis by (intro piece[of Stray t]) auto
    qed
  qed
qed


section \<open>Property\<close>

text \<open>
  C31: Variables in a file path are expanded in one pass. A path is literal text, \<open>$NAME\<close> references,
  \<open>${...}\<close> expressions and stray dollars, and every text is such a sequence: the expansion is the
  literals with every reference replaced by its value in the environment (and not expanded again),
  or the error of the first \<open>${NAME:?text}\<close> whose variable is unset or empty.
\<close>

theorem expandVars_pieces:
  "(piecesOk ps \<longrightarrow> expandVars sh (concat (map renderPiece ps)) = evalPieces sh ps)
   \<and> (\<exists>qs. piecesOk qs \<and> concat (map renderPiece qs) = s)"
proof (rule conjI, rule impI)
  assume ok: "piecesOk ps"
  have "expandVarsLoop sh t = expandVars sh t" for t
    using loop_literal[of t sh "[]"] by (simp add: expandVars_def)
  then show "expandVars sh (concat (map renderPiece ps)) = evalPieces sh ps"
    using loop_pieces[OF ok, of sh] by simp
qed (rule pieces_exist)

lemma expandVars_pieces_witness:
  "expandVars \<lparr>shGetenv = (\<lambda>n. if n = ''A'' then Some ''1'' else None), shHome = Inr ''/root'', shUser = Inl\<rparr>
     ''/etc/$A/${B:-x$A}'' = Inr ''/etc/1/x$A''"
proof -
  have "piecesOk [Lit ''/etc/'', Var ''A'', Lit ''/'', Braced ''B:-x$A'']" by code_simp
  with expandVars_pieces[of "[Lit ''/etc/'', Var ''A'', Lit ''/'', Braced ''B:-x$A'']"] show ?thesis
    by (simp add: getenv_def evalBraced_def findShellOp_def shellOps_def isVarByte_def isVarFirstByte_def less_eq_char_def)
qed

end
