(* ===== verification/PollWatch.thy ===== *)
theory PollWatch
  imports Value
begin

text \<open>
  \<open>watcher_poll.go\<close>: the watcher that looks at a file on every tick of a clock. What the file system
  answers at a tick is a parameter: the file's absence, an error, or its size, its modification time
  and the outcome of reading it. The channel blocks the watcher until a change is taken, so the
  changes are the list it sends.
\<close>

section \<open>The hash\<close>

text \<open>\<open>fnv64a\<close> on 64-bit words; the multiplication wraps.\<close>

definition fnvOffset :: uint64 where
  "fnvOffset = 14695981039346656037"

definition fnvPrime :: uint64 where
  "fnvPrime = 1099511628211"

definition fnvStep :: "char \<Rightarrow> uint64 \<Rightarrow> uint64" where
  "fnvStep b h = xor h (of_char b) * fnvPrime"

definition fnv64a :: "string \<Rightarrow> uint64" where
  "fnv64a data = fold fnvStep data fnvOffset"


section \<open>Samples\<close>

record pollSample =
  psExists :: bool
  psSize :: int64
  psMtime :: gotime
  psDigest :: uint64
  psHashed :: bool

definition noSample :: pollSample where
  "noSample = \<lparr>psExists = False, psSize = 0, psMtime = (0, 0), psDigest = 0, psHashed = False\<rparr>"

definition sampleEqual :: "pollSample \<Rightarrow> pollSample \<Rightarrow> bool" where
  "sampleEqual s t =
     (if psExists s \<noteq> psExists t then False
      else if \<not> psExists s then True
      else if psSize s \<noteq> psSize t then False
      else if fst (psMtime s) \<noteq> fst (psMtime t) then False
      else if psHashed s \<and> psHashed t \<and> psDigest s \<noteq> psDigest t then False
      else True)"

text \<open>What \<open>os.Stat\<close> and \<open>os.ReadFile\<close> answer; a file that cannot be read has no content here.\<close>

datatype fileState =
    Missing
  | StatFails string
  | File int64 gotime "string option"

definition hashCutoff :: int64 where
  "hashCutoff = push_bit 20 1"

definition pollSnap :: "fileState \<Rightarrow> string + pollSample" where
  "pollSnap st =
     (case st of
        Missing \<Rightarrow> Inr noSample
      | StatFails e \<Rightarrow> Inl e
      | File sz mtime content \<Rightarrow>
          Inr (let s = noSample\<lparr>psExists := True, psSize := sz, psMtime := mtime\<rparr>
               in if sint sz \<le> sint hashCutoff
                  then (case content of
                          None \<Rightarrow> s
                        | Some data \<Rightarrow> s\<lparr>psDigest := fnv64a data, psHashed := True\<rparr>)
                  else s))"


section \<open>The loop\<close>

text \<open>One tick: what is sent, an error or a change, and the sample kept.\<close>

definition pollTick :: "pollSample \<Rightarrow> fileState \<Rightarrow> string option option \<times> pollSample" where
  "pollTick prev st =
     (case pollSnap st of
        Inl e \<Rightarrow> (Some (Some e), prev)
      | Inr cur \<Rightarrow> if \<not> sampleEqual cur prev then (Some None, cur) else (None, prev))"

definition pollBaseline :: "fileState \<Rightarrow> pollSample" where
  "pollBaseline st = (case pollSnap st of Inl e \<Rightarrow> noSample | Inr s \<Rightarrow> s)"

fun pollLoop :: "pollSample \<Rightarrow> fileState list \<Rightarrow> string option option list \<times> pollSample" where
  "pollLoop prev [] = ([], prev)"
| "pollLoop prev (st # sts) =
     (let (out, prev1) = pollTick prev st; (outs, prev2) = pollLoop prev1 sts in (out # outs, prev2))"

text \<open>\<open>Watch\<close> of a path, from the baseline through the ticks; the empty path is refused.\<close>

definition pollWatch :: "string \<Rightarrow> fileState \<Rightarrow> fileState list \<Rightarrow> unit + string option option list" where
  "pollWatch p base ticks = (if p = [] then Inl () else Inr (fst (pollLoop (pollBaseline base) ticks)))"

text \<open>\<open>NewPollWatcher\<close>: the interval, in nanoseconds.\<close>

definition pollInterval :: "int64 \<Rightarrow> int64" where
  "pollInterval interval = (if sint interval \<le> 0 then 1000000000 else interval)"


section \<open>The hash separates single changes\<close>

definition fnvInverse :: uint64 where
  "fnvInverse = 14886173955864302971"

lemma fnvPrime_inverse: "fnvPrime * fnvInverse = 1"
  by (simp add: fnvPrime_def fnvInverse_def)

lemma fnv_mult_inject: "a * fnvPrime = b * fnvPrime \<longleftrightarrow> a = b"
proof
  assume "a * fnvPrime = b * fnvPrime"
  then have "a * (fnvPrime * fnvInverse) = b * (fnvPrime * fnvInverse)" by (simp only: mult.assoc[symmetric])
  then show "a = b" by (simp add: fnvPrime_inverse)
qed simp

lemma xor_right_inject: "xor a c = xor b c \<longleftrightarrow> a = b" for a :: uint64
proof
  assume "xor a c = xor b c"
  then have "xor (xor a c) c = xor (xor b c) c" by simp
  then show "a = b" by (simp only: xor.assoc xor_self_eq xor.right_neutral)
qed simp

lemma xor_left_inject: "xor c a = xor c b \<longleftrightarrow> a = b" for a :: uint64
  using xor_right_inject[of a c b] by (simp add: xor.commute)

lemma fnvStep_state [simp]: "fnvStep c h = fnvStep c h' \<longleftrightarrow> h = h'"
  by (simp add: fnvStep_def fnv_mult_inject xor_right_inject)

lemma of_char_word_inject: "(of_char c :: uint64) = of_char d \<longleftrightarrow> c = d"
proof
  assume "(of_char c :: uint64) = of_char d"
  then have "(of_nat (of_char c) :: uint64) = of_nat (of_char d)" unfolding of_nat_of_char .
  then have "take_bit 64 (of_char c :: nat) = take_bit 64 (of_char d)" by (simp only: word_of_nat_eq_iff) simp
  moreover have "(of_char x :: nat) < 2 ^ 64" for x
    using order.strict_trans[OF nat_of_char_less_256[of x]] by simp
  ultimately have "(of_char c :: nat) = of_char d" by (simp only: take_bit_nat_eq_self)
  then show "c = d" by simp
qed simp

lemma fnvStep_byte [simp]: "fnvStep c h = fnvStep d h \<longleftrightarrow> c = d"
  by (simp add: fnvStep_def fnv_mult_inject xor_left_inject of_char_word_inject)

lemma fnv_fold_state: "fold fnvStep s h = fold fnvStep s h' \<longleftrightarrow> h = h'"
  by (induction s arbitrary: h h') simp_all

lemma fnv64a_one_byte: "c \<noteq> d \<Longrightarrow> fnv64a (pre @ c # post) \<noteq> fnv64a (pre @ d # post)"
  by (simp add: fnv64a_def fnv_fold_state)


section \<open>What a tick is compared with\<close>

text \<open>The reference: a tick is compared with the last tick that saw the file, or saw that it is missing.\<close>

fun pollSpec :: "pollSample \<Rightarrow> fileState list \<Rightarrow> string option option list" where
  "pollSpec prev [] = []"
| "pollSpec prev (st # sts) =
     (case pollSnap st of
        Inl e \<Rightarrow> Some (Some e) # pollSpec prev sts
      | Inr cur \<Rightarrow> (if sampleEqual cur prev then None else Some None) # pollSpec cur sts)"

text \<open>A file whose content the watcher hashes; a sample that lacks no hash.\<close>

fun hashable :: "fileState \<Rightarrow> bool" where
  "hashable (File sz mtime content) = (sint sz \<le> sint hashCutoff \<and> content \<noteq> None)"
| "hashable st = True"

definition complete :: "pollSample \<Rightarrow> bool" where
  "complete s = (psExists s \<longrightarrow> psHashed s)"

lemma noSample_complete [simp]: "complete noSample"
  by (simp add: complete_def noSample_def)

lemma hashable_complete: "hashable st \<Longrightarrow> pollSnap st = Inr s \<Longrightarrow> complete s"
  by (cases st) (auto simp: pollSnap_def complete_def noSample_def Let_def split: if_splits option.splits)

lemma baseline_complete: "hashable st \<Longrightarrow> complete (pollBaseline st)"
  by (auto simp: pollBaseline_def hashable_complete split: sum.splits)

lemma sampleEqual_equivalence:
  assumes "complete s" and "complete t" and "complete u" and "sampleEqual t u"
  shows "sampleEqual s t \<longleftrightarrow> sampleEqual s u"
  using assms by (auto simp: sampleEqual_def complete_def split: if_splits)

lemma sampleEqual_sym: "sampleEqual s t \<longleftrightarrow> sampleEqual t s"
  by (auto simp: sampleEqual_def)

lemma sampleEqual_refl [simp]: "sampleEqual s s"
  by (simp add: sampleEqual_def)

lemma loop_spec:
  assumes "complete prev" and "complete prev'" and "sampleEqual prev prev'" and "list_all hashable sts"
  shows "fst (pollLoop prev sts) = pollSpec prev' sts"
  using assms
proof (induction sts arbitrary: prev prev')
  case (Cons st sts)
  show ?case
  proof (cases "pollSnap st")
    case (Inl e)
    with Cons.prems Cons.IH[of prev prev'] show ?thesis by (simp add: pollTick_def split_beta)
  next
    case (Inr cur)
    then have cur: "complete cur" using Cons.prems(4) hashable_complete[OF _ Inr] by simp
    have eq: "sampleEqual cur prev \<longleftrightarrow> sampleEqual cur prev'"
      by (rule sampleEqual_equivalence[OF cur Cons.prems(1-3)])
    have "fst (pollLoop (snd (pollTick prev st)) sts) = pollSpec cur sts"
      using Cons.IH[of prev cur] Cons.IH[of cur cur] Cons.prems cur Inr
      by (simp add: pollTick_def sampleEqual_sym)
    with Inr eq show ?thesis by (simp add: pollTick_def split_beta)
  qed
qed simp

lemma length_pollSpec: "length (pollSpec prev sts) = length sts"
  by (induction sts arbitrary: prev) (auto split: sum.splits)

lemma pollSpec_nonempty [simp]: "pollSpec prev (sts @ st # sts') \<noteq> []"
  using length_pollSpec[of prev "sts @ st # sts'"] by auto

lemma pollSpec_last:
  "pollSnap old = Inr s \<Longrightarrow> pollSnap new = Inr t
   \<Longrightarrow> last (pollSpec prev (sts @ [old, new])) = (if sampleEqual t s then None else Some None)"
  by (induction sts arbitrary: prev) (auto split: sum.splits)

text \<open>
  C32: As long as the files it sees are small enough to be hashed and can be read, the watcher compares
  every tick with the last one that did not fail: a failing tick reports its error and forgets nothing,
  any other reports a change exactly when existence, size, time or hash differ. A rewrite that changes
  one byte and keeps size and time is never missed.
\<close>

theorem poll_compares_with_last:
  assumes "hashable base" and "list_all hashable ticks"
  shows "(p \<noteq> [] \<longrightarrow> pollWatch p base ticks = Inr (pollSpec (pollBaseline base) ticks))
    \<and> (ticks = sts @ [File sz t (Some (pre @ c # post)), File sz t (Some (pre @ d # post))] \<and> c \<noteq> d
         \<longrightarrow> last (fst (pollLoop (pollBaseline base) ticks)) = Some None)"
proof (intro conjI impI; (elim conjE)?)
  have spec: "fst (pollLoop (pollBaseline base) ticks) = pollSpec (pollBaseline base) ticks"
    using loop_spec[OF _ _ sampleEqual_refl assms(2)] baseline_complete[OF assms(1)] by simp
  then show "p \<noteq> [] \<Longrightarrow> pollWatch p base ticks = Inr (pollSpec (pollBaseline base) ticks)"
    by (simp add: pollWatch_def)
  assume "ticks = sts @ [File sz t (Some (pre @ c # post)), File sz t (Some (pre @ d # post))]" "c \<noteq> d"
  moreover from this have "sint sz \<le> sint hashCutoff" using assms(2) by simp
  ultimately show "last (fst (pollLoop (pollBaseline base) ticks)) = Some None"
    unfolding spec
    by (simp add: pollSpec_last pollSnap_def sampleEqual_def noSample_def fnv64a_one_byte not_sym)
qed

lemma poll_compares_with_last_witness:
  "last (fst (pollLoop (pollBaseline Missing) [StatFails ''io'', File 1 (0, 0) (Some ''a''), File 1 (0, 0) (Some ''b'')]))
   = Some None"
proof -
  have "list_all hashable [StatFails ''io'', File 1 (0, 0) (Some ''a''), File 1 (0, 0) (Some ''b'')]"
    by (simp add: hashCutoff_def)
  from poll_compares_with_last[OF _ this, of Missing "''p''" "[StatFails ''io'']" 1 "(0, 0)" "[]" "CHR ''a''" "[]" "CHR ''b''"]
  show ?thesis by simp
qed

text \<open>
  Without the assumption a change can be missed: a first sample whose file could not be read keeps
  matching contents of the same size and time.
\<close>

lemma unread_sample_misses_change:
  "fst (pollLoop (pollBaseline (File 1 (0, 0) None)) [File 1 (0, 0) (Some ''a''), File 1 (0, 0) (Some ''b'')])
   = [None, None]"
  by (simp add: pollBaseline_def pollSnap_def pollTick_def sampleEqual_def noSample_def hashCutoff_def)

end
