(* ===== verification/GoUtf8.thy ===== *)
theory GoUtf8
  imports GoStrings
begin

text \<open>
  \<open>unicode/utf8\<close> on byte strings: the rune a text starts with and the number of its bytes. Bytes that
  start no rune give the replacement character with size 1, the empty text gives it with size 0.
\<close>

definition runeError :: nat where
  "runeError = 0xFFFD"

definition byteIn :: "nat \<Rightarrow> nat \<Rightarrow> char \<Rightarrow> bool" where
  "byteIn lo hi c = (lo \<le> of_char c \<and> of_char c \<le> hi)"

abbreviation "contByte \<equiv> byteIn 0x80 0xBF"

definition low6 :: "char \<Rightarrow> nat" where
  "low6 c = of_char c mod 64"

text \<open>The range of the second byte after a given first one of a sequence of three or four.\<close>

definition second3 :: "nat \<Rightarrow> char \<Rightarrow> bool" where
  "second3 b = (if b = 0xE0 then byteIn 0xA0 0xBF else if b = 0xED then byteIn 0x80 0x9F else contByte)"

definition second4 :: "nat \<Rightarrow> char \<Rightarrow> bool" where
  "second4 b = (if b = 0xF0 then byteIn 0x90 0xBF else if b = 0xF4 then byteIn 0x80 0x8F else contByte)"

fun decodeRune :: "string \<Rightarrow> nat \<times> nat" where
  "decodeRune [] = (runeError, 0)"
| "decodeRune (c # s) =
     (let b = of_char c
      in if b < 0x80 then (b, 1)
         else if b < 0xC2 then (runeError, 1)
         else if b < 0xE0 then
           (case s of c1 # _ \<Rightarrow> if contByte c1 then ((b mod 32) * 64 + low6 c1, 2) else (runeError, 1)
                    | [] \<Rightarrow> (runeError, 1))
         else if b < 0xF0 then
           (case s of c1 # c2 # _ \<Rightarrow>
               if second3 b c1 \<and> contByte c2 then ((b mod 16) * 4096 + low6 c1 * 64 + low6 c2, 3) else (runeError, 1)
                    | _ \<Rightarrow> (runeError, 1))
         else if b < 0xF5 then
           (case s of c1 # c2 # c3 # _ \<Rightarrow>
               if second4 b c1 \<and> contByte c2 \<and> contByte c3
               then ((b mod 8) * 262144 + low6 c1 * 4096 + low6 c2 * 64 + low6 c3, 4) else (runeError, 1)
                    | _ \<Rightarrow> (runeError, 1))
         else (runeError, 1))"

lemma decodeRune_size: "s \<noteq> [] \<Longrightarrow> 1 \<le> snd (decodeRune s) \<and> snd (decodeRune s) \<le> length s"
  by (cases s) (auto simp: Let_def split: list.splits)

lemma decodeRune_ascii: "of_char c < (0x80 :: nat) \<Longrightarrow> decodeRune (c # s) = (of_char c, 1)"
  by simp

text \<open>The length of the longest prefix made of whole runes, as the loops of the code find it.\<close>

function validPrefix :: "string \<Rightarrow> nat" where
  "validPrefix s =
     (if s = [] then 0
      else case decodeRune s of (r, w) \<Rightarrow>
             if r = runeError \<and> w \<le> 1 then 0 else w + validPrefix (drop w s))"
  by pat_completeness auto
termination
proof (relation "measure length")
  fix s :: string and r w
  assume "s \<noteq> []" "(r, w) = decodeRune s" "\<not> (r = runeError \<and> w \<le> 1)"
  with decodeRune_size[of s] have "1 \<le> w" "w \<le> length s" by (metis snd_conv)+
  then show "(drop w s, s) \<in> measure length" using \<open>s \<noteq> []\<close> by simp
qed simp

declare validPrefix.simps [simp del]

definition validUtf8 :: "string \<Rightarrow> bool" where
  "validUtf8 s = (validPrefix s = length s)"

lemma validPrefix_le: "validPrefix s \<le> length s"
proof (induction s rule: validPrefix.induct)
  case (1 s)
  show ?case
  proof (cases "s = []")
    case False
    obtain r w where d: "decodeRune s = (r, w)" by force
    have "w \<le> length s" using False decodeRune_size[of s] d by simp
    moreover have "validPrefix (drop w s) \<le> length (drop w s)" if "\<not> (r = runeError \<and> w \<le> 1)"
      using 1[OF False d[symmetric] that] .
    ultimately show ?thesis by (subst validPrefix.simps) (auto simp: d)
  qed (simp add: validPrefix.simps)
qed

lemma ascii_valid: "isASCII s \<Longrightarrow> validUtf8 s"
proof (induction s)
  case (Cons c s)
  then have "of_char c < (0x80 :: nat)" and "validUtf8 s" by (simp_all add: isASCII_def)
  moreover from this(1) have "of_char c \<noteq> runeError" by (simp add: runeError_def)
  ultimately show ?case by (simp add: validUtf8_def validPrefix.simps[of "c # s"])
qed (simp add: validUtf8_def validPrefix.simps)

end
