(* ===== verification/ScanInts.thy ===== *)
theory ScanInts
  imports GoUtf8 GoStrconv
begin

text \<open>
  \<open>scan_ints.go\<close>: the replacement of \<open>fmt.Sscanf\<close> for formats of literal text, spaces and \<open>%d\<close>. The
  result is whether the whole format matched, and the integers stored, which a failing scan leaves
  behind too. \<open>int\<close> has 64 bits.
\<close>

definition isScanSpace :: "nat \<Rightarrow> bool" where
  "isScanSpace r =
     (0x0009 \<le> r \<and> r \<le> 0x000d \<or> r = 0x0020 \<or> r = 0x0085 \<or> r = 0x00a0 \<or> r = 0x1680
      \<or> 0x2000 \<le> r \<and> r \<le> 0x200a \<or> r = 0x2028 \<or> r = 0x2029 \<or> r = 0x202f \<or> r = 0x205f \<or> r = 0x3000)"

definition newline :: nat where
  "newline = 10"

text \<open>The spaces other than a newline at the start of the input dropped.\<close>

function dropSpaces :: "string \<Rightarrow> string" where
  "dropSpaces s =
     (if s = [] then []
      else case decodeRune s of (r, w) \<Rightarrow>
             if \<not> isScanSpace r \<or> r = newline then s else dropSpaces (drop w s))"
  by pat_completeness auto
termination
proof (relation "measure length")
  fix s :: string and r w
  assume "s \<noteq> []" "(r, w) = decodeRune s"
  with decodeRune_size[of s] have "1 \<le> w" "w \<le> length s" by (metis snd_conv)+
  then show "(drop w s, s) \<in> measure length" using \<open>s \<noteq> []\<close> by simp
qed simp

declare dropSpaces.simps [simp del]

definition matchScanSpace :: "string \<Rightarrow> string option" where
  "matchScanSpace s =
     (if s = [] then Some []
      else case decodeRune s of (r, w) \<Rightarrow>
             if \<not> isScanSpace r \<or> r = newline then None else Some (dropSpaces (drop w s)))"

text \<open>\<open>skipScanSpace\<close>: a newline fails.\<close>

definition skipScanSpace :: "string \<Rightarrow> string option" where
  "skipScanSpace s =
     (let t = dropSpaces s in if t \<noteq> [] \<and> fst (decodeRune t) = newline then None else Some t)"

definition scanDecimal :: "string \<Rightarrow> (string \<times> int64) option" where
  "scanDecimal s =
     (case skipScanSpace s of
        None \<Rightarrow> None
      | Some t \<Rightarrow>
          if t = [] then None
          else let sign = (if hd t = CHR ''+'' \<or> hd t = CHR ''-'' then take 1 t else []);
                   digits = takeWhile isDigit (drop (length sign) t)
               in if digits = [] then None
                  else map_option (\<lambda>v. (drop (length sign + length digits) t, v)) (parseInt10 (sign @ digits)))"

text \<open>The loop over the format; the number of integers that fit is \<open>room\<close>.\<close>

fun scanLoop :: "nat \<Rightarrow> string \<Rightarrow> string \<Rightarrow> bool \<times> int64 list" where
  "scanLoop room inp [] = (room = 0, [])"
| "scanLoop room inp (c # fmt) =
     (if c = CHR '' '' then
        (case matchScanSpace inp of None \<Rightarrow> (False, []) | Some rest \<Rightarrow> scanLoop room rest fmt)
      else if c = CHR ''%'' then
        (case fmt of
           [] \<Rightarrow> (False, [])
         | d # fmt' \<Rightarrow>
             if d \<noteq> CHR ''d'' \<or> room = 0 then (False, [])
             else case scanDecimal inp of
                    None \<Rightarrow> (False, [])
                  | Some (rest, v) \<Rightarrow> map_prod id ((#) v) (scanLoop (room - 1) rest fmt'))
      else case decodeRune inp of (r, w) \<Rightarrow>
             if inp = [] \<or> r \<noteq> of_char c then (False, []) else scanLoop room (drop w inp) fmt)"

definition scanInts :: "string \<Rightarrow> string \<Rightarrow> nat \<Rightarrow> bool \<times> int64 list" where
  "scanInts inp fmt n = scanLoop n inp fmt"


section \<open>Reading back what was printed\<close>

text \<open>A message: literal text, single spaces and numbers; as a format and as the text it prints.\<close>

datatype scanPiece = Text char | Space | Num int64

fun pieceFormat :: "scanPiece \<Rightarrow> string" where
  "pieceFormat (Text c) = [c]"
| "pieceFormat Space = '' ''"
| "pieceFormat (Num i) = ''%d''"

fun pieceText :: "scanPiece \<Rightarrow> string" where
  "pieceText (Text c) = [c]"
| "pieceText Space = '' ''"
| "pieceText (Num i) = formatInt i"

fun pieceNums :: "scanPiece \<Rightarrow> int64 list" where
  "pieceNums (Num i) = [i]"
| "pieceNums p = []"

definition formatOf :: "scanPiece list \<Rightarrow> string" where
  "formatOf ps = concat (map pieceFormat ps)"

definition textOf :: "scanPiece list \<Rightarrow> string" where
  "textOf ps = concat (map pieceText ps)"

definition numsOf :: "scanPiece list \<Rightarrow> int64 list" where
  "numsOf ps = concat (map pieceNums ps)"

text \<open>Text is ASCII and neither a space, a percent sign nor a digit; a space or a number is followed by text.\<close>

definition plainText :: "char \<Rightarrow> bool" where
  "plainText c = ((of_char c :: nat) < 0x80 \<and> \<not> isScanSpace (of_char c) \<and> c \<noteq> CHR ''%'' \<and> \<not> isDigit c)"

fun messageOk :: "scanPiece list \<Rightarrow> bool" where
  "messageOk [] = True"
| "messageOk [p] = (case p of Text c \<Rightarrow> plainText c | _ \<Rightarrow> True)"
| "messageOk (p # q # ps) =
     ((case p of
         Text c \<Rightarrow> plainText c
       | Space \<Rightarrow> q \<noteq> Space
       | Num i \<Rightarrow> (case q of Num j \<Rightarrow> False | _ \<Rightarrow> True)) \<and> messageOk (q # ps))"

definition startsPlain :: "string \<Rightarrow> bool" where
  "startsPlain s = (s = [] \<or> (of_char (hd s) :: nat) < 0x80 \<and> \<not> isScanSpace (of_char (hd s)))"

definition endsNumber :: "string \<Rightarrow> bool" where
  "endsNumber s = (s = [] \<or> \<not> isDigit (hd s))"

lemma dropSpaces_plain: "startsPlain s \<Longrightarrow> dropSpaces s = s"
  by (subst dropSpaces.simps) (cases s; auto simp: startsPlain_def)

lemma match_space: "startsPlain s \<Longrightarrow> matchScanSpace (CHR '' '' # s) = Some s"
  by (simp add: matchScanSpace_def isScanSpace_def newline_def dropSpaces_plain)

lemma match_space_some: "matchScanSpace (CHR '' '' # s) = Some (dropSpaces s)"
  by (simp add: matchScanSpace_def isScanSpace_def newline_def)

lemma digit_plain: "isDigit c \<Longrightarrow> (of_char c :: nat) < 0x80 \<and> \<not> isScanSpace (of_char c)"
  by (auto simp: isDigit_iff isScanSpace_def)

lemma skip_plain: "startsPlain s \<Longrightarrow> skipScanSpace s = Some s"
  by (cases s) (auto simp: skipScanSpace_def dropSpaces_plain startsPlain_def isScanSpace_def newline_def)

lemma formatNat_Cons: obtains c t where "formatNat n = c # t" "isDigit c" "c \<noteq> CHR ''-''" "c \<noteq> CHR ''+''"
proof (cases "formatNat n")
  case (Cons c t)
  with formatNat_digits[of c n] formatNat_hd[OF Cons] show thesis by (intro that) auto
qed simp

lemma formatInt_plain: "startsPlain (formatInt i @ s)"
proof (cases "sint i < 0")
  case False
  obtain c t where "formatNat (nat (sint i)) = c # t" "isDigit c" by (rule formatNat_Cons)
  with False digit_plain show ?thesis by (simp add: formatInt_def startsPlain_def)
qed (simp add: formatInt_def startsPlain_def isScanSpace_def)

lemma takeWhile_digits: "endsNumber r \<Longrightarrow> takeWhile isDigit (formatNat n @ r) = formatNat n"
  using formatNat_digits by (cases r) (auto simp: endsNumber_def takeWhile_append)

lemma scanDecimal_formatInt:
  assumes "endsNumber r"
  shows "scanDecimal (formatInt i @ r) = Some (r, i)"
proof (cases "sint i < 0")
  case True
  have "parseInt10 (CHR ''-'' # formatNat (nat (- sint i))) = Some i"
    using parseInt10_formatInt[of i] True by (simp add: formatInt_def)
  with True show ?thesis
    by (simp add: scanDecimal_def skip_plain formatInt_plain formatInt_def[of i] startsPlain_def isScanSpace_def takeWhile_digits[OF assms])
next
  case False
  obtain c t where n: "formatNat (nat (sint i)) = c # t" "c \<noteq> CHR ''-''" "c \<noteq> CHR ''+''" by (rule formatNat_Cons)
  have "parseInt10 (formatNat (nat (sint i))) = Some i"
    using parseInt10_formatInt[of i] False by (simp add: formatInt_def)
  moreover have "hd (formatNat (nat (sint i)) @ r) \<noteq> CHR ''-''" "hd (formatNat (nat (sint i)) @ r) \<noteq> CHR ''+''"
    using n by simp_all
  moreover have "skipScanSpace (formatNat (nat (sint i)) @ r) = Some (formatNat (nat (sint i)) @ r)"
    using formatInt_plain[of i r] False by (simp add: skip_plain formatInt_def)
  ultimately show ?thesis
    using False by (simp add: scanDecimal_def formatInt_def takeWhile_digits[OF assms])
qed

lemma scan_text: "plainText c \<Longrightarrow> scanLoop n (c # s) (c # fmt) = scanLoop n s fmt"
  by (auto simp: plainText_def isScanSpace_def)

lemma scan_num: "endsNumber r \<Longrightarrow> scanLoop (Suc n) (formatInt i @ r) (CHR ''%'' # CHR ''d'' # fmt) = map_prod id ((#) i) (scanLoop n r fmt)"
  by (simp add: scanDecimal_formatInt)

lemma scan_space: "startsPlain s \<Longrightarrow> scanLoop n (CHR '' '' # s) (CHR '' '' # fmt) = scanLoop n s fmt"
  by (simp add: match_space)

lemma text_starts: "messageOk (q # ps) \<Longrightarrow> q \<noteq> Space \<Longrightarrow> startsPlain (textOf (q # ps) @ r)"
proof (cases q)
  case (Num i)
  then show "startsPlain (textOf (q # ps) @ r)" by (simp add: textOf_def formatInt_plain)
qed (cases ps; auto simp: textOf_def startsPlain_def plainText_def)+

lemma text_ends_number: "messageOk (q # ps) \<Longrightarrow> (\<And>j. q \<noteq> Num j) \<Longrightarrow> endsNumber (textOf (q # ps) @ r)"
  by (cases q; cases ps) (auto simp: textOf_def endsNumber_def plainText_def isDigit_iff)

lemma scan_message:
  assumes "messageOk ps" and "\<And>i. ps \<noteq> [] \<Longrightarrow> last ps = Num i \<Longrightarrow> endsNumber r"
  shows "scanLoop (length (numsOf ps)) (textOf ps @ r) (formatOf ps) = (True, numsOf ps)"
  using assms
proof (induction ps rule: messageOk.induct)
  case 1
  then show ?case by (simp add: textOf_def formatOf_def numsOf_def)
next
  case (2 p)
  then show ?case
    using scan_text[of _ 0 r "[]"] scan_num[of r 0 _ "[]"]
    by (cases p) (auto simp: textOf_def formatOf_def numsOf_def match_space_some)
next
  case (3 p q ps)
  let ?t = "textOf (q # ps) @ r" and ?f = "formatOf (q # ps)" and ?n = "length (numsOf (q # ps))"
  have ok: "messageOk (q # ps)" using "3.prems"(1) by simp
  have IH: "scanLoop ?n ?t ?f = (True, numsOf (q # ps))" using 3 by simp
  have split: "textOf (p # q # ps) @ r = pieceText p @ ?t" "formatOf (p # q # ps) = pieceFormat p @ ?f"
    "numsOf (p # q # ps) = pieceNums p @ numsOf (q # ps)"
    by (simp_all add: textOf_def formatOf_def numsOf_def)
  show ?case
  proof (cases p)
    case (Text c)
    with "3.prems"(1) IH show ?thesis unfolding split by (simp add: scan_text del: scanLoop.simps)
  next
    case Space
    with "3.prems"(1) have "startsPlain ?t" using text_starts[OF ok] by simp
    with Space IH show ?thesis unfolding split by (simp add: scan_space del: scanLoop.simps)
  next
    case (Num i)
    with "3.prems"(1) have "endsNumber ?t" by (intro text_ends_number[OF ok]) auto
    with Num IH show ?thesis unfolding split by (simp add: scan_num del: scanLoop.simps)
  qed
qed


section \<open>Property\<close>

text \<open>
  Scanning reads back what was printed. For a message of literal text, single spaces and integers,
  the format with \<open>%d\<close> in place of the integers matches the printed text, whatever follows it, and
  stores exactly the integers, over the whole range of \<open>int\<close>.
\<close>

theorem scanInts_reads_back:
  assumes "messageOk ps" and "\<And>i. ps \<noteq> [] \<Longrightarrow> last ps = Num i \<Longrightarrow> endsNumber r"
  shows "scanInts (textOf ps @ r) (formatOf ps) (length (numsOf ps)) = (True, numsOf ps)"
  using scan_message[OF assms] by (simp add: scanInts_def)

lemma scanInts_reads_back_witness:
  "scanInts ''line 12, x: rest'' ''line %d, x:'' 1 = (True, [12])"
proof -
  let ?ps = "map Text ''line'' @ [Space, Num 12, Text (CHR '',''), Space, Text (CHR ''x''), Text (CHR '':'')]"
  have "formatInt 12 = ''12''"
    by (simp add: formatInt_def formatNat.simps[of 12] formatNat.simps[of "Suc 0"] digitChar_def char_of_def bit_0)
  then have "textOf ?ps = ''line 12, x:''" "formatOf ?ps = ''line %d, x:''" "numsOf ?ps = [12]"
    by (simp_all add: textOf_def formatOf_def numsOf_def)
  moreover have "messageOk ?ps"
    by (simp add: plainText_def isScanSpace_def isDigit_def less_eq_char_def)
  ultimately show ?thesis using scanInts_reads_back[of ?ps "'' rest''"] by simp
qed

end
