(* ===== verification/Codec.thy ===== *)
theory Codec
  imports GoUtf8 MapSource
begin

text \<open>
  \<open>codec.go\<close>, \<open>format.go\<close>, \<open>codec_error.go\<close> and the positions of \<open>parse_position.go\<close>. A codec is its
  name, its extensions and what it decodes a document to. An error of a decoder is its text and, for
  each type of error the code looks for, the first one in its chain.
\<close>

section \<open>Positions\<close>

record decodeErr =
  deText :: string
  deInner :: "((int \<times> int) \<times> string) option"
  dePosition :: "(int \<times> int \<times> string) option"
  deParser :: "(int \<times> int \<times> string) option"
  deJSON :: "(int \<times> string) option"
  deJSONType :: "(int \<times> string) option"

record parseError =
  peSource :: string
  pePath :: string
  pePosition :: "int \<times> int"
  peCause :: decodeErr
  peMsg :: string

definition utf8BOM :: string where
  "utf8BOM = [CHR 0xEF, CHR 0xBB, CHR 0xBF]"

definition stripBOM :: "string \<Rightarrow> string" where
  "stripBOM data = trimPrefix data utf8BOM"

definition nl :: char where
  "nl = CHR 0x0A"

definition lastIndexByte :: "string \<Rightarrow> char \<Rightarrow> int" where
  "lastIndexByte s c = int (length (dropWhile (\<lambda>d. d \<noteq> c) (rev s))) - 1"

definition offsetPosition :: "string \<Rightarrow> int \<Rightarrow> int \<times> int" where
  "offsetPosition data offset =
     (let off = min (max offset 0) (int (length data));
          head = take (nat off) data
      in (int (count_list head nl) + 1, off - (lastIndexByte head nl + 1) + 1))"

text \<open>\<open>jsonSyntaxOffset\<close>: the offset of an error of \<open>encoding/json\<close> and its text.\<close>

definition jsonSyntaxOffset :: "int \<times> string \<Rightarrow> int" where
  "jsonSyntaxOffset e = (if snd e = ''unexpected end of JSON input'' then fst e else fst e - 1)"

text \<open>\<open>ParsePosition\<close> and \<open>ParseMessage\<close>: the types of error are looked for in this order.\<close>

definition ParsePosition :: "decodeErr \<Rightarrow> string \<Rightarrow> int \<times> int \<times> bool" where
  "ParsePosition e data =
     (let known = (\<lambda>(l, c, m). (l, c, l > 0));
          at = (\<lambda>off. case offsetPosition (stripBOM data) off of (l, c) \<Rightarrow> (l, c, True))
      in if case deInner e of Some (p, m) \<Rightarrow> fst p > 0 | None \<Rightarrow> False
         then (case deInner e of Some ((l, c), m) \<Rightarrow> (l, c, True) | None \<Rightarrow> (0, 0, False))
         else case dePosition e of Some p \<Rightarrow> known p
            | None \<Rightarrow> (case deParser e of Some p \<Rightarrow> known p
            | None \<Rightarrow> (case deJSON e of Some j \<Rightarrow> at (jsonSyntaxOffset j)
            | None \<Rightarrow> (case deJSONType e of Some j \<Rightarrow> at (fst j)
            | None \<Rightarrow> (0, 0, False)))))"

definition ParseMessage :: "decodeErr \<Rightarrow> string" where
  "ParseMessage e =
     (if case deInner e of Some (p, m) \<Rightarrow> m \<noteq> [] | None \<Rightarrow> False
      then (case deInner e of Some (p, m) \<Rightarrow> m | None \<Rightarrow> [])
      else case dePosition e of Some (l, c, m) \<Rightarrow> m
         | None \<Rightarrow> (case deParser e of Some (l, c, m) \<Rightarrow> m
         | None \<Rightarrow> (case deJSON e of Some j \<Rightarrow> snd j
         | None \<Rightarrow> (case deJSONType e of Some j \<Rightarrow> snd j
         | None \<Rightarrow> deText e))))"

definition newParseError :: "string \<Rightarrow> string \<Rightarrow> string \<Rightarrow> decodeErr \<Rightarrow> parseError" where
  "newParseError source path data e =
     \<lparr>peSource = source, pePath = path,
      pePosition = (case ParsePosition e data of (l, c, ok) \<Rightarrow> if ok then (l, c) else (0, 0)),
      peCause = e, peMsg = ParseMessage e\<rparr>"

definition newCodecParseError :: "string \<Rightarrow> string \<Rightarrow> string \<Rightarrow> decodeErr \<Rightarrow> parseError" where
  "newCodecParseError source path data e =
     \<lparr>peSource = source, pePath = path,
      pePosition =
        (if case deInner e of Some (p, m) \<Rightarrow> fst p > 0 | None \<Rightarrow> False
         then (case deInner e of Some (p, m) \<Rightarrow> p | None \<Rightarrow> (0, 0))
         else case dePosition e of Some (l, c, m) \<Rightarrow> if l > 0 then (l, c) else (0, 0) | None \<Rightarrow> (0, 0)),
      peCause = e,
      peMsg =
        (if case deInner e of Some (p, m) \<Rightarrow> m \<noteq> [] | None \<Rightarrow> False
         then (case deInner e of Some (p, m) \<Rightarrow> m | None \<Rightarrow> [])
         else case dePosition e of Some (l, c, m) \<Rightarrow> m | None \<Rightarrow> deText e)\<rparr>"

text \<open>\<open>stripPositionPrefix\<close>: the loops over digits are \<open>dropWhile\<close>.\<close>

definition decimalDigit :: "char \<Rightarrow> bool" where
  "decimalDigit c = (CHR ''0'' \<le> c \<and> c \<le> CHR ''9'')"

definition stripPositionPrefix :: "string \<Rightarrow> string \<Rightarrow> string" where
  "stripPositionPrefix text format =
     (let rest = trimPrefix text (format @ '': '')
      in case cutPrefix rest ''line '' of
           None \<Rightarrow> rest
         | Some after \<Rightarrow>
             if after = [] \<or> \<not> decimalDigit (hd after) then rest
             else let after1 = dropWhile decimalDigit after;
                      after2 = (case cutPrefix after1 '', column '' of
                                  Some tail \<Rightarrow> dropWhile decimalDigit tail | None \<Rightarrow> after1)
                  in case cutPrefix after2 '': '' of Some msg \<Rightarrow> msg | None \<Rightarrow> rest)"

text \<open>\<open>codecError\<close> through \<open>atPosition\<close>, and \<open>checkUTF8\<close>.\<close>

definition codecError :: "string \<Rightarrow> string \<Rightarrow> int \<times> int \<Rightarrow> string \<Rightarrow> decodeErr" where
  "codecError format text pos msg =
     \<lparr>deText = ''recon: '' @ format @ '' decode: '' @ text, deInner = None,
      dePosition = Some (fst pos, snd pos, msg), deParser = None, deJSON = None, deJSONType = None\<rparr>"

definition atPosition :: "string \<Rightarrow> string \<Rightarrow> int \<times> int \<Rightarrow> decodeErr" where
  "atPosition format text pos = codecError format text pos (stripPositionPrefix text format)"

definition invalidUTF8 :: string where
  "invalidUTF8 = ''invalid UTF-8 in input''"

definition checkUTF8 :: "string \<Rightarrow> string \<Rightarrow> decodeErr option" where
  "checkUTF8 format data =
     (if validUtf8 data then None
      else Some (codecError format invalidUTF8 (offsetPosition data (int (validPrefix data))) invalidUTF8))"


section \<open>Formats\<close>

definition extToFormat :: "string \<Rightarrow> string option" where
  "extToFormat ext =
     (if ext = ''.yaml'' \<or> ext = ''.yml'' then Some ''yaml''
      else if ext = ''.toml'' then Some ''toml''
      else if ext = ''.json'' then Some ''json''
      else if ext = ''.jsonc'' \<or> ext = ''.json5'' then Some ''jsonc''
      else if ext = ''.env'' then Some ''dotenv''
      else None)"

text \<open>\<open>filepath.Ext\<close>: from the last dot of the last element.\<close>

definition pathExt :: "string \<Rightarrow> string" where
  "pathExt p =
     (let base = takeWhile (\<lambda>c. c \<noteq> CHR ''/'') (rev p)
      in if CHR ''.'' \<in> set base then CHR ''.'' # rev (takeWhile (\<lambda>c. c \<noteq> CHR ''.'') base) else [])"

definition DetectFormat :: "string \<Rightarrow> string option" where
  "DetectFormat p = (let ext = toLower (pathExt p) in if ext = [] then None else extToFormat ext)"


section \<open>Sets of codecs\<close>

record fileCodec =
  fcName :: string
  fcExts :: "string list"
  fcDecode :: "string \<Rightarrow> decodeErr + goany gomap"
  fcFresh :: bool

record codecs =
  csByName :: "fileCodec gomap"
  csOrder :: "uint64 gomap"
  csNext :: uint64

definition csRegister :: "fileCodec option \<Rightarrow> codecs \<Rightarrow> codecs" where
  "csRegister codec c =
     (case codec of
        None \<Rightarrow> c
      | Some k \<Rightarrow> c\<lparr>csByName := mput (fcName k) k (csByName c), csNext := csNext c + 1,
                    csOrder := mput (fcName k) (csNext c + 1) (csOrder c)\<rparr>)"

definition NewCodecs :: "fileCodec option list \<Rightarrow> codecs" where
  "NewCodecs initial = fold csRegister initial \<lparr>csByName = [], csOrder = [], csNext = 0\<rparr>"

definition csUnregister :: "string \<Rightarrow> codecs \<Rightarrow> codecs" where
  "csUnregister name c = c\<lparr>csByName := mdel name (csByName c), csOrder := mdel name (csOrder c)\<rparr>"

definition ByName :: "codecs \<Rightarrow> string \<Rightarrow> fileCodec option" where
  "ByName c name = mget (csByName c) name"

definition orderOf :: "codecs \<Rightarrow> string \<Rightarrow> uint64" where
  "orderOf c name = (case mget (csOrder c) name of Some n \<Rightarrow> n | None \<Rightarrow> 0)"

definition bestStep ::
  "codecs \<Rightarrow> string \<Rightarrow> string \<times> fileCodec \<Rightarrow> (fileCodec \<times> uint64) option \<Rightarrow> (fileCodec \<times> uint64) option" where
  "bestStep c ext = (\<lambda>(name, k) best.
     if ext \<in> set (fcExts k) \<and> (case best of None \<Rightarrow> True | Some (b, n) \<Rightarrow> orderOf c name > n)
     then Some (k, orderOf c name) else best)"

definition ByExtension :: "codecs \<Rightarrow> string \<Rightarrow> fileCodec option" where
  "ByExtension c ext0 =
     (let ext = toLower ext0
      in case fold (bestStep c ext) (csByName c) None of
           Some (k, n) \<Rightarrow> Some k
         | None \<Rightarrow> (case extToFormat ext of Some name \<Rightarrow> ByName c name | None \<Rightarrow> None))"

definition csNames :: "codecs \<Rightarrow> string list" where
  "csNames c = mkeys (csByName c)"

definition csClone :: "codecs \<Rightarrow> codecs" where
  "csClone c = \<lparr>csByName = mcopy [] (csByName c), csOrder = mcopy [] (csOrder c), csNext = csNext c\<rparr>"

definition lookupCodec :: "codecs option \<Rightarrow> string \<Rightarrow> fileCodec option" where
  "lookupCodec cs format = (case cs of Some c \<Rightarrow> ByName c format | None \<Rightarrow> None)"


section \<open>A position names an offset\<close>

text \<open>The reference: cut the document into its lines and count.\<close>

definition lineOffset :: "string \<Rightarrow> nat \<Rightarrow> nat" where
  "lineOffset data n = sum_list (map (\<lambda>l. length l + 1) (take n (split data [nl])))"

lemma split_byte_join_lines:
  "split (h @ t) [d] = butlast (split h [d]) @ (last (split h [d]) @ hd (split t [d])) # tl (split t [d])"
proof (induction h)
  case Nil
  then show ?case by (cases "split t [d]") (use split_byte_nonempty[of t d] in auto)
next
  case (Cons c h)
  obtain l ls where h: "split h [d] = l # ls" using split_byte_nonempty[of h d] by (cases "split h [d]") auto
  show ?case using Cons by (cases ls) (auto simp: split_byte_Cons h)
qed

lemma length_split_byte: "length (split s [d]) = count_list s d + 1"
  by (induction s) (auto simp: split_byte_Cons split: list.splits)

lemma length_last_line: "length (last (split s [d])) = length (takeWhile (\<lambda>c. c \<noteq> d) (rev s))"
proof (induction s rule: rev_induct)
  case (snoc c s)
  show ?case
    by (subst split_byte_join_lines) (use snoc in \<open>simp add: split_byte_Cons\<close>)
qed simp

lemma lastIndexByte_last: "int (length s) - (lastIndexByte s d + 1) = int (length (last (split s [d])))"
proof -
  have "length s = length (takeWhile (\<lambda>c. c \<noteq> d) (rev s)) + length (dropWhile (\<lambda>c. c \<noteq> d) (rev s))"
    by (metis length_append length_rev takeWhile_dropWhile_id)
  then show ?thesis by (simp add: lastIndexByte_def length_last_line)
qed

lemma length_lines: "sum_list (map (\<lambda>l. length l + 1) (split s [d])) = length s + 1"
  by (induction s) (auto simp: split_byte_Cons split: list.splits)

lemma offsetPosition_lines:
  assumes "off \<le> length data"
  defines "h \<equiv> take off data"
  shows "offsetPosition data (int off) = (int (length (split h [nl])), int (length (last (split h [nl]))) + 1)"
  using assms(1) lastIndexByte_last[of h nl]
  by (simp add: offsetPosition_def h_def Let_def length_split_byte)

text \<open>
  C33: The line and column of an error name exactly the byte it is at. For every offset into a document the line exists,
  the column lies in it or just behind it, and counting lines and bytes from the start of the
  document leads back to the offset.
\<close>

theorem offsetPosition_exact:
  assumes "0 \<le> off" and "off \<le> int (length data)" and "offsetPosition data off = (line, col)"
  shows "1 \<le> line \<and> line \<le> int (length (split data [nl]))
    \<and> 1 \<le> col \<and> col \<le> int (length (split data [nl] ! nat (line - 1))) + 1
    \<and> int (lineOffset data (nat (line - 1))) + col - 1 = off"
proof (intro conjI)
  define h where "h = take (nat off) data"
  define t where "t = drop (nat off) data"
  have data: "data = h @ t" by (simp add: h_def t_def)
  have len: "length h = nat off" using assms(1,2) by (simp add: h_def)
  let ?L = "split h [nl]"
  have pos: "line = int (length ?L)" "col = int (length (last ?L)) + 1"
    using offsetPosition_lines[of "nat off" data] assms by (simp_all add: h_def)
  obtain n where n: "length ?L = Suc n" using length_split_byte by (metis Suc_eq_plus1)
  have lines: "split data [nl] = butlast ?L @ (last ?L @ hd (split t [nl])) # tl (split t [nl])"
    unfolding data by (rule split_byte_join_lines)
  have line: "split data [nl] ! n = last ?L @ hd (split t [nl])" "take n (split data [nl]) = butlast ?L"
    using n by (simp_all add: lines nth_append)
  have "nat (line - 1) = n" using pos n by simp
  moreover have "int (length h) = int (sum_list (map (\<lambda>l. length l + 1) (butlast ?L))) + int (length (last ?L))"
  proof -
    have "length h + 1 = sum_list (map (\<lambda>l. length l + 1) (butlast ?L @ [last ?L]))"
      using length_lines[of h nl] n by (metis append_butlast_last_id length_0_conv nat.distinct(1))
    then have "length h + 1 = sum_list (map (\<lambda>l. length l + 1) (butlast ?L)) + (length (last ?L) + 1)"
      unfolding map_append sum_list_append by simp
    then show ?thesis by simp
  qed
  ultimately show "int (lineOffset data (nat (line - 1))) + col - 1 = off"
    using pos len assms(1) by (simp add: lineOffset_def line)
  show "1 \<le> line" "1 \<le> col" using pos n by simp_all
  show "line \<le> int (length (split data [nl]))"
    using pos n length_split_byte[of t nl] by (simp add: lines)
  show "col \<le> int (length (split data [nl] ! nat (line - 1))) + 1"
    using pos n by (simp add: line)
qed

lemma offsetPosition_exact_witness: "int (lineOffset [nl, CHR ''a'', CHR ''b''] 1) + 2 - 1 = (2 :: int)"
proof -
  have "offsetPosition [nl, CHR ''a'', CHR ''b''] 2 = (2, 2)" by code_simp
  from offsetPosition_exact[OF _ _ this] show ?thesis by simp
qed


section \<open>A set of codecs is the list of its registrations\<close>

text \<open>The abstract set: the codecs in the order of their last registration, the latest at the end.\<close>

definition specRegister :: "fileCodec \<Rightarrow> fileCodec list \<Rightarrow> fileCodec list" where
  "specRegister k ks = filter (\<lambda>k'. fcName k' \<noteq> fcName k) ks @ [k]"

definition specByName :: "fileCodec list \<Rightarrow> string \<Rightarrow> fileCodec option" where
  "specByName ks name = List.find (\<lambda>k. fcName k = name) ks"

definition specByExtension :: "fileCodec list \<Rightarrow> string \<Rightarrow> fileCodec option" where
  "specByExtension ks ext0 =
     (let ext = toLower ext0
      in case List.find (\<lambda>k. ext \<in> set (fcExts k)) (rev ks) of
           Some k \<Rightarrow> Some k
         | None \<Rightarrow> (case extToFormat ext of Some name \<Rightarrow> specByName ks name | None \<Rightarrow> None))"

datatype codecOp = Register "fileCodec option" | Unregister string | Clone

fun codecStep :: "codecOp \<Rightarrow> codecs \<Rightarrow> codecs" where
  "codecStep (Register k) c = csRegister k c"
| "codecStep (Unregister name) c = csUnregister name c"
| "codecStep Clone c = csClone c"

fun specStep :: "codecOp \<Rightarrow> fileCodec list \<Rightarrow> fileCodec list" where
  "specStep (Register k) ks = (case k of None \<Rightarrow> ks | Some k \<Rightarrow> specRegister k ks)"
| "specStep (Unregister name) ks = filter (\<lambda>k. fcName k \<noteq> name) ks"
| "specStep Clone ks = ks"

text \<open>The simulation relation; \<open>n\<close> bounds the registrations so far.\<close>

definition codecsRel :: "nat \<Rightarrow> codecs \<Rightarrow> fileCodec list \<Rightarrow> bool" where
  "codecsRel n c ks \<longleftrightarrow>
     mwf (csByName c) \<and> mwf (csOrder c) \<and> unat (csNext c) \<le> n
     \<and> (\<forall>name k. mget (csByName c) name = Some k \<longleftrightarrow> k \<in> set ks \<and> fcName k = name)
     \<and> (\<forall>k \<in> set ks. orderOf c (fcName k) \<le> csNext c)
     \<and> sorted_wrt (\<lambda>j k. fcName j \<noteq> fcName k \<and> orderOf c (fcName j) < orderOf c (fcName k)) ks"

lemma unat_next:
  fixes w :: uint64
  assumes "unat w \<le> n" and "Suc n < 2 ^ 64"
  shows "unat (w + 1) = Suc (unat w)" and "w < w + 1"
proof -
  have "(1 + w :: uint64) \<noteq> 0"
  proof
    assume "1 + w = 0"
    then have "w = - 1" by (simp add: eq_neg_iff_add_eq_0 add.commute)
    with assms show False by (simp add: unsigned_minus_1_eq_mask mask_eq_exp_minus_1)
  qed
  then show suc: "unat (w + 1) = Suc (unat w)" using unatSuc[of w] by (simp add: add.commute)
  then show "w < w + 1" by (simp add: word_less_nat_alt)
qed

lemma orderOf_register: "orderOf (csRegister (Some k) c) name = (if name = fcName k then csNext c + 1 else orderOf c name)"
  by (simp add: orderOf_def csRegister_def mget_mput)

lemma csRegister_next: "csNext (csRegister (Some k) c) = csNext c + 1"
  by (simp add: csRegister_def)

lemma orderOf_unregister: "mwf (csOrder c) \<Longrightarrow> name \<noteq> n \<Longrightarrow> orderOf (csUnregister n c) name = orderOf c name"
  by (simp add: orderOf_def csUnregister_def mget_mdel)

lemma codecsRel_register:
  assumes rel: "codecsRel n c ks" and "Suc n < 2 ^ 64"
  shows "codecsRel (Suc n) (csRegister (Some k) c) (specRegister k ks)"
proof -
  note rel = rel[unfolded codecsRel_def]
  note next1 = unat_next[of "csNext c" n, OF _ assms(2)]
  have up: "orderOf c (fcName j) < csNext c + 1" if "j \<in> set ks" for j
    using rel that next1(2) by force
  let ?R = "\<lambda>c j k. fcName j \<noteq> fcName k \<and> orderOf c (fcName j) < orderOf c (fcName k)"
  have "sorted_wrt (?R c) (filter (\<lambda>j. fcName j \<noteq> fcName k) ks)"
    using rel by (intro sorted_wrt_filter) simp
  then have "sorted_wrt (?R (csRegister (Some k) c)) (filter (\<lambda>j. fcName j \<noteq> fcName k) ks)"
    by (rule sorted_wrt_mono_rel[rotated]) (auto simp: orderOf_register)
  then have sorted: "sorted_wrt (?R (csRegister (Some k) c)) (specRegister k ks)"
    using up by (auto simp: specRegister_def sorted_wrt_append orderOf_register)
  have "unat (csNext (csRegister (Some k) c)) \<le> Suc n" using rel next1(1) by (simp add: csRegister_def)
  moreover have "\<forall>j \<in> set (specRegister k ks). orderOf (csRegister (Some k) c) (fcName j) \<le> csNext (csRegister (Some k) c)"
    using up by (auto simp: specRegister_def orderOf_register csRegister_next less_imp_le)
  moreover have "mget (csByName (csRegister (Some k) c)) name = Some k'
      \<longleftrightarrow> k' \<in> set (specRegister k ks) \<and> fcName k' = name" for name k'
    using rel by (auto simp: csRegister_def specRegister_def mget_mput)
  ultimately show ?thesis using rel sorted by (simp add: codecsRel_def csRegister_def)
qed

lemma codecsRel_unregister:
  assumes rel: "codecsRel n c ks"
  shows "codecsRel n (csUnregister name c) (filter (\<lambda>k. fcName k \<noteq> name) ks)"
proof -
  note rel = rel[unfolded codecsRel_def]
  let ?R = "\<lambda>c j k. fcName j \<noteq> fcName k \<and> orderOf c (fcName j) < orderOf c (fcName k)"
  have "sorted_wrt (?R c) (filter (\<lambda>k. fcName k \<noteq> name) ks)"
    using rel by (intro sorted_wrt_filter) simp
  then have "sorted_wrt (?R (csUnregister name c)) (filter (\<lambda>k. fcName k \<noteq> name) ks)"
    by (rule sorted_wrt_mono_rel[rotated]) (use rel in \<open>auto simp: orderOf_unregister\<close>)
  moreover have "\<forall>k \<in> set (filter (\<lambda>k. fcName k \<noteq> name) ks).
      orderOf (csUnregister name c) (fcName k) \<le> csNext (csUnregister name c)"
    using rel by (auto simp: orderOf_unregister csUnregister_def[THEN arg_cong, of csNext])
  ultimately show ?thesis
    using rel by (auto simp: codecsRel_def csUnregister_def mget_mdel)
qed

lemma csClone_same: "codecsRel n c ks \<Longrightarrow> csClone c = c"
proof -
  assume "codecsRel n c ks"
  then have "mwf (csByName c)" "mwf (csOrder c)" by (simp_all add: codecsRel_def)
  then have "mcopy [] (csByName c) = csByName c" "mcopy [] (csOrder c) = csOrder c"
    by (auto intro!: mwf_ext simp: mget_mcopy split: option.splits)
  then show ?thesis by (simp add: csClone_def)
qed

lemma codecs_run:
  "length ops < 2 ^ 64 \<Longrightarrow> codecsRel (length ops) (fold codecStep ops (NewCodecs [])) (fold specStep ops [])"
proof (induction ops rule: rev_induct)
  case Nil
  then show ?case by (simp add: codecsRel_def NewCodecs_def)
next
  case (snoc op ops)
  then have rel: "codecsRel (length ops) (fold codecStep ops (NewCodecs [])) (fold specStep ops [])" by simp
  then have weak: "codecsRel (Suc (length ops)) (fold codecStep ops (NewCodecs [])) (fold specStep ops [])"
    by (simp add: codecsRel_def)
  show ?case
  proof (cases op)
    case (Register k)
    with weak codecsRel_register[OF rel] snoc.prems show ?thesis by (cases k) (simp_all add: csRegister_def[of None])
  qed (use weak codecsRel_unregister csClone_same in auto)
qed

lemma best_fold:
  fixes m :: "(string \<times> fileCodec) list"
  shows "fold (bestStep c ext) m b = None \<Longrightarrow> b = None \<and> (\<forall>(name, k) \<in> set m. ext \<notin> set (fcExts k))"
    and "fold (bestStep c ext) m b = Some (k, n) \<Longrightarrow>
      (b = Some (k, n) \<or> (\<exists>name. (name, k) \<in> set m \<and> ext \<in> set (fcExts k) \<and> n = orderOf c name))
      \<and> (\<forall>(name, j) \<in> set m. ext \<in> set (fcExts j) \<longrightarrow> orderOf c name \<le> n)
      \<and> (\<forall>j l. b = Some (j, l) \<longrightarrow> l \<le> n)"
proof (induction m arbitrary: b)
  case (Cons e m)
  { case 1
    with Cons.IH(1)[of "bestStep c ext e b"] show ?case
      by (auto simp: bestStep_def split: if_splits option.splits prod.splits) }
  { case 2
    obtain name j where e: "e = (name, j)" by force
    from 2 have run: "fold (bestStep c ext) m (bestStep c ext e b) = Some (k, n)" by simp
    note IH = Cons.IH(2)[OF run]
    show ?case
    proof (cases "ext \<in> set (fcExts j) \<and> (case b of None \<Rightarrow> True | Some (i, l) \<Rightarrow> orderOf c name > l)")
      case True
      then have step: "bestStep c ext e b = Some (j, orderOf c name)" by (simp add: bestStep_def e)
      from IH[unfolded step] have "orderOf c name \<le> n" by blast
      then have "l \<le> n" if "b = Some (i, l)" for i l using True that by (auto intro: order.trans[OF less_imp_le])
      with IH[unfolded step] True show ?thesis unfolding e by auto
    next
      case False
      then have step: "bestStep c ext e b = b" by (auto simp: bestStep_def e)
      have "orderOf c name \<le> n" if claims: "ext \<in> set (fcExts j)"
      proof -
        from False claims obtain i l where "b = Some (i, l)" "orderOf c name \<le> l" by (auto split: option.splits)
        moreover from this IH[unfolded step] have "l \<le> n" by blast
        ultimately show ?thesis by (blast intro: order.trans)
      qed
      with IH[unfolded step] show ?thesis unfolding e by auto
    qed }
qed auto

lemma find_split: "List.find P xs = Some x \<Longrightarrow> \<exists>ys zs. xs = ys @ x # zs \<and> P x \<and> (\<forall>y \<in> set ys. \<not> P y)"
proof (induction xs)
  case (Cons a xs)
  show ?case
  proof (cases "P a")
    case True
    with Cons.prems show ?thesis by (intro exI[of _ "[]"] exI[of _ xs]) auto
  next
    case False
    with Cons obtain ys zs where "xs = ys @ x # zs" "P x" "\<forall>y \<in> set ys. \<not> P y" by auto
    with False show ?thesis by (intro exI[of _ "a # ys"] exI[of _ zs]) auto
  qed
qed simp

lemma ByName_spec:
  assumes "codecsRel n c ks"
  shows "ByName c name = specByName ks name"
proof (cases "specByName ks name")
  case None
  then have "k \<in> set ks \<Longrightarrow> fcName k \<noteq> name" for k by (auto simp: specByName_def find_None_iff)
  with assms have "mget (csByName c) name \<noteq> Some k" for k by (auto simp: codecsRel_def)
  with None show ?thesis by (cases "mget (csByName c) name") (auto simp: ByName_def)
next
  case (Some k)
  then have "k \<in> set ks" "fcName k = name" by (auto simp: specByName_def find_Some_iff)
  with assms Some show ?thesis by (simp add: codecsRel_def ByName_def)
qed

lemma ByExtension_spec:
  assumes rel: "codecsRel n c ks"
  shows "ByExtension c ext0 = specByExtension ks ext0"
proof -
  note R = rel[unfolded codecsRel_def]
  define x where "x = toLower ext0"
  have entries: "(name, k) \<in> set (csByName c) \<longleftrightarrow> k \<in> set ks \<and> fcName k = name" for name k
    using R mwf_mget_iff by metis
  show ?thesis
  proof (cases "fold (bestStep c x) (csByName c) None")
    case None
    from best_fold(1)[OF None] entries have "List.find (\<lambda>k. x \<in> set (fcExts k)) (rev ks) = None"
      by (auto simp: find_None_iff)
    moreover have "ByName c = specByName ks" using ByName_spec[OF rel] by (rule ext)
    ultimately show ?thesis using None by (simp add: ByExtension_def specByExtension_def x_def cong: option.case_cong)
  next
    case (Some kn)
    obtain k m where kn: "kn = (k, m)" by force
    note best = best_fold(2)[OF Some[unfolded kn]]
    from best entries have k: "k \<in> set ks" "x \<in> set (fcExts k)" "m = orderOf c (fcName k)" by auto
    have max: "orderOf c (fcName j) \<le> m" if "j \<in> set ks" "x \<in> set (fcExts j)" for j
      using best that entries[of "fcName j" j] by (auto dest!: bspec[of _ _ "(fcName j, j)"])
    from k
    obtain l where l: "List.find (\<lambda>k. x \<in> set (fcExts k)) (rev ks) = Some l"
      by (cases "List.find (\<lambda>k. x \<in> set (fcExts k)) (rev ks)") (auto simp: find_None_iff)
    from find_split[OF l] obtain ys zs where ys: "rev ks = ys @ l # zs" "x \<in> set (fcExts l)"
      "\<forall>y \<in> set ys. x \<notin> set (fcExts y)" by blast
    then have ks: "ks = rev zs @ l # rev ys" by (metis append_assoc rev_append rev_rev_ident rev.simps(2) append_Cons append_Nil)
    have "k = l"
    proof (rule ccontr)
      assume "k \<noteq> l"
      with k ys ks have "k \<in> set zs" by auto
      then have "orderOf c (fcName k) < orderOf c (fcName l)" using R ks by (auto simp: sorted_wrt_append)
      moreover have "orderOf c (fcName l) \<le> m" using max[of l] ys(2) ks by simp
      ultimately show False using k(3) by simp
    qed
    with Some kn l show ?thesis by (simp add: ByExtension_def specByExtension_def x_def)
  qed
qed

text \<open>
  C22: Through any sequence of fewer than 2^64 registrations, removals and copies a set of codecs
  behaves like the list of its codecs in the order of their last registration: a name finds the codec
  registered under it last and not removed since, an extension the codec that claims it and was
  registered last, or else the codec of the format the extension stands for.
\<close>

theorem codecs_refine_list:
  assumes "length ops < 2 ^ 64"
  shows "ByExtension (fold codecStep ops (NewCodecs [])) ext = specByExtension (fold specStep ops []) ext
    \<and> ByName (fold codecStep ops (NewCodecs [])) name = specByName (fold specStep ops []) name"
  using ByExtension_spec[OF codecs_run[OF assms]] ByName_spec[OF codecs_run[OF assms]] by blast

definition demoCodec :: "string \<Rightarrow> fileCodec" where
  "demoCodec name = \<lparr>fcName = name, fcExts = [''.yaml''], fcDecode = (\<lambda>_. Inr []), fcFresh = False\<rparr>"

lemma codecs_refine_list_witness:
  "ByExtension (fold codecStep [Register (Some (demoCodec ''a'')), Register (Some (demoCodec ''b'')), Clone,
     Register (Some (demoCodec ''a''))] (NewCodecs [])) ''.YAML'' = Some (demoCodec ''a'')"
proof -
  let ?ops = "[Register (Some (demoCodec ''a'')), Register (Some (demoCodec ''b'')), Clone, Register (Some (demoCodec ''a''))]"
  have "specByExtension (fold specStep ?ops []) ''.YAML'' = Some (demoCodec ''a'')"
    by (simp add: specByExtension_def specRegister_def demoCodec_def toLower_def lowerByte_def less_eq_char_def char_of_def bit_0)
  then show ?thesis using codecs_refine_list[of ?ops "''.YAML''"] by simp
qed

end
