(* ===== verification/GoPath.thy ===== *)
theory GoPath
  imports GoStrings
begin

text \<open>\<open>path/filepath\<close> on a system whose separator is the slash.\<close>

definition slash :: char where
  "slash = CHR ''/''"

text \<open>\<open>Clean\<close>: the elements kept so far, in reverse.\<close>

fun cleanStep :: "bool \<Rightarrow> string list \<Rightarrow> string \<Rightarrow> string list" where
  "cleanStep rooted out seg =
     (if seg = [] \<or> seg = ''.'' then out
      else if seg = ''..'' then
        (case out of
           [] \<Rightarrow> if rooted then [] else [seg]
         | prev # out' \<Rightarrow> if prev = ''..'' then seg # out else out')
      else seg # out)"

definition cleanSegs :: "bool \<Rightarrow> string \<Rightarrow> string list" where
  "cleanSegs rooted p = rev (foldl (cleanStep rooted) [] (split p [slash]))"

definition pathClean :: "string \<Rightarrow> string" where
  "pathClean p =
     (let rooted = hasPrefix p [slash];
          out = (if rooted then [slash] else []) @ join (cleanSegs rooted p) [slash]
      in if out = [] then ''.'' else out)"

definition pathJoin :: "string \<Rightarrow> string \<Rightarrow> string" where
  "pathJoin a b =
     (if a = [] \<and> b = [] then []
      else if a = [] then pathClean b
      else if b = [] then pathClean a
      else pathClean (a @ slash # b))"

definition pathBase :: "string \<Rightarrow> string" where
  "pathBase p =
     (if p = [] then ''.''
      else let q = rev (dropWhile (\<lambda>c. c = slash) (rev p));
               base = rev (takeWhile (\<lambda>c. c \<noteq> slash) (rev q))
           in if base = [] then [slash] else base)"

definition isAbs :: "string \<Rightarrow> bool" where
  "isAbs p = hasPrefix p [slash]"

text \<open>\<open>Abs\<close>, with the answer of \<open>os.Getwd\<close>.\<close>

definition pathAbs :: "string + string \<Rightarrow> string \<Rightarrow> string + string" where
  "pathAbs wd p =
     (if isAbs p then Inr (pathClean p)
      else case wd of Inl e \<Rightarrow> Inl e | Inr dir \<Rightarrow> Inr (pathJoin dir p))"

end
