(* ===== verification/FileSource.thy ===== *)
theory FileSource
  imports Codec ShellPath GoPath
begin

text \<open>
  \<open>source_file.go\<close>, \<open>read_file.go\<close>, \<open>source_filefs.go\<close>, \<open>source_buffer.go\<close>, \<open>source_stdin.go\<close> and the file
  options of \<open>options_source.go\<close>: the sources read through a codec. What the file system answers is a
  parameter of each operation: what opening the file gives, and what \<open>os.Stat\<close> says. The locks make
  each operation one step.
\<close>

section \<open>Reading files\<close>

definition MaxFileSize :: int where
  "MaxFileSize = 100 * 2 ^ 20"

record fileStamp =
  stExists :: bool
  stSize :: int64
  stMod :: gotime

definition noStamp :: fileStamp where
  "noStamp = \<lparr>stExists = False, stSize = 0, stMod = (0, 0)\<rparr>"

text \<open>
  Opening a path: it does not exist, fails, or gives a file with what \<open>Stat\<close> says of it (whether it
  is regular, its size and time) and the outcome of reading it.
\<close>

datatype openFile =
    NotExist
  | OpenFails string
  | Opened "(bool \<times> int64 \<times> gotime) option" "string + string"

datatype readErr = ReadNotExist | ReadTooLarge | ReadFails string

definition readAllCapped :: "string + string \<Rightarrow> readErr + string" where
  "readAllCapped content =
     (case content of
        Inl e \<Rightarrow> Inl (ReadFails e)
      | Inr data \<Rightarrow> if int (length data) > MaxFileSize then Inl ReadTooLarge else Inr data)"

definition readFileStamped :: "openFile \<Rightarrow> (readErr + string) \<times> fileStamp" where
  "readFileStamped f =
     (case f of
        NotExist \<Rightarrow> (Inl ReadNotExist, noStamp)
      | OpenFails e \<Rightarrow> (Inl (ReadFails e), noStamp)
      | Opened info content \<Rightarrow>
          (let stamp = (case info of Some (regular, sz, t) \<Rightarrow> \<lparr>stExists = True, stSize = sz, stMod = t\<rparr> | None \<Rightarrow> noStamp)
           in if case info of Some (regular, sz, t) \<Rightarrow> regular \<and> sint sz > MaxFileSize | None \<Rightarrow> False
              then (Inl ReadTooLarge, stamp)
              else (readAllCapped content, stamp)))"

definition readFileCapped :: "openFile \<Rightarrow> readErr + string" where
  "readFileCapped f = fst (readFileStamped f)"

text \<open>\<open>readFSFileCapped\<close>, for a file of an \<open>fs.FS\<close>.\<close>

definition readFSFileCapped :: "openFile \<Rightarrow> readErr + string" where
  "readFSFileCapped f =
     (case f of
        NotExist \<Rightarrow> Inl ReadNotExist
      | OpenFails e \<Rightarrow> Inl (ReadFails e)
      | Opened info content \<Rightarrow>
          if case info of Some (regular, sz, t) \<Rightarrow> regular \<and> sint sz > MaxFileSize | None \<Rightarrow> False
          then Inl ReadTooLarge else readAllCapped content)"

datatype fileError =
    FeInvalid string
  | FeExpand string shellError
  | FeResolve string string
  | FeUnsupported string
  | FeNotExist string
  | FeRead string readErr
  | FeParse parseError
  | FeWatch string

text \<open>The bytes, the stamp and whether the file was missing.\<close>

definition readFileMaybeOptional :: "string \<Rightarrow> bool \<Rightarrow> openFile \<Rightarrow> fileError + string \<times> fileStamp \<times> bool" where
  "readFileMaybeOptional p optional f =
     (case readFileStamped f of
        (Inl ReadNotExist, stamp) \<Rightarrow> if optional then Inr ([], noStamp, True) else Inl (FeNotExist p)
      | (Inl e, stamp) \<Rightarrow> Inl (FeRead p e)
      | (Inr b, stamp) \<Rightarrow> Inr (b, stamp, False))"

definition readFSMaybeOptional :: "string \<Rightarrow> bool \<Rightarrow> (string \<Rightarrow> openFile) \<Rightarrow> fileError + string \<times> bool" where
  "readFSMaybeOptional p optional fs =
     (let clean = trimPrefix p [slash]
      in case readFSFileCapped (fs clean) of
           Inl e \<Rightarrow> if optional \<and> e = ReadNotExist then Inr ([], True) else Inl (FeRead clean e)
         | Inr b \<Rightarrow> Inr (b, False))"


section \<open>Options\<close>

type_synonym watcherFactory = "string \<Rightarrow> string option"

record fileOptions =
  foCodec :: "fileCodec option"
  foWatcher :: "watcherFactory option"
  foSearchPaths :: "string list"
  foFormat :: string
  foPathExpansion :: bool
  foOptional :: bool
  foName :: string
  foEnvKeys :: bool
  foEnvPrefix :: string
  foPathExpansionSet :: bool

type_synonym fileOption = "fileOptions \<Rightarrow> fileOptions"

definition defaultFileOptions :: fileOptions where
  "defaultFileOptions =
     \<lparr>foCodec = None, foWatcher = None, foSearchPaths = [], foFormat = [], foPathExpansion = True,
      foOptional = False, foName = [], foEnvKeys = False, foEnvPrefix = [], foPathExpansionSet = False\<rparr>"

definition WithFileCodec :: "fileCodec option \<Rightarrow> fileOption" where
  "WithFileCodec c o1 = o1\<lparr>foCodec := c\<rparr>"

definition WithFileWatcher :: "watcherFactory option \<Rightarrow> fileOption" where
  "WithFileWatcher w o1 = o1\<lparr>foWatcher := w\<rparr>"

definition WithSearchPaths :: "string list \<Rightarrow> fileOption" where
  "WithSearchPaths dirs o1 = o1\<lparr>foSearchPaths := foSearchPaths o1 @ dirs\<rparr>"

definition WithPathExpansion :: "bool \<Rightarrow> fileOption" where
  "WithPathExpansion enabled o1 = o1\<lparr>foPathExpansion := enabled, foPathExpansionSet := True\<rparr>"

definition WithOptional :: "bool \<Rightarrow> fileOption" where
  "WithOptional optional o1 = o1\<lparr>foOptional := optional\<rparr>"

definition WithFileFormat :: "string \<Rightarrow> fileOption" where
  "WithFileFormat name o1 = o1\<lparr>foFormat := name\<rparr>"

definition WithFileName :: "string \<Rightarrow> fileOption" where
  "WithFileName name o1 = o1\<lparr>foName := name\<rparr>"

definition WithFileEnvKeys :: "string \<Rightarrow> fileOption" where
  "WithFileEnvKeys prefix o1 = o1\<lparr>foEnvKeys := True, foEnvPrefix := prefix\<rparr>"

definition applyFileOptions :: "fileOption list \<Rightarrow> fileOptions" where
  "applyFileOptions opts = fold (\<lambda>opt cfg. opt cfg) opts defaultFileOptions"

definition envKeysOf :: "fileOptions \<Rightarrow> string option" where
  "envKeysOf cfg = (if foEnvKeys cfg then Some (foEnvPrefix cfg) else None)"


section \<open>Paths and codecs\<close>

record fileEnv =
  feShell :: shellEnv
  feWd :: "string + string"
  feMissing :: "string \<Rightarrow> bool"
  feOpen :: "string \<Rightarrow> openFile"

definition expandPath :: "fileEnv \<Rightarrow> string \<Rightarrow> bool \<Rightarrow> fileError + string" where
  "expandPath fe p enabled =
     (if \<not> enabled then Inr p
      else case expandShellPath (feShell fe) p of Inl e \<Rightarrow> Inl (FeExpand p e) | Inr out \<Rightarrow> Inr out)"

definition absPath :: "fileEnv \<Rightarrow> string \<Rightarrow> fileError + string" where
  "absPath fe p = (case pathAbs (feWd fe) p of Inl e \<Rightarrow> Inl (FeResolve p e) | Inr q \<Rightarrow> Inr q)"

definition expandAndAbs :: "fileEnv \<Rightarrow> string \<Rightarrow> bool \<Rightarrow> fileError + string" where
  "expandAndAbs fe p expand =
     (case expandPath fe p expand of Inl e \<Rightarrow> Inl e | Inr expanded \<Rightarrow> absPath fe expanded)"

fun searchLoop :: "fileEnv \<Rightarrow> bool \<Rightarrow> string \<Rightarrow> string list \<Rightarrow> string \<Rightarrow> fileError + string" where
  "searchLoop fe expand base [] firstResolved = Inr firstResolved"
| "searchLoop fe expand base (dir # dirs) firstResolved =
     (case expandPath fe dir expand of
        Inl e \<Rightarrow> Inl e
      | Inr expandedDir \<Rightarrow>
          (case absPath fe (pathJoin expandedDir base) of
             Inl e \<Rightarrow> Inl e
           | Inr p \<Rightarrow>
               if \<not> feMissing fe p then Inr p
               else searchLoop fe expand base dirs (if firstResolved = [] then p else firstResolved)))"

definition resolveFilePath :: "fileEnv \<Rightarrow> string \<Rightarrow> fileOptions \<Rightarrow> fileError + string" where
  "resolveFilePath fe p cfg =
     (let expand = (if foPathExpansionSet cfg then foPathExpansion cfg else True)
      in if foSearchPaths cfg = [] then expandAndAbs fe p expand
         else searchLoop fe expand (pathBase p) (foSearchPaths cfg) [])"

definition resolveFileCodec :: "string \<Rightarrow> fileOptions \<Rightarrow> codecs option \<Rightarrow> fileError + fileCodec" where
  "resolveFileCodec p cfg cs =
     (case foCodec cfg of
        Some c \<Rightarrow> Inr c
      | None \<Rightarrow>
          (let cs = (case cs of Some cs \<Rightarrow> cs | None \<Rightarrow> NewCodecs [])
           in if foFormat cfg \<noteq> []
              then (case ByName cs (foFormat cfg) of Some c \<Rightarrow> Inr c | None \<Rightarrow> Inl (FeUnsupported (foFormat cfg)))
              else let ext = toLower (pathExt p)
                   in case ByExtension cs ext of Some c \<Rightarrow> Inr c | None \<Rightarrow> Inl (FeUnsupported ext)))"


section \<open>\<open>FileSource\<close>\<close>

type_synonym parseErrorFunc = "string \<Rightarrow> string \<Rightarrow> string \<Rightarrow> decodeErr \<Rightarrow> parseError"

record fileSource =
  fsMap :: mapSource
  fsResolved :: string
  fsCodec :: fileCodec
  fsOptional :: bool
  fsWatcher :: "watcherFactory option"
  fsMissing :: bool
  fsParseErr :: parseErrorFunc
  fsStamp :: fileStamp
  fsDecoded :: bool

definition newFileSource ::
  "codecs option \<Rightarrow> parseErrorFunc \<Rightarrow> fileEnv \<Rightarrow> string \<Rightarrow> fileOption list \<Rightarrow> fileError + fileSource" where
  "newFileSource cs parseErr fe p opts =
     (let cfg = applyFileOptions opts
      in case resolveFilePath fe p cfg of
           Inl e \<Rightarrow> Inl e
         | Inr resolved \<Rightarrow>
             (case resolveFileCodec resolved cfg cs of
                Inl e \<Rightarrow> Inl e
              | Inr codec \<Rightarrow>
                  (let name = (if foName cfg = [] then pathBase resolved else foName cfg)
                   in case readFileMaybeOptional resolved (foOptional cfg) (feOpen fe resolved) of
                        Inl e \<Rightarrow> Inl e
                      | Inr (raw, stamp, missing) \<Rightarrow>
                          (let data = stripBOM raw
                           in case (if \<not> missing \<and> data \<noteq> [] then fcDecode codec data else Inr []) of
                                Inl e \<Rightarrow> Inl (FeParse (parseErr name resolved data e))
                              | Inr decoded \<Rightarrow>
                                  Inr \<lparr>fsMap = newFileMapSource name decoded (fcFresh codec) (envKeysOf cfg),
                                       fsResolved = resolved, fsCodec = codec, fsOptional = foOptional cfg,
                                       fsWatcher = foWatcher cfg, fsMissing = missing, fsParseErr = parseErr,
                                       fsStamp = stamp, fsDecoded = (\<not> missing \<and> data \<noteq> [])\<rparr>))))"

definition Document :: "fileSource \<Rightarrow> goany gomap option" where
  "Document s = (if fsDecoded s then Some (deepCopyMap (msData (fsMap s))) else None)"

definition fileReload :: "openFile \<Rightarrow> fileSource \<Rightarrow> fileError option \<times> fileSource" where
  "fileReload f s =
     (case readFileMaybeOptional (fsResolved s) (fsOptional s) f of
        Inl e \<Rightarrow> (Some e, s)
      | Inr (raw, stamp, missing) \<Rightarrow>
          (let s1 = s\<lparr>fsStamp := stamp, fsMissing := missing\<rparr>
           in if missing then (None, s1\<lparr>fsDecoded := False, fsMap := replaceOwned [] (fsMap s1)\<rparr>)
              else let data = stripBOM raw
                   in case fcDecode (fsCodec s) data of
                        Inl e \<Rightarrow> (Some (FeParse (fsParseErr s (msName (fsMap s)) (fsResolved s) data e)), s1)
                      | Inr decoded \<Rightarrow>
                          (None, s1\<lparr>fsDecoded := (data \<noteq> []),
                             fsMap := (if fcFresh (fsCodec s) then replaceOwned decoded (fsMap s1)
                                       else mapReplace decoded (fsMap s1))\<rparr>)))"

definition SetWatcher :: "watcherFactory option \<Rightarrow> fileSource \<Rightarrow> fileSource" where
  "SetWatcher w s = s\<lparr>fsWatcher := w\<rparr>"

text \<open>\<open>changedSinceRead\<close>, with what \<open>statFile\<close> gives.\<close>

definition changedSinceRead :: "fileStamp \<Rightarrow> fileSource \<Rightarrow> bool" where
  "changedSinceRead cur s =
     (stExists cur \<noteq> stExists (fsStamp s) \<or> stSize cur \<noteq> stSize (fsStamp s)
      \<or> fst (stMod cur) \<noteq> fst (stMod (fsStamp s)))"

text \<open>
  The goroutine of a watch: the check at its start, then one reload for each notification, an error of
  the watcher passed on. A notification comes with what opening the file gives at its reload.
\<close>

datatype sourceChange = Changed | WatcherErr string | ReloadErr fileError

definition reloadChange :: "openFile \<Rightarrow> fileSource \<Rightarrow> sourceChange \<times> fileSource" where
  "reloadChange f s =
     (case fileReload f s of (Some e, s') \<Rightarrow> (ReloadErr e, s') | (None, s') \<Rightarrow> (Changed, s'))"

fun fanLoop :: "(string + openFile) list \<Rightarrow> fileSource \<Rightarrow> sourceChange list \<times> fileSource" where
  "fanLoop [] s = ([], s)"
| "fanLoop (Inl e # ns) s = (let (out, s') = fanLoop ns s in (WatcherErr e # out, s'))"
| "fanLoop (Inr f # ns) s =
     (let (c, s1) = reloadChange f s; (out, s') = fanLoop ns s1 in (c # out, s'))"

definition fanWatchEvents ::
  "fileStamp \<Rightarrow> openFile \<Rightarrow> (string + openFile) list \<Rightarrow> fileSource \<Rightarrow> sourceChange list \<times> fileSource" where
  "fanWatchEvents cur f ns s =
     (if changedSinceRead cur s
      then let (c, s1) = reloadChange f s; (out, s') = fanLoop ns s1 in (c # out, s')
      else fanLoop ns s)"

text \<open>\<open>Watch\<close>: no factory is a closed channel, a factory that fails an error.\<close>

definition fileWatch ::
  "fileStamp \<Rightarrow> openFile \<Rightarrow> (string + openFile) list \<Rightarrow> fileSource \<Rightarrow> fileError + sourceChange list \<times> fileSource" where
  "fileWatch cur f ns s =
     (case fsWatcher s of
        None \<Rightarrow> Inr ([], s)
      | Some factory \<Rightarrow>
          (case factory (fsResolved s) of Some e \<Rightarrow> Inl (FeWatch e) | None \<Rightarrow> Inr (fanWatchEvents cur f ns s)))"


section \<open>The other sources with a codec\<close>

definition newFileSourceFS ::
  "codecs option \<Rightarrow> parseErrorFunc \<Rightarrow> string \<Rightarrow> (string \<Rightarrow> openFile) option \<Rightarrow> string \<Rightarrow> fileOption list
   \<Rightarrow> fileError + mapSource" where
  "newFileSourceFS cs parseErr name fs p opts =
     (case fs of
        None \<Rightarrow> Inl (FeInvalid ''nil fs.FS'')
      | Some fs \<Rightarrow>
          if name = [] then Inl (FeInvalid ''empty source name'')
          else let cfg = applyFileOptions opts
               in case resolveFileCodec p cfg cs of
                    Inl e \<Rightarrow> Inl e
                  | Inr codec \<Rightarrow>
                      (case readFSMaybeOptional p (foOptional cfg) fs of
                         Inl e \<Rightarrow> Inl e
                       | Inr (raw, missing) \<Rightarrow>
                           (let data = stripBOM raw
                            in case (if \<not> missing \<and> data \<noteq> [] then fcDecode codec data else Inr []) of
                                 Inl e \<Rightarrow> Inl (FeParse (parseErr name p data e))
                               | Inr decoded \<Rightarrow> Inr (newFileMapSource name decoded (fcFresh codec) (envKeysOf cfg)))))"

definition NewBufferSource :: "codecs \<Rightarrow> string \<Rightarrow> string \<Rightarrow> string \<Rightarrow> fileCodec option \<Rightarrow> fileError + mapSource" where
  "NewBufferSource defaults name format raw codecOpt =
     (case (case codecOpt of Some c \<Rightarrow> Some c | None \<Rightarrow> ByName defaults format) of
        None \<Rightarrow> Inl (FeUnsupported format)
      | Some codec \<Rightarrow>
          (let data = stripBOM raw
           in case fcDecode codec data of
                Inl e \<Rightarrow> Inl (FeParse (newParseError name [] data e))
              | Inr decoded \<Rightarrow> Inr (NewMapSource name decoded)))"

definition resolveStdinCodec :: "string \<Rightarrow> fileCodec option \<Rightarrow> codecs option \<Rightarrow> fileError + fileCodec" where
  "resolveStdinCodec format codecOpt cs =
     (case codecOpt of
        Some c \<Rightarrow> Inr c
      | None \<Rightarrow>
          if format = [] then Inl (FeUnsupported [])
          else case ByName (case cs of Some cs \<Rightarrow> cs | None \<Rightarrow> NewCodecs []) format of
                 Some c \<Rightarrow> Inr c | None \<Rightarrow> Inl (FeUnsupported format))"

text \<open>What \<open>os.Stdin\<close> says of itself: an error, whether it is a terminal, and what reading it gives.\<close>

definition readStdin :: "string + bool \<Rightarrow> string + string \<Rightarrow> fileError + string" where
  "readStdin tty content =
     (case tty of
        Inl e \<Rightarrow> Inl (FeRead ''stdin'' (ReadFails e))
      | Inr True \<Rightarrow> Inr []
      | Inr False \<Rightarrow>
          (case readAllCapped content of Inl e \<Rightarrow> Inl (FeRead ''stdin'' e) | Inr b \<Rightarrow> Inr (stripBOM b)))"

definition newStdinSource ::
  "codecs option \<Rightarrow> parseErrorFunc \<Rightarrow> string \<Rightarrow> fileCodec option \<Rightarrow> string + bool \<Rightarrow> string + string
   \<Rightarrow> fileError + mapSource" where
  "newStdinSource cs parseErr format codecOpt tty content =
     (case resolveStdinCodec format codecOpt cs of
        Inl e \<Rightarrow> Inl e
      | Inr codec \<Rightarrow>
          (case readStdin tty content of
             Inl e \<Rightarrow> Inl e
           | Inr data \<Rightarrow>
               (case (if data \<noteq> [] then fcDecode codec data else Inr []) of
                  Inl e \<Rightarrow> Inl (FeParse (parseErr ''stdin'' [] data e))
                | Inr decoded \<Rightarrow> Inr (NewMapSource ''stdin'' decoded))))"

text \<open>The constructors named after a format pin its codec before the caller's options.\<close>

definition newNamedSource :: "fileCodec \<Rightarrow> codecs \<Rightarrow> fileEnv \<Rightarrow> string \<Rightarrow> fileOption list \<Rightarrow> fileError + fileSource" where
  "newNamedSource codec defaults fe p opts =
     newFileSource (Some defaults) newParseError fe p (WithFileCodec (Some codec) # opts)"


section \<open>A source holds the last document it could read\<close>

text \<open>The reference: what a file contains for a source, its document or an error.\<close>

definition fileDoc :: "fileSource \<Rightarrow> openFile \<Rightarrow> fileError + goany gomap" where
  "fileDoc s f =
     (case readFileMaybeOptional (fsResolved s) (fsOptional s) f of
        Inl e \<Rightarrow> Inl e
      | Inr (raw, stamp, missing) \<Rightarrow>
          if missing then Inr []
          else (case fcDecode (fsCodec s) (stripBOM raw) of
                  Inl e \<Rightarrow> Inl (FeParse (fsParseErr s (msName (fsMap s)) (fsResolved s) (stripBOM raw) e))
                | Inr doc \<Rightarrow> Inr doc))"

definition keepGood :: "fileError + goany gomap \<Rightarrow> goany gomap \<Rightarrow> goany gomap" where
  "keepGood d m = (case d of Inl e \<Rightarrow> m | Inr doc \<Rightarrow> doc)"

definition changeOf :: "fileError + goany gomap \<Rightarrow> sourceChange" where
  "changeOf d = (case d of Inl e \<Rightarrow> ReloadErr e | Inr doc \<Rightarrow> Changed)"

text \<open>The effect of one notification on the contents, and the change it forwards.\<close>

fun noteDoc :: "(openFile \<Rightarrow> fileError + goany gomap) \<Rightarrow> string + openFile \<Rightarrow> goany gomap \<Rightarrow> goany gomap" where
  "noteDoc doc (Inl e) m = m"
| "noteDoc doc (Inr f) m = keepGood (doc f) m"

fun noteChange :: "(openFile \<Rightarrow> fileError + goany gomap) \<Rightarrow> string + openFile \<Rightarrow> sourceChange" where
  "noteChange doc (Inl e) = WatcherErr e"
| "noteChange doc (Inr f) = changeOf (doc f)"

text \<open>What never changes after construction.\<close>

definition sameFile :: "fileSource \<Rightarrow> fileSource \<Rightarrow> bool" where
  "sameFile s s' \<longleftrightarrow> fsResolved s' = fsResolved s \<and> fsOptional s' = fsOptional s \<and> fsCodec s' = fsCodec s
     \<and> fsParseErr s' = fsParseErr s \<and> msName (fsMap s') = msName (fsMap s) \<and> msEnvKeys (fsMap s') = msEnvKeys (fsMap s)"

lemma sameFile_doc:
  assumes "sameFile s s'"
  shows "fileDoc s' = fileDoc s"
proof -
  have "fsResolved s' = fsResolved s" "fsOptional s' = fsOptional s" "fsCodec s' = fsCodec s"
    "fsParseErr s' = fsParseErr s" "msName (fsMap s') = msName (fsMap s)"
    using assms by (simp_all add: sameFile_def)
  note eqs = this
  show ?thesis by (rule ext) (unfold fileDoc_def eqs, rule refl)
qed

lemma sameFile_trans: "sameFile s s' \<Longrightarrow> sameFile s' s'' \<Longrightarrow> sameFile s s''"
  by (simp add: sameFile_def)

lemma reload_doc:
  assumes "reloadChange f s = (c, s')"
  shows "c = changeOf (fileDoc s f)" and "msData (fsMap s') = keepGood (fileDoc s f) (msData (fsMap s))"
    and "sameFile s s'"
  using assms
  by (auto simp: reloadChange_def fileReload_def fileDoc_def changeOf_def keepGood_def sameFile_def Let_def
      replaceOwned_def mapReplace_def split: sum.splits prod.splits if_splits option.splits)

lemma fanLoop_doc:
  assumes "fanLoop ns s = (out, s')"
  shows "out = map (noteChange (fileDoc s)) ns"
    and "msData (fsMap s') = fold (noteDoc (fileDoc s)) ns (msData (fsMap s))"
    and "sameFile s s'"
proof -
  have "out = map (noteChange (fileDoc s)) ns
    \<and> msData (fsMap s') = fold (noteDoc (fileDoc s)) ns (msData (fsMap s))
    \<and> sameFile s s'"
    using assms
  proof (induction ns arbitrary: s out)
    case Nil
    then show ?case by (simp add: sameFile_def)
  next
    case (Cons n ns)
    show ?case
    proof (cases n)
      case (Inl e)
      with Cons.prems obtain out' where "fanLoop ns s = (out', s')" "out = WatcherErr e # out'"
        by (auto split: prod.splits)
      with Cons.IH Inl show ?thesis by auto
    next
      case (Inr f)
      obtain c s1 where r: "reloadChange f s = (c, s1)" by force
      with Cons.prems Inr obtain out' where l: "fanLoop ns s1 = (out', s')" "out = c # out'"
        by (auto split: prod.splits)
      from Cons.IH[OF l(1)] reload_doc[OF r] Inr l(2) sameFile_doc[OF reload_doc(3)[OF r]] show ?thesis
        by (auto intro: sameFile_trans)
    qed
  qed
  then show "out = map (noteChange (fileDoc s)) ns"
    "msData (fsMap s') = fold (noteDoc (fileDoc s)) ns (msData (fsMap s))"
    "sameFile s s'" by blast+
qed

lemma capped_exists: "readAllCapped content \<noteq> Inl ReadNotExist"
  by (simp add: readAllCapped_def split: sum.splits)

lemma not_exist_stamp: "readFileStamped f = (Inl ReadNotExist, stamp) \<Longrightarrow> stamp = noStamp"
proof (cases f)
  case (Opened info content)
  assume "readFileStamped f = (Inl ReadNotExist, stamp)"
  then have False using capped_exists[of content] unfolding Opened readFileStamped_def
    by (simp add: Let_def split: if_splits)
  then show ?thesis ..
qed (simp_all add: readFileStamped_def)

lemma read_stamp: "readFileMaybeOptional p optional f = Inr (b, stamp, missing) \<Longrightarrow> stamp = snd (readFileStamped f)"
  using not_exist_stamp
  by (cases "readFileStamped f") (auto simp: readFileMaybeOptional_def split: sum.splits readErr.splits if_splits)

text \<open>
  A source just constructed holds what the file held when it was read.
\<close>

lemma constructed_doc:
  assumes "newFileSource cs parseErr fe p opts = Inr s" and "fcDecode (fsCodec s) [] = Inr []"
  shows "fileDoc s (feOpen fe (fsResolved s)) = Inr (msData (fsMap s))"
    and "fsStamp s = snd (readFileStamped (feOpen fe (fsResolved s)))"
proof -
  let ?cfg = "applyFileOptions opts"
  from assms(1) obtain resolved codec raw stamp missing decoded where
    res: "resolveFilePath fe p ?cfg = Inr resolved" "resolveFileCodec resolved ?cfg cs = Inr codec"
    and read: "readFileMaybeOptional resolved (foOptional ?cfg) (feOpen fe resolved) = Inr (raw, stamp, missing)"
    and dec: "(if \<not> missing \<and> stripBOM raw \<noteq> [] then fcDecode codec (stripBOM raw) else Inr []) = Inr decoded"
    and s: "fsResolved s = resolved" "fsCodec s = codec" "fsOptional s = foOptional ?cfg" "fsStamp s = stamp"
      "msData (fsMap s) = decoded"
    by (auto simp: newFileSource_def Let_def newFileMapSource_def split: sum.splits prod.splits)
  have "missing \<or> fcDecode codec (stripBOM raw) = Inr decoded" "missing \<Longrightarrow> decoded = []"
    using dec assms(2) s(2) by (auto split: if_splits)
  then show "fileDoc s (feOpen fe (fsResolved s)) = Inr (msData (fsMap s))"
    by (auto simp: fileDoc_def s read)
  show "fsStamp s = snd (readFileStamped (feOpen fe (fsResolved s)))"
    using read_stamp[OF read] by (simp add: s)
qed

text \<open>
  C9: A file source holds the last document it could read. It starts with what the file holds at its
  construction; while it is watched, every notification leads to one read, forwarded as one change
  with the error of that read; a read that fails, because the file cannot be opened, is too large or
  does not decode, leaves the contents alone. A write between the construction and the subscription
  is not lost if it changes the existence, size or time of the file: it is read when the watch starts.
  (The codec reads an empty document as an empty map, which the bundled codecs do.)
\<close>

theorem watched_file_is_current:
  assumes "newFileSource cs parseErr fe p opts = Inr s" and "fcDecode (fsCodec s) [] = Inr []"
    and "fanWatchEvents cur f ns s = (out, s')"
    and "reads = (if changedSinceRead cur s then [Inr f] else []) @ ns"
  shows "msData (fsMap s') = fold (noteDoc (fileDoc s)) (Inr (feOpen fe (fsResolved s)) # reads) []
    \<and> out = map (noteChange (fileDoc s)) reads
    \<and> (changedSinceRead cur s \<longleftrightarrow>
         (let old = snd (readFileStamped (feOpen fe (fsResolved s)))
          in (stExists cur, stSize cur, fst (stMod cur)) \<noteq> (stExists old, stSize old, fst (stMod old))))"
proof (intro conjI)
  have loop: "fanLoop reads s = (out, s')"
    using assms(3) by (cases "changedSinceRead cur s") (simp_all add: fanWatchEvents_def assms(4))
  show "out = map (noteChange (fileDoc s)) reads" by (rule fanLoop_doc(1)[OF loop])
  show "msData (fsMap s') = fold (noteDoc (fileDoc s)) (Inr (feOpen fe (fsResolved s)) # reads) []"
    using fanLoop_doc(2)[OF loop] constructed_doc(1)[OF assms(1,2)] by (simp add: keepGood_def)
  show "changedSinceRead cur s \<longleftrightarrow>
         (let old = snd (readFileStamped (feOpen fe (fsResolved s)))
          in (stExists cur, stSize cur, fst (stMod cur)) \<noteq> (stExists old, stSize old, fst (stMod old)))"
    by (auto simp: changedSinceRead_def constructed_doc(2)[OF assms(1,2)] Let_def)
qed

definition demoFile :: "string \<Rightarrow> int64 \<Rightarrow> openFile" where
  "demoFile content t = Opened (Some (True, of_nat (length content), (uint t, 0))) (Inr content)"

definition lineCodec :: fileCodec where
  "lineCodec = \<lparr>fcName = ''line'', fcExts = [''.txt''],
     fcDecode = (\<lambda>d. if d = [] then Inr [] else if hd d = CHR ''!'' then Inl (codecError ''line'' ''bad'' (1, 1) ''bad'')
                     else Inr [(''k'', AStr d)]), fcFresh = True\<rparr>"

definition demoEnv :: fileEnv where
  "demoEnv = \<lparr>feShell = \<lparr>shGetenv = (\<lambda>_. None), shHome = Inr ''/h'', shUser = Inl\<rparr>, feWd = Inr ''/w'',
     feMissing = (\<lambda>_. False), feOpen = (\<lambda>_. demoFile ''one'' 1)\<rparr>"

definition demoFileSource :: fileSource where
  "demoFileSource = \<lparr>fsMap = \<lparr>msName = ''a.txt'', msData = [(''k'', AStr ''one'')], msEnvKeys = None\<rparr>, fsResolved = ''/w/a.txt'',
     fsCodec = lineCodec, fsOptional = False, fsWatcher = None, fsMissing = False, fsParseErr = newCodecParseError,
     fsStamp = \<lparr>stExists = True, stSize = 3, stMod = (1, 0)\<rparr>, fsDecoded = True\<rparr>"

lemma demoFile_reads:
  "readFileMaybeOptional p False (demoFile ''one'' 1) = Inr (''one'', \<lparr>stExists = True, stSize = 3, stMod = (1, 0)\<rparr>, False)"
  "readFileMaybeOptional p False (demoFile ''two'' 2) = Inr (''two'', \<lparr>stExists = True, stSize = 3, stMod = (2, 0)\<rparr>, False)"
  "readFileMaybeOptional p False (demoFile ''!'' 3) = Inr (''!'', \<lparr>stExists = True, stSize = 1, stMod = (3, 0)\<rparr>, False)"
  by (simp_all add: readFileMaybeOptional_def readFileStamped_def demoFile_def readAllCapped_def MaxFileSize_def)

lemma demoFileSource_built:
  "newFileSource None newCodecParseError demoEnv ''/w/a.txt'' [WithFileCodec (Some lineCodec)] = Inr demoFileSource"
proof -
  have "applyFileOptions [WithFileCodec (Some lineCodec)] = defaultFileOptions\<lparr>foCodec := Some lineCodec\<rparr>"
    by (simp add: applyFileOptions_def WithFileCodec_def)
  moreover have "resolveFilePath demoEnv ''/w/a.txt'' (defaultFileOptions\<lparr>foCodec := Some lineCodec\<rparr>) = Inr ''/w/a.txt''"
    by code_simp
  moreover have "pathBase ''/w/a.txt'' = ''a.txt''" by code_simp
  ultimately show ?thesis
    by (simp add: newFileSource_def resolveFileCodec_def defaultFileOptions_def demoEnv_def demoFile_reads stripBOM_def
        trimPrefix_def utf8BOM_def lineCodec_def newFileMapSource_def envKeysOf_def demoFileSource_def)
qed

lemma watched_file_is_current_witness:
  "msData (fsMap (snd (fanWatchEvents (snd (readFileStamped (demoFile ''two'' 2))) (demoFile ''two'' 2)
         [Inr (demoFile ''!'' 3), Inl ''lost''] demoFileSource))) = [(''k'', AStr ''two'')]"
proof -
  let ?cur = "snd (readFileStamped (demoFile ''two'' 2))" and ?ns = "[Inr (demoFile ''!'' 3), Inl ''lost'']"
  let ?res = "fanWatchEvents ?cur (demoFile ''two'' 2) ?ns demoFileSource"
  have empty: "fcDecode (fsCodec demoFileSource) [] = Inr []" by (simp add: demoFileSource_def lineCodec_def)
  have changed: "changedSinceRead ?cur demoFileSource"
    by (simp add: changedSinceRead_def demoFileSource_def readFileStamped_def demoFile_def Let_def MaxFileSize_def)
  have docs: "fileDoc demoFileSource (feOpen demoEnv (fsResolved demoFileSource)) = Inr [(''k'', AStr ''one'')]"
    "fileDoc demoFileSource (demoFile ''two'' 2) = Inr [(''k'', AStr ''two'')]"
    "\<exists>e. fileDoc demoFileSource (demoFile ''!'' 3) = Inl e"
    by (simp_all add: fileDoc_def demoFileSource_def demoEnv_def demoFile_reads lineCodec_def stripBOM_def trimPrefix_def utf8BOM_def)
  then show ?thesis
    using watched_file_is_current[OF demoFileSource_built empty _ refl, of ?cur "demoFile ''two'' 2" ?ns "fst ?res" "snd ?res"]
    by (auto simp: changed keepGood_def)
qed

text \<open>
  A codec that refuses the empty document shows that construction and reload differ on an empty file:
  the first accepts it without decoding, the second reports the codec's error.
\<close>

lemma empty_file_reload_differs:
  assumes "readFileMaybeOptional (fsResolved s) (fsOptional s) f = Inr ([], stamp, False)"
    and "fcDecode (fsCodec s) [] = Inl e"
  shows "fst (fileReload f s) \<noteq> None"
  using assms by (simp add: fileReload_def stripBOM_def trimPrefix_def utf8BOM_def Let_def)

end
