(* ===== verification/Remote.thy ===== *)
theory Remote
  imports Source
begin

text \<open>
  \<open>source_remote.go\<close>, \<open>remote_inmemory.go\<close> and the remote options of \<open>options_source.go\<close>: a source that
  caches the keys of a remote backend, the in-memory backend, and the push of the backend's
  notifications into the source's changes. A backend is its three read calls at one moment; a call may
  fail. A channel of capacity one that only ticks is a flag.
\<close>

section \<open>The source\<close>

record remoteBackend =
  rbList :: "string \<Rightarrow> string + string list"
  rbGet :: "string \<Rightarrow> string + string option"
  rbListValues :: "(string \<Rightarrow> string + string gomap) option"
  rbClose :: "string option"

record remoteOptions =
  roPrefix :: string
  roPoll :: int64
  roTrimPrefix :: bool

record remoteSource =
  rsName :: string
  rsPrefix :: string
  rsPoll :: int64
  rsTrim :: bool
  rsCache :: "string gomap"
  rsKeyList :: "string list"

datatype remoteError =
    RemoteNilContext
  | RemoteEmptyName
  | RemoteNilBackend
  | RemoteSourceError string string string

definition WithRemotePrefix :: "string \<Rightarrow> remoteOptions \<Rightarrow> remoteOptions" where
  "WithRemotePrefix prefix o1 = o1\<lparr>roPrefix := prefix\<rparr>"

definition WithRemotePollInterval :: "int64 \<Rightarrow> remoteOptions \<Rightarrow> remoteOptions" where
  "WithRemotePollInterval d o1 = o1\<lparr>roPoll := d\<rparr>"

definition WithRemoteTrimPrefix :: "bool \<Rightarrow> remoteOptions \<Rightarrow> remoteOptions" where
  "WithRemoteTrimPrefix trim o1 = o1\<lparr>roTrimPrefix := trim\<rparr>"

text \<open>The loop of \<open>readAll\<close> over the listed keys.\<close>

fun readKeys :: "string \<Rightarrow> (string \<Rightarrow> string + string option) \<Rightarrow> string list \<Rightarrow> string gomap \<Rightarrow> remoteError + string gomap" where
  "readKeys name get [] cache = Inr cache"
| "readKeys name get (k # ks) cache =
     (case get k of
        Inl e \<Rightarrow> Inl (RemoteSourceError name ''get'' e)
      | Inr None \<Rightarrow> readKeys name get ks cache
      | Inr (Some v) \<Rightarrow> readKeys name get ks (mput k v cache))"

definition readAll :: "remoteBackend \<Rightarrow> remoteSource \<Rightarrow> remoteError + string gomap" where
  "readAll b s =
     (case rbListValues b of
        Some listValues \<Rightarrow>
          (case listValues (rsPrefix s) of
             Inl e \<Rightarrow> Inl (RemoteSourceError (rsName s) ''list'' e)
           | Inr kv \<Rightarrow> Inr (mcopy [] kv))
      | None \<Rightarrow>
          (case rbList b (rsPrefix s) of
             Inl e \<Rightarrow> Inl (RemoteSourceError (rsName s) ''list'' e)
           | Inr ks \<Rightarrow> readKeys (rsName s) (rbGet b) ks []))"

definition swapCache :: "string gomap \<Rightarrow> remoteSource \<Rightarrow> remoteSource" where
  "swapCache cache s = s\<lparr>rsCache := cache, rsKeyList := sort (mkeys cache)\<rparr>"

definition remoteRefresh :: "remoteBackend \<Rightarrow> remoteSource \<Rightarrow> remoteError option \<times> remoteSource" where
  "remoteRefresh b s = (case readAll b s of Inl e \<Rightarrow> (Some e, s) | Inr cache \<Rightarrow> (None, swapCache cache s))"

text \<open>\<open>strings.HasSuffix\<close> of a slash; a trimmed prefix gets one.\<close>

definition slashed :: "string \<Rightarrow> string" where
  "slashed prefix = (if prefix \<noteq> [] \<and> last prefix \<noteq> CHR ''/'' then prefix @ ''/'' else prefix)"

definition NewRemoteSourceContext ::
  "bool \<Rightarrow> string \<Rightarrow> remoteBackend option \<Rightarrow> (remoteOptions \<Rightarrow> remoteOptions) list \<Rightarrow> remoteError + remoteSource" where
  "NewRemoteSourceContext nilCtx name backend opts =
     (if nilCtx then Inl RemoteNilContext
      else if name = [] then Inl RemoteEmptyName
      else case backend of
             None \<Rightarrow> Inl RemoteNilBackend
           | Some b \<Rightarrow>
               (let cfg = fold (\<lambda>opt cfg. opt cfg) opts \<lparr>roPrefix = [], roPoll = 0, roTrimPrefix = False\<rparr>;
                    s = \<lparr>rsName = name, rsPrefix = (if roTrimPrefix cfg then slashed (roPrefix cfg) else roPrefix cfg),
                         rsPoll = roPoll cfg, rsTrim = roTrimPrefix cfg, rsCache = [], rsKeyList = []\<rparr>
                in case remoteRefresh b s of (Some e, _) \<Rightarrow> Inl e | (None, s') \<Rightarrow> Inr s'))"

definition remoteLookupKey :: "remoteSource \<Rightarrow> path \<Rightarrow> string" where
  "remoteLookupKey s p =
     (if rsTrim s \<and> rsPrefix s \<noteq> [] then rsPrefix s @ join p ''/'' else join p ''/'')"

definition keyToPath :: "remoteSource \<Rightarrow> string \<Rightarrow> path" where
  "keyToPath s k =
     (let k' = (if rsTrim s \<and> rsPrefix s \<noteq> [] then trimPrefix k (rsPrefix s) else k)
      in if k' = [] then [] else split k' ''/'')"

definition remoteGet :: "remoteSource \<Rightarrow> path \<Rightarrow> string + govalue option" where
  "remoteGet s p =
     (if p = [] then Inr None
      else Inr (map_option (\<lambda>v. NewValue (AStr v)) (mget (rsCache s) (remoteLookupKey s p))))"

definition remoteKeys :: "remoteSource \<Rightarrow> path list" where
  "remoteKeys s = sortPaths (map (keyToPath s) (rsKeyList s))"

definition remoteClose :: "remoteBackend \<Rightarrow> remoteSource \<Rightarrow> string option \<times> remoteSource" where
  "remoteClose b s = (rbClose b, s\<lparr>rsCache := [], rsKeyList := []\<rparr>)"

text \<open>\<open>cacheEqual\<close>, and one tick of the polling goroutine: the change it sends and the cache it keeps.\<close>

definition cacheEqual :: "string gomap \<Rightarrow> string gomap \<Rightarrow> bool" where
  "cacheEqual a b = (length a = length b \<and> list_all (\<lambda>(k, v). mget b k = Some v) a)"

definition remotePollTick ::
  "remoteBackend \<Rightarrow> string gomap \<Rightarrow> remoteSource \<Rightarrow> remoteError option option \<times> string gomap \<times> remoteSource" where
  "remotePollTick b prev s =
     (case remoteRefresh b s of
        (Some e, s') \<Rightarrow> (Some (Some e), prev, s')
      | (None, s') \<Rightarrow>
          if cacheEqual prev (rsCache s') then (None, prev, s') else (Some None, rsCache s', s'))"


section \<open>The in-memory backend\<close>

text \<open>
  A subscription is a channel of capacity one: its number and whether a tick is in it. A closed channel
  still gives the tick it holds: \<open>mbLeft\<close>.
\<close>

record memBackend =
  mbData :: "string gomap"
  mbSubs :: "(nat \<times> bool) list"
  mbNext :: nat
  mbClosed :: bool
  mbLeft :: "nat list"

definition NewInMemoryBackend :: memBackend where
  "NewInMemoryBackend = \<lparr>mbData = [], mbSubs = [], mbNext = 0, mbClosed = False, mbLeft = []\<rparr>"

definition notifyAll :: "(nat \<times> bool) list \<Rightarrow> (nat \<times> bool) list" where
  "notifyAll subs = map (\<lambda>(ch, tick). (ch, True)) subs"

definition memPut :: "string \<Rightarrow> string \<Rightarrow> memBackend \<Rightarrow> memBackend" where
  "memPut k v m =
     (if mbClosed m then m else m\<lparr>mbData := mput k v (mbData m), mbSubs := notifyAll (mbSubs m)\<rparr>)"

definition memPutAll :: "string gomap \<Rightarrow> memBackend \<Rightarrow> memBackend" where
  "memPutAll kv m =
     (if mbClosed m then m else m\<lparr>mbData := mcopy (mbData m) kv, mbSubs := notifyAll (mbSubs m)\<rparr>)"

definition memDelete :: "string \<Rightarrow> memBackend \<Rightarrow> memBackend" where
  "memDelete k m =
     (if mbClosed m then m
      else if \<not> mhas (mbData m) k then m
      else m\<lparr>mbData := mdel k (mbData m), mbSubs := notifyAll (mbSubs m)\<rparr>)"

definition memList :: "memBackend \<Rightarrow> string \<Rightarrow> string + string list" where
  "memList m prefix = Inr (sort (filter (\<lambda>k. prefix = [] \<or> hasPrefix k prefix) (mkeys (mbData m))))"

definition memGet :: "memBackend \<Rightarrow> string \<Rightarrow> string + string option" where
  "memGet m k = Inr (mget (mbData m) k)"

definition memListValues :: "memBackend \<Rightarrow> string \<Rightarrow> string + string gomap" where
  "memListValues m prefix =
     Inr (fold (\<lambda>(k, v) out. if prefix = [] \<or> hasPrefix k prefix then mput k v out else out) (mbData m) [])"

text \<open>\<open>Watch\<close> gives a channel, none (closed at once) on a closed backend; its cancellation removes it.\<close>

definition memWatch :: "memBackend \<Rightarrow> nat option \<times> memBackend" where
  "memWatch m =
     (if mbClosed m then (None, m)
      else (Some (mbNext m), m\<lparr>mbSubs := mbSubs m @ [(mbNext m, False)], mbNext := mbNext m + 1\<rparr>))"

definition memCancel :: "nat \<Rightarrow> memBackend \<Rightarrow> memBackend" where
  "memCancel ch m =
     m\<lparr>mbSubs := filter (\<lambda>(c, tick). c \<noteq> ch) (mbSubs m),
       mbLeft := (if (ch, True) \<in> set (mbSubs m) then ch # mbLeft m else mbLeft m)\<rparr>"

definition memClose :: "memBackend \<Rightarrow> memBackend" where
  "memClose m =
     (if mbClosed m then m
      else m\<lparr>mbClosed := True, mbSubs := [], mbLeft := map fst (filter snd (mbSubs m)) @ mbLeft m\<rparr>)"

definition memSnapshot :: "memBackend \<Rightarrow> string gomap" where
  "memSnapshot m = mcopy [] (mbData m)"

definition memAsBackend :: "bool \<Rightarrow> memBackend \<Rightarrow> remoteBackend" where
  "memAsBackend lister m =
     \<lparr>rbList = memList m, rbGet = memGet m, rbListValues = (if lister then Some (memListValues m) else None),
      rbClose = None\<rparr>"


section \<open>Pushing changes\<close>

text \<open>
  \<open>fanWatch\<close> over the in-memory backend: the source waits for a tick, reads the backend, swaps its cache
  and sends a change on a channel of capacity one, which its consumer takes. Each of these is a step;
  writes to the backend come between any two of them.
\<close>

datatype fanPhase = Waiting | Ticked | Read "string gomap" | Swapped | Stopped

record remoteSys =
  sysBackend :: memBackend
  sysSource :: remoteSource
  sysChan :: nat
  sysPhase :: fanPhase
  sysOut :: nat
  sysTaken :: nat

definition hasTick :: "remoteSys \<Rightarrow> bool" where
  "hasTick y = ((sysChan y, True) \<in> set (mbSubs (sysBackend y)) \<or> sysChan y \<in> set (mbLeft (sysBackend y)))"

definition isOpen :: "remoteSys \<Rightarrow> bool" where
  "isOpen y = (sysChan y \<in> fst ` set (mbSubs (sysBackend y)))"

definition takeTick :: "nat \<Rightarrow> memBackend \<Rightarrow> memBackend" where
  "takeTick ch m =
     m\<lparr>mbSubs := map (\<lambda>(c, tick). (c, if c = ch then False else tick)) (mbSubs m),
       mbLeft := filter (\<lambda>c. c \<noteq> ch) (mbLeft m)\<rparr>"

inductive fanStep :: "remoteSys \<Rightarrow> remoteSys \<Rightarrow> bool" where
  tick: "sysPhase y = Waiting \<Longrightarrow> hasTick y \<Longrightarrow>
    fanStep y (y\<lparr>sysPhase := Ticked, sysBackend := takeTick (sysChan y) (sysBackend y)\<rparr>)"
| closed: "sysPhase y = Waiting \<Longrightarrow> \<not> hasTick y \<Longrightarrow> \<not> isOpen y \<Longrightarrow>
    fanStep y (y\<lparr>sysPhase := Stopped\<rparr>)"
| read: "sysPhase y = Ticked \<Longrightarrow> readAll (memAsBackend True (sysBackend y)) (sysSource y) = Inr kv \<Longrightarrow>
    fanStep y (y\<lparr>sysPhase := Read kv\<rparr>)"
| swap: "sysPhase y = Read kv \<Longrightarrow> fanStep y (y\<lparr>sysPhase := Swapped, sysSource := swapCache kv (sysSource y)\<rparr>)"
| send: "sysPhase y = Swapped \<Longrightarrow> sysOut y = 0 \<Longrightarrow> fanStep y (y\<lparr>sysPhase := Waiting, sysOut := 1\<rparr>)"
| take: "0 < sysOut y \<Longrightarrow> fanStep y (y\<lparr>sysOut := sysOut y - 1, sysTaken := sysTaken y + 1\<rparr>)"

inductive memStep :: "memBackend \<Rightarrow> memBackend \<Rightarrow> bool" where
  put: "memStep m (memPut k v m)"
| putAll: "memStep m (memPutAll kv m)"
| delete: "memStep m (memDelete k m)"
| watch: "memStep m (snd (memWatch m))"
| cancel: "memStep m (memCancel ch m)"
| close: "memStep m (memClose m)"

text \<open>The system: steps of the source, and of the backend's other users, who do not cancel its subscription.\<close>

inductive sysStep :: "remoteSys \<Rightarrow> remoteSys \<Rightarrow> bool" where
  fan: "fanStep y y' \<Longrightarrow> sysStep y y'"
| env: "memStep (sysBackend y) m \<Longrightarrow> isOpen (y\<lparr>sysBackend := m\<rparr>) \<or> mbClosed m \<Longrightarrow>
    sysStep y (y\<lparr>sysBackend := m\<rparr>)"

text \<open>The start: \<open>Watch\<close> subscribes a source.\<close>

definition watchFrom :: "memBackend \<Rightarrow> remoteSource \<Rightarrow> remoteSys" where
  "watchFrom m s =
     (case memWatch m of
        (None, m') \<Rightarrow> \<lparr>sysBackend = m', sysSource = s, sysChan = 0, sysPhase = Stopped, sysOut = 0, sysTaken = 0\<rparr>
      | (Some ch, m') \<Rightarrow> \<lparr>sysBackend = m', sysSource = s, sysChan = ch, sysPhase = Waiting, sysOut = 0, sysTaken = 0\<rparr>)"


inductive_cases fanStepE: "fanStep y y'"
inductive_cases memStepE: "memStep m m'"
inductive_cases sysStepE: "sysStep y y'"


section \<open>Reading the backend\<close>

text \<open>What the backend holds for a source.\<close>

definition viewOf :: "memBackend \<Rightarrow> string \<Rightarrow> string gomap" where
  "viewOf m prefix = fold (\<lambda>(k, v) out. if prefix = [] \<or> hasPrefix k prefix then mput k v out else out) (mbData m) []"

lemma fold_keep_mwf: "mwf out \<Longrightarrow> mwf (fold (\<lambda>(k, v) out. if P k then mput k v out else out) m out)"
  by (induction m arbitrary: out) (auto split: prod.splits)

lemma mget_fold_filter:
  "mwf m \<Longrightarrow> mget (fold (\<lambda>(k, v) out. if P k then mput k v out else out) m out) j
    = (case mget m j of Some v \<Rightarrow> if P j then Some v else mget out j | None \<Rightarrow> mget out j)"
proof (induction m arbitrary: out)
  case (Cons e m)
  obtain k v where e: "e = (k, v)" by force
  have "k \<notin> set (mkeys m)" using Cons.prems e by auto
  then have "mget m k = None" by (simp add: mget_None_iff)
  then show ?case using Cons e by (auto simp: mget_mput split: option.splits)
qed simp

lemma viewOf_mwf [simp]: "mwf (viewOf m prefix)"
  unfolding viewOf_def by (rule fold_keep_mwf) simp

lemma mget_viewOf:
  "mwf (mbData m) \<Longrightarrow> mget (viewOf m prefix) k = (if prefix = [] \<or> hasPrefix k prefix then mget (mbData m) k else None)"
  unfolding viewOf_def by (subst mget_fold_filter) (auto split: option.splits)

lemma mcopy_Nil_id: "mwf m \<Longrightarrow> mcopy [] m = m"
  by (rule mwf_ext) (auto simp: mget_mcopy split: option.splits)

lemma readAll_lister: "readAll (memAsBackend True m) s = Inr (viewOf m (rsPrefix s))"
proof -
  have "memListValues m (rsPrefix s) = Inr (viewOf m (rsPrefix s))" by (simp add: memListValues_def viewOf_def)
  then show ?thesis by (simp add: readAll_def memAsBackend_def mcopy_Nil_id)
qed

lemma readKeys_mem:
  "readKeys name (memGet m) ks cache = Inr (fold (\<lambda>k c. case mget (mbData m) k of Some v \<Rightarrow> mput k v c | None \<Rightarrow> c) ks cache)"
  by (induction ks arbitrary: cache) (auto simp: memGet_def split: option.splits)

lemma fold_read:
  "mwf cache \<Longrightarrow> mwf (fold (\<lambda>k c. case mget d k of Some v \<Rightarrow> mput k v c | None \<Rightarrow> c) ks cache)
   \<and> mget (fold (\<lambda>k c. case mget d k of Some v \<Rightarrow> mput k v c | None \<Rightarrow> c) ks cache) j
     = (if j \<in> set ks \<and> mget d j \<noteq> None then mget d j else mget cache j)"
  by (induction ks arbitrary: cache) (auto simp: mget_mput split: option.splits)

lemma mkeys_iff: "k \<in> set (mkeys m) \<longleftrightarrow> mget m k \<noteq> None"
  by (simp add: mget_None_iff)

lemma readAll_keys:
  assumes "mwf (mbData m)"
  shows "readAll (memAsBackend False m) s = Inr (viewOf m (rsPrefix s))"
proof -
  let ?ks = "sort (filter (\<lambda>k. rsPrefix s = [] \<or> hasPrefix k (rsPrefix s)) (mkeys (mbData m)))"
  let ?r = "fold (\<lambda>k c. case mget (mbData m) k of Some v \<Rightarrow> mput k v c | None \<Rightarrow> c) ?ks []"
  have "?r = viewOf m (rsPrefix s)"
    by (rule mwf_ext) (auto simp: fold_read mget_viewOf assms mkeys_iff)
  then show ?thesis by (simp add: readAll_def memAsBackend_def memList_def readKeys_mem)
qed


section \<open>The source catches up\<close>

definition current :: "remoteSys \<Rightarrow> bool" where
  "current y = (rsCache (sysSource y) = viewOf (sysBackend y) (rsPrefix (sysSource y)))"

fun phaseOk :: "remoteSys \<Rightarrow> fanPhase \<Rightarrow> bool" where
  "phaseOk y Waiting = (current y \<or> hasTick y)"
| "phaseOk y Ticked = True"
| "phaseOk y (Read kv) = (kv = viewOf (sysBackend y) (rsPrefix (sysSource y)) \<or> hasTick y)"
| "phaseOk y Swapped = (current y \<or> hasTick y)"
| "phaseOk y Stopped = (current y \<and> mbClosed (sysBackend y))"

definition sysInv :: "remoteSys \<Rightarrow> bool" where
  "sysInv y = ((isOpen y \<or> mbClosed (sysBackend y)) \<and> phaseOk y (sysPhase y))"

lemma swapCache_simps [simp]: "rsCache (swapCache kv s) = kv" "rsPrefix (swapCache kv s) = rsPrefix s"
  by (simp_all add: swapCache_def)

lemma takeTick_simps [simp]: "mbData (takeTick ch m) = mbData m" "mbClosed (takeTick ch m) = mbClosed m"
  "fst ` set (mbSubs (takeTick ch m)) = fst ` set (mbSubs m)" "viewOf (takeTick ch m) p = viewOf m p"
proof -
  have "fst ` (\<lambda>(c, tick). (c, if c = ch then False else tick)) ` set (mbSubs m) = fst ` set (mbSubs m)"
    unfolding image_image by (rule image_cong) auto
  then show "fst ` set (mbSubs (takeTick ch m)) = fst ` set (mbSubs m)" by (simp add: takeTick_def)
qed (simp_all add: takeTick_def viewOf_def)

lemma fanStep_inv:
  assumes "fanStep y y'" and "sysInv y"
  shows "sysInv y'"
  using assms(1)
proof cases
  case tick
  with assms(2) show ?thesis by (simp add: sysInv_def isOpen_def)
next
  case closed
  with assms(2) show ?thesis by (auto simp: sysInv_def isOpen_def current_def)
next
  case (read kv)
  with assms(2) show ?thesis by (simp add: sysInv_def isOpen_def readAll_lister)
next
  case (swap kv)
  with assms(2) show ?thesis by (auto simp: sysInv_def isOpen_def current_def hasTick_def)
next
  case send
  with assms(2) show ?thesis by (auto simp: sysInv_def isOpen_def current_def hasTick_def)
next
  case take
  with assms(2) show ?thesis
    by (cases "sysPhase y") (auto simp: sysInv_def isOpen_def current_def hasTick_def)
qed

lemma notifyAll_simps [simp]: "fst ` set (notifyAll subs) = fst ` set subs"
  "(ch, True) \<in> set (notifyAll subs) \<longleftrightarrow> ch \<in> fst ` set subs" "(ch, tick) \<in> set subs \<Longrightarrow> (ch, True) \<in> set (notifyAll subs)"
  by (force simp: notifyAll_def image_iff)+

lemma memStep_view:
  assumes "memStep m m'" and "ch \<in> fst ` set (mbSubs m) \<or> mbClosed m"
  shows "viewOf m' p = viewOf m p \<or> (ch, True) \<in> set (mbSubs m')"
    and "mbClosed m \<Longrightarrow> mbClosed m' \<and> viewOf m' p = viewOf m p"
  using assms
  by (cases; auto simp: memPut_def memPutAll_def memDelete_def memWatch_def memCancel_def memClose_def viewOf_def)+

lemma memStep_tick:
  assumes "memStep m m'" and "(ch, True) \<in> set (mbSubs m) \<or> ch \<in> set (mbLeft m)"
  shows "(ch, True) \<in> set (mbSubs m') \<or> ch \<in> set (mbLeft m')"
  using assms(1)
proof cases
  case (cancel c)
  with assms(2) show ?thesis by (auto simp: memCancel_def)
next
  case close
  with assms(2) show ?thesis by (auto simp: memClose_def intro!: image_eqI[of ch fst "(ch, True)"])
qed (use assms(2) in \<open>auto simp: memPut_def memPutAll_def memDelete_def memWatch_def
      intro!: image_eqI[of ch fst "(ch, True)"]\<close>)

lemma env_inv:
  assumes "sysInv y" and "memStep (sysBackend y) m" and "isOpen (y\<lparr>sysBackend := m\<rparr>) \<or> mbClosed m"
  shows "sysInv (y\<lparr>sysBackend := m\<rparr>)"
proof -
  have was: "sysChan y \<in> fst ` set (mbSubs (sysBackend y)) \<or> mbClosed (sysBackend y)"
    using assms(1) by (simp add: sysInv_def isOpen_def)
  note view = memStep_view(1)[OF assms(2) was] and closed = memStep_view(2)[OF assms(2) was]
  have tick: "hasTick y \<Longrightarrow> hasTick (y\<lparr>sysBackend := m\<rparr>)"
    using memStep_tick[OF assms(2)] by (simp add: hasTick_def)
  have seen: "viewOf m p = viewOf (sysBackend y) p \<or> hasTick (y\<lparr>sysBackend := m\<rparr>)" for p
    using view[of p] by (auto simp: hasTick_def)
  have "phaseOk (y\<lparr>sysBackend := m\<rparr>) (sysPhase y)"
    using assms(1) tick seen[of "rsPrefix (sysSource y)"] closed
    by (cases "sysPhase y") (auto simp: sysInv_def current_def)
  with assms(3) show ?thesis by (simp add: sysInv_def)
qed

lemma sysStep_inv: "sysStep y y' \<Longrightarrow> sysInv y \<Longrightarrow> sysInv y'"
  by (cases rule: sysStep.cases) (auto intro: fanStep_inv env_inv)

lemma run_inv: "sysStep\<^sup>*\<^sup>* y y' \<Longrightarrow> sysInv y \<Longrightarrow> sysInv y'"
  by (induction rule: rtranclp_induct) (auto intro: sysStep_inv)

lemma watchFrom_inv: "rsCache s = viewOf m (rsPrefix s) \<Longrightarrow> sysInv (watchFrom m s)"
  by (auto simp: watchFrom_def memWatch_def sysInv_def isOpen_def current_def viewOf_def hasTick_def)

text \<open>The source's own steps end, and a swapped cache is announced.\<close>

fun phaseWork :: "fanPhase \<Rightarrow> nat" where
  "phaseWork Stopped = 0"
| "phaseWork Waiting = 1"
| "phaseWork Swapped = 3"
| "phaseWork (Read kv) = 4"
| "phaseWork Ticked = 5"

definition sysWork :: "remoteSys \<Rightarrow> nat" where
  "sysWork y = (if hasTick y then 6 else 0) + phaseWork (sysPhase y) + sysOut y"

definition promised :: "remoteSys \<Rightarrow> nat" where
  "promised y = sysTaken y + sysOut y + (if sysPhase y = Swapped then 1 else 0)"

lemma fanStep_work: "fanStep y y' \<Longrightarrow> sysWork y' < sysWork y"
  by (cases rule: fanStep.cases) (auto simp: sysWork_def hasTick_def takeTick_def)

lemma fanStep_frame:
  "fanStep y y' \<Longrightarrow> viewOf (sysBackend y') p = viewOf (sysBackend y) p
     \<and> rsPrefix (sysSource y') = rsPrefix (sysSource y) \<and> promised y \<le> promised y'
     \<and> (rsCache (sysSource y') \<noteq> rsCache (sysSource y) \<longrightarrow> promised y < promised y')"
  by (cases rule: fanStep.cases) (auto simp: promised_def)

lemma fanRun_frame:
  "fanStep\<^sup>*\<^sup>* y y' \<Longrightarrow> viewOf (sysBackend y') p = viewOf (sysBackend y) p
     \<and> rsPrefix (sysSource y') = rsPrefix (sysSource y) \<and> promised y \<le> promised y'
     \<and> (rsCache (sysSource y') \<noteq> rsCache (sysSource y) \<longrightarrow> promised y < promised y')"
proof (induction rule: rtranclp_induct)
  case (step z w)
  with fanStep_frame[OF step.hyps(2)] show ?case by force
qed simp

definition fanQuiet :: "remoteSys \<Rightarrow> bool" where
  "fanQuiet y = (\<forall>y'. \<not> fanStep y y')"

lemma fan_ends: "\<exists>y'. fanStep\<^sup>*\<^sup>* y y' \<and> fanQuiet y'"
proof (induction "sysWork y" arbitrary: y rule: less_induct)
  case less
  show ?case
  proof (cases "fanQuiet y")
    case False
    then obtain z where z: "fanStep y z" by (auto simp: fanQuiet_def)
    from less[OF fanStep_work[OF z]] z show ?thesis by (meson converse_rtranclp_into_rtranclp)
  qed blast
qed

lemma quiet_phase:
  assumes "fanQuiet y"
  shows "sysOut y = 0" and "sysPhase y = Stopped \<or> sysPhase y = Waiting \<and> \<not> hasTick y \<and> isOpen y"
proof -
  have no: "\<not> fanStep y y'" for y' using assms by (simp add: fanQuiet_def)
  show out: "sysOut y = 0" using no take by (metis gr0I)
  show "sysPhase y = Stopped \<or> sysPhase y = Waiting \<and> \<not> hasTick y \<and> isOpen y"
  proof (cases "sysPhase y")
    case Waiting
    with no tick closed show ?thesis by blast
  next
    case Ticked
    with no read[OF Ticked readAll_lister] show ?thesis by blast
  next
    case (Read kv)
    with no swap show ?thesis by blast
  next
    case Swapped
    with no send out show ?thesis by blast
  qed simp
qed

lemma fan_steps_sys: "fanStep\<^sup>*\<^sup>* y y' \<Longrightarrow> sysStep\<^sup>*\<^sup>* y y'"
  by (induction rule: rtranclp_induct) (auto intro: sysStep.fan rtranclp.rtrancl_into_rtrancl)


section \<open>Properties\<close>

text \<open>
  C11: A pushed source catches up. Start from a source whose cache is what the backend holds when it
  subscribes, and let writes to the backend, other subscriptions, its closing and the steps of the
  source interleave in any way. From every state reached, the source's own steps come to an end, and
  where they end the cache holds exactly the backend's keys below the prefix; if the cache was behind,
  its consumer has been sent a change since.
\<close>

theorem push_catches_up:
  assumes "rsCache s = viewOf m (rsPrefix s)" and "sysStep\<^sup>*\<^sup>* (watchFrom m s) y"
  shows "(\<exists>y'. fanStep\<^sup>*\<^sup>* y y' \<and> fanQuiet y')
    \<and> (\<forall>y'. fanStep\<^sup>*\<^sup>* y y' \<and> fanQuiet y' \<longrightarrow>
         rsCache (sysSource y') = viewOf (sysBackend y) (rsPrefix (sysSource y))
         \<and> (rsCache (sysSource y) \<noteq> viewOf (sysBackend y) (rsPrefix (sysSource y)) \<longrightarrow> sysTaken y < sysTaken y'))"
proof (rule conjI, rule fan_ends, rule allI, rule impI, erule conjE)
  fix y' assume run: "fanStep\<^sup>*\<^sup>* y y'" and quiet: "fanQuiet y'"
  have "sysInv y'"
    using run_inv[OF fan_steps_sys[OF run]] run_inv[OF assms(2) watchFrom_inv[OF assms(1)]] by blast
  then have "current y'" using quiet_phase[OF quiet] by (auto simp: sysInv_def)
  then have cache: "rsCache (sysSource y') = viewOf (sysBackend y) (rsPrefix (sysSource y))"
    using fanRun_frame[OF run] by (simp add: current_def)
  have "promised y' = sysTaken y'" using quiet_phase[OF quiet] by (auto simp: promised_def)
  moreover have "sysTaken y \<le> promised y" by (simp add: promised_def)
  ultimately show "rsCache (sysSource y') = viewOf (sysBackend y) (rsPrefix (sysSource y))
         \<and> (rsCache (sysSource y) \<noteq> viewOf (sysBackend y) (rsPrefix (sysSource y)) \<longrightarrow> sysTaken y < sysTaken y')"
    using cache fanRun_frame[OF run, of "[]"] by (auto intro: order.strict_trans1)
qed


definition demoRemote :: remoteSource where
  "demoRemote = \<lparr>rsName = ''remote'', rsPrefix = [], rsPoll = 0, rsTrim = False, rsCache = [], rsKeyList = []\<rparr>"

lemma push_catches_up_witness:
  "\<exists>y' :: remoteSys. rsCache (sysSource y') = [(''a'', ''1'')] \<and> 0 < sysTaken y'"
proof -
  let ?y = "watchFrom NewInMemoryBackend demoRemote"
  define z where "z = ?y\<lparr>sysBackend := memPut ''a'' ''1'' (sysBackend ?y)\<rparr>"
  have start: "rsCache demoRemote = viewOf NewInMemoryBackend (rsPrefix demoRemote)"
    by (simp add: demoRemote_def viewOf_def NewInMemoryBackend_def)
  have "isOpen z" by (simp add: z_def isOpen_def watchFrom_def memWatch_def NewInMemoryBackend_def memPut_def notifyAll_def)
  then have run: "sysStep\<^sup>*\<^sup>* ?y z"
    unfolding z_def by (intro r_into_rtranclp sysStep.env memStep.put) simp
  obtain y' where y': "fanStep\<^sup>*\<^sup>* z y'" "fanQuiet y'" using push_catches_up[OF start run] by blast
  have "viewOf (sysBackend z) (rsPrefix (sysSource z)) = [(''a'', ''1'')]" "rsCache (sysSource z) = []" "sysTaken z = 0"
    by (simp_all add: z_def watchFrom_def memWatch_def NewInMemoryBackend_def memPut_def viewOf_def demoRemote_def)
  with push_catches_up[OF start run] y' show ?thesis by (auto intro: exI[of _ y'])
qed

text \<open>
  The start matters: a write between the read of the construction and the subscription stays unseen,
  until some later write. (A file source checks for this when its watch starts.)
\<close>

lemma gap_unseen:
  assumes "rsCache s = viewOf m (rsPrefix s)" and "\<not> mbClosed m"
    and "viewOf (memPut k v m) (rsPrefix s) \<noteq> viewOf m (rsPrefix s)"
    and "\<forall>(c, tick) \<in> set (mbSubs m). c < mbNext m" and "\<forall>c \<in> set (mbLeft m). c < mbNext m"
  shows "fanQuiet (watchFrom (memPut k v m) s)" and "\<not> current (watchFrom (memPut k v m) s)"
proof -
  let ?y = "watchFrom (memPut k v m) s"
  have y: "sysPhase ?y = Waiting" "sysOut ?y = 0" "isOpen ?y" "\<not> hasTick ?y"
    using assms(2,4,5) by (auto simp: watchFrom_def memWatch_def memPut_def isOpen_def hasTick_def notifyAll_def)
  then show "fanQuiet ?y" by (auto simp: fanQuiet_def elim!: fanStepE)
  show "\<not> current ?y" using assms by (simp add: current_def watchFrom_def memWatch_def memPut_def viewOf_def)
qed

text \<open>
  The two ways a source reads its backend agree: one call for all values, or a list of keys and one
  call for each, give the keys below the prefix with the values the backend holds.
\<close>

theorem readAll_ways_agree:
  assumes "mwf (mbData m)"
  shows "readAll (memAsBackend True m) s = readAll (memAsBackend False m) s"
    and "readAll (memAsBackend True m) s = Inr kv \<Longrightarrow>
         mget kv k = (if rsPrefix s = [] \<or> hasPrefix k (rsPrefix s) then mget (mbData m) k else None)"
  using assms by (auto simp: readAll_lister readAll_keys mget_viewOf)

lemma readAll_ways_agree_witness:
  "readAll (memAsBackend True (memPut ''a'' ''1'' NewInMemoryBackend)) demoRemote
   = readAll (memAsBackend False (memPut ''a'' ''1'' NewInMemoryBackend)) demoRemote"
  by (rule readAll_ways_agree) (simp add: memPut_def NewInMemoryBackend_def)


section \<open>The contract of a source\<close>

text \<open>Every cached key must lead to a path: an untrimmed key is not empty, a trimmed one more than the prefix.\<close>

definition remoteOk :: "remoteSource \<Rightarrow> bool" where
  "remoteOk s = (rsKeyList s = sort (mkeys (rsCache s)) \<and>
     (\<forall>k \<in> set (rsKeyList s). if rsTrim s \<and> rsPrefix s \<noteq> [] then hasPrefix k (rsPrefix s) \<and> k \<noteq> rsPrefix s else k \<noteq> []))"

lemma lookup_keyToPath:
  assumes "if rsTrim s \<and> rsPrefix s \<noteq> [] then hasPrefix k (rsPrefix s) \<and> k \<noteq> rsPrefix s else k \<noteq> []"
  shows "keyToPath s k \<noteq> [] \<and> remoteLookupKey s (keyToPath s k) = k"
proof (cases "rsTrim s \<and> rsPrefix s \<noteq> []")
  case True
  with assms obtain r where "k = rsPrefix s @ r" "r \<noteq> []" by (auto simp: hasPrefix_iff)
  with True show ?thesis by (simp add: keyToPath_def remoteLookupKey_def trimPrefix_def join_split_byte)
next
  case False
  with assms show ?thesis by (auto simp: keyToPath_def remoteLookupKey_def join_split_byte)
qed

interpretation remote_source: source_contract remoteGet remoteKeys remoteOk
proof
  show "remoteGet s p \<noteq> Inl e" for s p e by (simp add: remoteGet_def)
  show "sorted (map pathString (remoteKeys s))" for s by (simp add: remoteKeys_def sortPaths_sort_key sort_key_sorted)
next
  fix s p assume "remoteOk s" "p \<in> set (remoteKeys s)"
  then obtain k where k: "k \<in> set (rsKeyList s)" "p = keyToPath s k" by (auto simp: remoteKeys_def)
  with \<open>remoteOk s\<close> have "p \<noteq> [] \<and> remoteLookupKey s p = k" and "k \<in> set (mkeys (rsCache s))"
    using lookup_keyToPath[of s k] by (auto simp: remoteOk_def)
  then show "\<exists>v. remoteGet s p = Inr (Some v)" by (simp add: remoteGet_def mkeys_iff)
qed

text \<open>
  A key equal to the trimmed prefix is listed as the empty path, which \<open>Get\<close> never answers.
\<close>

lemma prefix_key_unreadable:
  assumes "rsTrim s" and "rsPrefix s \<noteq> []" and "rsPrefix s \<in> set (rsKeyList s)"
  shows "[] \<in> set (remoteKeys s)" and "remoteGet s [] = Inr None"
proof -
  have "keyToPath s (rsPrefix s) = []"
    using assms(1,2) hasPrefix_append[of "rsPrefix s" "[]"] by (simp add: keyToPath_def trimPrefix_def del: hasPrefix_append)
  with assms(3) show "[] \<in> set (remoteKeys s)" by (force simp: remoteKeys_def)
qed (simp add: remoteGet_def)

end
