(* ===== verification/Watch.thy ===== *)
theory Watch
  imports RegistryTheorems
begin

text \<open>
  \<open>watch.go\<close> and \<open>events.go\<close>: the watch engine. Its goroutines are steps of one state machine: a
  forwarder holds a change until the channel of pending changes has room, the loop takes one change
  or one tick of its timer at a time, and a reload is three steps, because the snapshot is read
  before the registry's lock is taken and after it is released. The program's other calls
  (operations of the registry, sources that change, the reader of the events) interleave with them.

  A channel is a list with a capacity. The timer is stopped, running or has its tick in its channel;
  the clock decides when it fires, so a tick may come at any moment while it runs. What a source can
  watch is a parameter of the subscription. The time stamp of an event is left out, and so is the
  log.
\<close>

record change =
  pcSrc :: string
  pcErr :: "string option"

datatype eventErr = SourceFailed string | ReloadFailed regError

record event =
  evSource :: string
  evChanged :: "path list"
  evErr :: "eventErr option"
  evWarnings :: "deprecation list"

datatype timer = Stopped | Running | Fired

datatype loopState =
    Idle
  | Loaded string "snapshot option"
  | Rebuilt string "snapshot option" "regError option"
  | Exited

datatype watchability = NotWatcher | WatchFails | Watches

record engine =
  weReg :: registry
  weCancelled :: bool
  wePending :: "change list"
  wePendingCap :: nat
  weHeld :: "change list"
  weEvents :: "event list"
  weBufSize :: nat
  weDropped :: nat
  weSubs :: "string list"
  wePolling :: bool
  weTimer :: timer
  weLastSrc :: string
  weLoop :: loopState


section \<open>Construction and subscriptions\<close>

definition newWatchEngine :: "int \<Rightarrow> registry \<Rightarrow> engine" where
  "newWatchEngine eventBufSize r =
     \<lparr>weReg = r, weCancelled = False, wePending = [], wePendingCap = length (rgSources r) + 1,
      weHeld = [], weEvents = [], weBufSize = (if eventBufSize \<le> 0 then 16 else nat eventBufSize),
      weDropped = 0, weSubs = [], wePolling = False, weTimer = Stopped, weLastSrc = [], weLoop = Idle\<rparr>"

definition subscribeLocked :: "(source \<Rightarrow> watchability) \<Rightarrow> bool \<Rightarrow> source \<Rightarrow> engine \<Rightarrow> engine" where
  "subscribeLocked kind polls src e =
     (if weCancelled e then e
      else case kind src of
             NotWatcher \<Rightarrow> (if polls \<and> \<not> wePolling e then e\<lparr>wePolling := True\<rparr> else e)
           | WatchFails \<Rightarrow> e
           | Watches \<Rightarrow> e\<lparr>weSubs := List.insert (srcName src) (weSubs e)\<rparr>)"

definition unsubscribeLocked :: "string \<Rightarrow> engine \<Rightarrow> engine" where
  "unsubscribeLocked name e = e\<lparr>weSubs := filter (\<lambda>n. n \<noteq> name) (weSubs e)\<rparr>"

definition startEngine :: "(source \<Rightarrow> watchability) \<Rightarrow> bool \<Rightarrow> engine \<Rightarrow> engine" where
  "startEngine kind polls e = fold (subscribeLocked kind polls) (rgSources (weReg e)) e"

text \<open>The subscription calls an operation of the registry makes when it succeeds.\<close>

fun followOp :: "(source \<Rightarrow> watchability) \<Rightarrow> bool \<Rightarrow> regOp \<Rightarrow> regError option \<Rightarrow> engine \<Rightarrow> engine" where
  "followOp kind polls (OpAddSource (Some s)) None e = subscribeLocked kind polls s e"
| "followOp kind polls (OpInsertSource at (Some s)) None e = subscribeLocked kind polls s e"
| "followOp kind polls (OpRemoveSource name) None e = unsubscribeLocked name e"
| "followOp kind polls op err e = e"


section \<open>Differences of snapshots\<close>

definition snapshotKeyValues :: "snapshot option \<Rightarrow> govalue gomap" where
  "snapshotKeyValues s =
     (case s of
        None \<Rightarrow> []
      | Some s \<Rightarrow> fold (\<lambda>p out. if mhas (snAliases s) (pathString p) then out
                               else mput (pathString p) (valueAt s (pathString p)) out) (snKeys s) [])"

definition changedKeys :: "govalue gomap \<Rightarrow> govalue gomap \<Rightarrow> string list" where
  "changedKeys prev cur =
     sort (filter (\<lambda>k. case (mget prev k, mget cur k) of
                         (Some a, Some b) \<Rightarrow> \<not> valuesEqual a b | _ \<Rightarrow> True) (mkeys cur)
           @ filter (\<lambda>k. \<not> mhas cur k) (mkeys prev))"

definition diffSnapshots :: "snapshot option \<Rightarrow> snapshot option \<Rightarrow> path list" where
  "diffSnapshots prev cur =
     (if prev = None \<and> cur = None then []
      else map ParsePath (changedKeys (snapshotKeyValues prev) (snapshotKeyValues cur)))"


section \<open>Events\<close>

definition dropWarning :: "nat \<Rightarrow> deprecation" where
  "dropWarning n =
     \<lparr>dwPath = [], dwSource = [], dwReplacement = [],
      dwMessage = ''recon: '' @ formatNat n @ '' reload '' @ (if n = 1 then ''event was'' else ''events were'')
        @ '' dropped because the Events channel was full''\<rparr>"

definition emit :: "event \<Rightarrow> engine \<Rightarrow> engine" where
  "emit evt e =
     (let n = weDropped e;
          evt' = (if 0 < n then evt\<lparr>evWarnings := evWarnings evt @ [dropWarning n]\<rparr> else evt)
      in if length (weEvents e) < weBufSize e
         then e\<lparr>weEvents := weEvents e @ [evt'], weDropped := 0\<rparr>
         else e\<lparr>weDropped := n + 1\<rparr>)"


section \<open>The loop\<close>

text \<open>A pending change: an error is reported at once, anything else restarts the timer.\<close>

definition receiveChange :: "change \<Rightarrow> engine \<Rightarrow> engine" where
  "receiveChange p e =
     (let e1 = e\<lparr>weLastSrc := pcSrc p\<rparr>
      in case pcErr p of
           Some err \<Rightarrow> emit \<lparr>evSource = pcSrc p, evChanged = [], evErr = Some (SourceFailed err), evWarnings = []\<rparr> e1
         | None \<Rightarrow> e1\<lparr>weTimer := Running\<rparr>)"

text \<open>\<open>fireReload\<close>: the tick, the rebuild under the lock, the event.\<close>

definition startReload :: "engine \<Rightarrow> engine" where
  "startReload e = e\<lparr>weTimer := Stopped, weLoop := Loaded (weLastSrc e) (rgSnapshot (weReg e))\<rparr>"

definition rebuildLocked :: "string \<Rightarrow> snapshot option \<Rightarrow> engine \<Rightarrow> engine" where
  "rebuildLocked src prev e =
     (case rebuildSnapshot (weReg e) of (err, r) \<Rightarrow> e\<lparr>weReg := r, weLoop := Rebuilt src prev err\<rparr>)"

definition finishReload :: "string \<Rightarrow> snapshot option \<Rightarrow> regError option \<Rightarrow> engine \<Rightarrow> engine" where
  "finishReload src prev err e =
     (let changed = (if err = None then diffSnapshots prev (rgSnapshot (weReg e)) else []);
          (ws, r) = DrainWarnings (weReg e)
      in emit \<lparr>evSource = src, evChanged = changed, evErr = map_option ReloadFailed err, evWarnings = ws\<rparr>
           (e\<lparr>weReg := r, weLoop := Idle, weLastSrc := []\<rparr>))"


section \<open>Steps\<close>

text \<open>The engine's own steps. The flag says whether the step rebuilt the snapshot.\<close>

inductive internal :: "engine \<Rightarrow> bool \<Rightarrow> engine \<Rightarrow> bool" where
  deliver: "weHeld e = ps @ p # qs \<Longrightarrow> length (wePending e) < wePendingCap e \<Longrightarrow>
    internal e False (e\<lparr>weHeld := ps @ qs, wePending := wePending e @ [p]\<rparr>)"
| receive: "weLoop e = Idle \<Longrightarrow> wePending e = p # ps \<Longrightarrow>
    internal e False (receiveChange p (e\<lparr>wePending := ps\<rparr>))"
| expire: "weTimer e = Running \<Longrightarrow> internal e False (e\<lparr>weTimer := Fired\<rparr>)"
| tick: "weLoop e = Idle \<Longrightarrow> weTimer e = Fired \<Longrightarrow> internal e False (startReload e)"
| rebuild: "weLoop e = Loaded src prev \<Longrightarrow> internal e True (rebuildLocked src prev e)"
| finish: "weLoop e = Rebuilt src prev err \<Longrightarrow> internal e False (finishReload src prev err e)"

text \<open>
  What happens around it (a forwarder may also hold several changes, more than the code allows): a subscribed source or the poll ticker reports a change, a source's
  content changes, the reader takes an event, the program calls the registry, the engine is
  stopped.
\<close>

definition changeSource :: "string \<Rightarrow> (path \<Rightarrow> string + govalue option) \<Rightarrow> path list \<Rightarrow> registry \<Rightarrow> registry" where
  "changeSource name get ks r =
     r\<lparr>rgSources := map (\<lambda>s. if srcName s = name then s\<lparr>srcGet := get, srcKeys := ks\<rparr> else s) (rgSources r)\<rparr>"

inductive external :: "(source \<Rightarrow> watchability) \<Rightarrow> bool \<Rightarrow> engine \<Rightarrow> engine \<Rightarrow> bool" for kind polls where
  report: "\<not> weCancelled e \<Longrightarrow> pcSrc p \<in> set (weSubs e) \<Longrightarrow>
    external kind polls e (e\<lparr>weHeld := weHeld e @ [p]\<rparr>)"
| pollTick: "\<not> weCancelled e \<Longrightarrow> wePolling e \<Longrightarrow>
    external kind polls e (e\<lparr>weHeld := weHeld e @ [\<lparr>pcSrc = ''poll'', pcErr = None\<rparr>]\<rparr>)"
| content: "external kind polls e (e\<lparr>weReg := changeSource name get ks (weReg e)\<rparr>)"
| take: "weEvents e = evt # evts \<Longrightarrow> external kind polls e (e\<lparr>weEvents := evts\<rparr>)"
| call: "op \<noteq> OpClose \<Longrightarrow> applyOp op (weReg e) = (err, r) \<Longrightarrow>
    external kind polls e (followOp kind polls op err (e\<lparr>weReg := r\<rparr>))"
| cancel: "external kind polls e (e\<lparr>weCancelled := True\<rparr>)"
| giveUp: "weCancelled e \<Longrightarrow> weHeld e = ps @ p # qs \<Longrightarrow> external kind polls e (e\<lparr>weHeld := ps @ qs\<rparr>)"
| exit: "weCancelled e \<Longrightarrow> weLoop e = Idle \<Longrightarrow> external kind polls e (e\<lparr>weLoop := Exited\<rparr>)"

inductive_cases internalE: "internal e b e'"
inductive_cases externalE: "external kind polls e e'"

inductive engineReachable :: "(source \<Rightarrow> watchability) \<Rightarrow> bool \<Rightarrow> engine \<Rightarrow> bool" for kind polls where
  start: "reachable r \<Longrightarrow> engineReachable kind polls (startEngine kind polls (newWatchEngine bufSize r))"
| inside: "engineReachable kind polls e \<Longrightarrow> internal e b e' \<Longrightarrow> engineReachable kind polls e'"
| outside: "engineReachable kind polls e \<Longrightarrow> external kind polls e e' \<Longrightarrow> engineReachable kind polls e'"

text \<open>A run of the engine's own steps, with the rebuilds it makes.\<close>

inductive engineRun :: "engine \<Rightarrow> nat \<Rightarrow> nat \<Rightarrow> engine \<Rightarrow> bool" where
  done_run: "engineRun e 0 0 e"
| step_run: "internal e b e1 \<Longrightarrow> engineRun e1 n k e2 \<Longrightarrow>
    engineRun e (Suc n) (if b then Suc k else k) e2"

definition quiet :: "engine \<Rightarrow> bool" where
  "quiet e = (weHeld e = [] \<and> wePending e = [] \<and> weTimer e = Stopped \<and> weLoop e = Idle)"

definition waiting :: "engine \<Rightarrow> bool" where
  "waiting e = ((\<exists>p \<in> set (weHeld e @ wePending e). pcErr p = None) \<or> weTimer e \<noteq> Stopped
     \<or> (\<exists>src prev. weLoop e = Loaded src prev))"

definition timerWork :: "timer \<Rightarrow> nat" where
  "timerWork t = (case t of Stopped \<Rightarrow> 0 | Running \<Rightarrow> 5 | Fired \<Rightarrow> 4)"

definition loopWork :: "loopState \<Rightarrow> nat" where
  "loopWork l = (case l of Loaded _ _ \<Rightarrow> 2 | Rebuilt _ _ _ \<Rightarrow> 1 | _ \<Rightarrow> 0)"

definition work :: "engine \<Rightarrow> nat" where
  "work e = 7 * length (weHeld e) + 6 * length (wePending e) + timerWork (weTimer e) + loopWork (weLoop e)"



section \<open>Frames\<close>

lemma emit_frame [simp]:
  "weReg (emit evt e) = weReg e" "weHeld (emit evt e) = weHeld e" "wePending (emit evt e) = wePending e"
  "wePendingCap (emit evt e) = wePendingCap e" "weTimer (emit evt e) = weTimer e"
  "weLoop (emit evt e) = weLoop e" "weBufSize (emit evt e) = weBufSize e" "weLastSrc (emit evt e) = weLastSrc e"
  by (simp_all add: emit_def Let_def)

lemma receive_frame [simp]:
  "weReg (receiveChange p e) = weReg e" "weHeld (receiveChange p e) = weHeld e"
  "wePending (receiveChange p e) = wePending e" "wePendingCap (receiveChange p e) = wePendingCap e"
  "weLoop (receiveChange p e) = weLoop e"
  "weTimer (receiveChange p e) = (if pcErr p = None then Running else weTimer e)"
  by (simp_all add: receiveChange_def Let_def split: option.splits)

lemma DrainWarnings_snd: "snd (DrainWarnings r) = r\<lparr>rgWarnings := []\<rparr>"
  by (simp add: DrainWarnings_def)

lemma finish_frame [simp]:
  "weReg (finishReload src prev err e) = (weReg e)\<lparr>rgWarnings := []\<rparr>" "weHeld (finishReload src prev err e) = weHeld e"
  "wePending (finishReload src prev err e) = wePending e" "wePendingCap (finishReload src prev err e) = wePendingCap e"
  "weLoop (finishReload src prev err e) = Idle" "weTimer (finishReload src prev err e) = weTimer e"
  using DrainWarnings_snd[of "weReg e"]
  by (auto simp: finishReload_def Let_def split: prod.splits)

lemma rebuild_frames [simp]:
  "weHeld (rebuildLocked src prev e) = weHeld e" "wePending (rebuildLocked src prev e) = wePending e"
  "wePendingCap (rebuildLocked src prev e) = wePendingCap e" "weTimer (rebuildLocked src prev e) = weTimer e"
  "weReg (rebuildLocked src prev e) = snd (rebuildSnapshot (weReg e))"
  "weLoop (rebuildLocked src prev e) = Rebuilt src prev (fst (rebuildSnapshot (weReg e)))"
  by (simp_all add: rebuildLocked_def split: prod.splits)

lemma start_frame [simp]:
  "weHeld (startReload e) = weHeld e" "wePending (startReload e) = wePending e"
  "wePendingCap (startReload e) = wePendingCap e" "weTimer (startReload e) = Stopped" "weReg (startReload e) = weReg e"
  "weLoop (startReload e) = Loaded (weLastSrc e) (rgSnapshot (weReg e))"
  by (simp_all add: startReload_def)

lemma subscribe_frame [simp]:
  "weLoop (subscribeLocked kind polls s e) = weLoop e" "wePendingCap (subscribeLocked kind polls s e) = wePendingCap e"
  "weBufSize (subscribeLocked kind polls s e) = weBufSize e" "weEvents (subscribeLocked kind polls s e) = weEvents e"
  by (auto simp: subscribeLocked_def split: watchability.splits)

lemma follow_frame [simp]:
  "weLoop (followOp kind polls op err e) = weLoop e" "wePendingCap (followOp kind polls op err e) = wePendingCap e"
  "weBufSize (followOp kind polls op err e) = weBufSize e" "weEvents (followOp kind polls op err e) = weEvents e"
  by (cases "(kind, polls, op, err, e)" rule: followOp.cases; simp add: unsubscribeLocked_def)+


section \<open>The engine comes to rest\<close>

lemma internal_work: "internal e b e' \<Longrightarrow> work e' < work e"
  by (erule internalE) (auto simp: work_def timerWork_def loopWork_def split: timer.splits)

lemma run_work: "engineRun e n k e' \<Longrightarrow> n + work e' \<le> work e"
  by (induction rule: engineRun.induct) (auto dest: internal_work)

lemma internal_progress:
  assumes "\<not> quiet e" and "weLoop e \<noteq> Exited" and "0 < wePendingCap e"
  shows "\<exists>b e'. internal e b e'"
proof (cases "weLoop e")
  case Idle
  show ?thesis
  proof (cases "wePending e")
    case Nil
    show ?thesis
    proof (cases "weHeld e")
      case Nil': Nil
      with assms(1) Idle Nil have "weTimer e = Running \<or> weTimer e = Fired"
        by (cases "weTimer e") (auto simp: quiet_def)
      then show ?thesis using Idle by (blast intro: internal.expire internal.tick)
    next
      case (Cons p ps)
      then show ?thesis using internal.deliver[of e "[]" p ps] assms(3) Nil by auto
    qed
  qed (use Idle in \<open>blast intro: internal.receive\<close>)
qed (use assms in \<open>blast intro: internal.rebuild internal.finish\<close>)+

lemma internal_cap: "internal e b e' \<Longrightarrow> wePendingCap e' = wePendingCap e"
  by (erule internalE) simp_all

lemma internal_exited: "internal e b e' \<Longrightarrow> weLoop e' = Exited \<longleftrightarrow> weLoop e = Exited"
  by (erule internalE) auto

lemma external_cap: "external kind polls e e' \<Longrightarrow> wePendingCap e' = wePendingCap e"
  by (erule externalE) simp_all

lemma start_cap: "wePendingCap (startEngine kind polls e) = wePendingCap e"
proof -
  have "wePendingCap (fold (subscribeLocked kind polls) ss e) = wePendingCap e" for ss
    by (induction ss arbitrary: e) simp_all
  then show ?thesis by (simp add: startEngine_def)
qed

lemma reachable_cap: "engineReachable kind polls e \<Longrightarrow> 0 < wePendingCap e"
  by (induction rule: engineReachable.induct)
    (simp_all add: start_cap newWatchEngine_def internal_cap external_cap)

lemma run_frame: "engineRun e n k e' \<Longrightarrow> wePendingCap e' = wePendingCap e \<and> (weLoop e' = Exited \<longleftrightarrow> weLoop e = Exited)"
  by (induction rule: engineRun.induct) (auto simp: internal_cap internal_exited)

lemma run_to_quiet:
  assumes "weLoop e \<noteq> Exited" and "0 < wePendingCap e"
  shows "\<exists>n k e'. engineRun e n k e' \<and> quiet e'"
  using assms
proof (induction "work e" arbitrary: e rule: less_induct)
  case less
  show ?case
  proof (cases "quiet e")
    case True
    then show ?thesis using done_run by blast
  next
    case False
    then obtain b e1 where s: "internal e b e1" using internal_progress less.prems by blast
    then obtain n k e' where "engineRun e1 n k e'" "quiet e'"
      using less.hyps[OF internal_work[OF s]] less.prems internal_cap[OF s] internal_exited[OF s] by auto
    then show ?thesis using step_run[OF s] by blast
  qed
qed

lemma waiting_kept: "internal e False e' \<Longrightarrow> waiting e \<Longrightarrow> waiting e'"
  by (erule internalE) (auto simp: waiting_def split: if_splits)

lemma run_rebuilds: "engineRun e n k e' \<Longrightarrow> waiting e \<Longrightarrow> k = 0 \<Longrightarrow> waiting e'"
  by (induction rule: engineRun.induct) (auto dest: waiting_kept split: if_splits)

lemma quiet_not_waiting: "quiet e \<Longrightarrow> \<not> waiting e"
  by (simp add: quiet_def waiting_def)


section \<open>What the reloads leave\<close>

definition afterRebuild :: "registry \<Rightarrow> snapshot option" where
  "afterRebuild r = (case rebuildSnapshot r of (None, r') \<Rightarrow> rgSnapshot r' | (Some e, r') \<Rightarrow> rgSnapshot r)"

lemma rebuild_ignores:
  "rebuildSnapshot (r\<lparr>rgSnapshot := s, rgWarnings := w\<rparr>)
     = (case rebuildSnapshot r of
          (None, r') \<Rightarrow> (None, r'\<lparr>rgWarnings := w\<rparr>)
        | (Some e, r') \<Rightarrow> (Some e, r\<lparr>rgSnapshot := s, rgWarnings := w\<rparr>))"
proof -
  have "inputsOf (r\<lparr>rgSnapshot := s, rgWarnings := w\<rparr>) = inputsOf r"
    "checkImmutable (r\<lparr>rgSnapshot := s, rgWarnings := w\<rparr>) = checkImmutable r"
    "validateCandidate (r\<lparr>rgSnapshot := s, rgWarnings := w\<rparr>) = validateCandidate r"
    by (simp_all add: inputsOf_def checkImmutable_def immutableError_def validateCandidate_def fun_eq_iff Let_def
        cong: deep_cong bool.case_cong)
  then show ?thesis
    unfolding rebuildSnapshot_def rebuildCandidate_def by (simp add: Let_def split: list.splits)
qed

lemma after_again:
  assumes "s = rgSnapshot r \<or> s = afterRebuild r"
  shows "afterRebuild (r\<lparr>rgSnapshot := s, rgWarnings := w\<rparr>) = afterRebuild r"
  using assms by (auto simp: afterRebuild_def rebuild_ignores split: prod.splits option.splits)

lemma rebuild_after: "\<exists>w. snd (rebuildSnapshot r) = r\<lparr>rgSnapshot := afterRebuild r, rgWarnings := w\<rparr>"
proof -
  have "snd (rebuildSnapshot r) = r\<lparr>rgSnapshot := afterRebuild r, rgWarnings := rgWarnings r\<rparr>"
    using rebuild_cases[of r] by (auto simp: afterRebuild_def)
  then show ?thesis ..
qed

lemma keep_registry: "\<exists>w. r = r\<lparr>rgSnapshot := rgSnapshot r, rgWarnings := w\<rparr>"
  "\<exists>w. r\<lparr>rgWarnings := v\<rparr> = r\<lparr>rgSnapshot := rgSnapshot r, rgWarnings := w\<rparr>"
  by (rule exI[of _ "rgWarnings r"], simp) (rule exI[of _ v], simp)

lemma internal_registry:
  "internal e b e' \<Longrightarrow> \<exists>w. weReg e' = (weReg e)\<lparr>rgSnapshot :=
      (if b then afterRebuild (weReg e) else rgSnapshot (weReg e)), rgWarnings := w\<rparr>"
  using rebuild_after[of "weReg e"] keep_registry(1)[of "weReg e"] keep_registry(2)[where r = "weReg e" and v = "[]"]
  by (erule_tac internalE) simp_all

lemma run_registry:
  "engineRun e n k e' \<Longrightarrow> \<exists>w. weReg e' = (weReg e)\<lparr>rgSnapshot :=
      (if k = 0 then rgSnapshot (weReg e) else afterRebuild (weReg e)), rgWarnings := w\<rparr>"
proof (induction rule: engineRun.induct)
  case (done_run e)
  show ?case using keep_registry(1)[of "weReg e"] by simp
next
  case (step_run e b e1 n k e2)
  obtain w where w: "weReg e1 = (weReg e)\<lparr>rgSnapshot :=
      (if b then afterRebuild (weReg e) else rgSnapshot (weReg e)), rgWarnings := w\<rparr>"
    using internal_registry[OF step_run.hyps(1)] by blast
  have "afterRebuild (weReg e1) = afterRebuild (weReg e)" unfolding w by (rule after_again) simp
  then show ?case using step_run.IH w by auto
qed


section \<open>Counting events\<close>

datatype emitAct = Emit event | Take

fun runAct :: "emitAct \<Rightarrow> engine \<times> event list \<Rightarrow> engine \<times> event list" where
  "runAct (Emit evt) (e, got) = (emit evt e, got)"
| "runAct Take (e, got) =
     (case weEvents e of [] \<Rightarrow> (e, got) | evt # evts \<Rightarrow> (e\<lparr>weEvents := evts\<rparr>, got @ [evt]))"

definition announces :: "nat \<Rightarrow> event \<Rightarrow> bool" where
  "announces n evt = (n = 0 \<or> dropWarning n \<in> set (evWarnings evt))"

definition accounted :: "nat \<Rightarrow> nat \<Rightarrow> engine \<times> event list \<Rightarrow> bool" where
  "accounted emits cap = (\<lambda>(e, got).
     weBufSize e = cap \<and> length (weEvents e) \<le> cap \<and>
     (\<exists>ns. list_all2 announces ns (got @ weEvents e)
        \<and> emits = length (got @ weEvents e) + sum_list ns + weDropped e))"

fun isEmit :: "emitAct \<Rightarrow> bool" where
  "isEmit (Emit evt) = True"
| "isEmit Take = False"

lemma accounted_step:
  assumes "accounted m cap st"
  shows "accounted (m + (if isEmit a then 1 else 0)) cap (runAct a st)"
proof -
  obtain e got where st: "st = (e, got)" by force
  obtain ns where ns: "weBufSize e = cap" "length (weEvents e) \<le> cap" "list_all2 announces ns (got @ weEvents e)"
    "m = length (got @ weEvents e) + sum_list ns + weDropped e"
    using assms by (auto simp: accounted_def st)
  show ?thesis
  proof (cases a)
    case (Emit evt)
    show ?thesis
    proof (cases "length (weEvents e) < cap")
      case True
      define evt' where "evt' = (if 0 < weDropped e then evt\<lparr>evWarnings := evWarnings evt @ [dropWarning (weDropped e)]\<rparr> else evt)"
      have "announces (weDropped e) evt'" by (simp add: announces_def evt'_def)
      then have "list_all2 announces (ns @ [weDropped e]) (got @ weEvents e @ [evt'])"
        using list_all2_appendI[OF ns(3), of "[weDropped e]" "[evt']"] by simp
      moreover have "emit evt e = e\<lparr>weEvents := weEvents e @ [evt'], weDropped := 0\<rparr>"
        using True ns(1) by (simp add: emit_def evt'_def Let_def)
      ultimately show ?thesis using ns True
        by (auto simp: accounted_def st Emit intro!: exI[of _ "ns @ [weDropped e]"])
    next
      case False
      then have "emit evt e = e\<lparr>weDropped := weDropped e + 1\<rparr>" using ns(1) by (simp add: emit_def Let_def)
      then show ?thesis using ns by (auto simp: accounted_def st Emit intro!: exI[of _ ns])
    qed
  next
    case Take
    then show ?thesis using ns by (cases "weEvents e") (auto simp: accounted_def st intro!: exI[of _ ns])
  qed
qed

lemma accounted_run: "accounted m cap st \<Longrightarrow> accounted (m + length (filter isEmit acts)) cap (fold runAct acts st)"
proof (induction acts arbitrary: m st)
  case (Cons a acts)
  from Cons.IH[OF accounted_step[OF Cons.prems, of a]] show ?case by (auto split: if_splits)
qed simp


section \<open>Exactness of the difference\<close>

lemma snapshotKeyValues_mwf: "mwf (snapshotKeyValues s)"
proof -
  have "mwf m \<Longrightarrow> mwf (fold (\<lambda>p out. if mhas al (pathString p) then out
      else mput (pathString p) (f p) out) ps m)" for m :: "govalue gomap" and al :: "string gomap" and f ps
    by (induction ps arbitrary: m) auto
  then show ?thesis by (auto simp: snapshotKeyValues_def split: option.split)
qed

lemma set_changedKeys:
  "k \<in> set (changedKeys prev cur) \<longleftrightarrow>
     (case (mget prev k, mget cur k) of
        (Some a, Some b) \<Rightarrow> \<not> valuesEqual a b | (None, None) \<Rightarrow> False | _ \<Rightarrow> True)"
proof -
  have "k \<in> set (mkeys m) \<longleftrightarrow> mget m k \<noteq> None" for m :: "govalue gomap" by (simp add: mget_None_iff)
  then show ?thesis by (auto simp: changedKeys_def mhas_def split: option.splits)
qed

lemma changedKeys_distinct: "mwf prev \<Longrightarrow> mwf cur \<Longrightarrow> distinct (changedKeys prev cur)"
  using mwf_distinct[of prev] mwf_distinct[of cur] by (auto simp: changedKeys_def mhas_iff)


section \<open>Properties\<close>

text \<open>
  C7: A reported change is always followed by a reload. When a change waits anywhere (with a
  forwarder, in the channel, in the running timer), the engine's own steps, in whatever order they
  run, come to rest after at most \<open>work e\<close> of them, and only after at least one rebuild; it then holds
  the snapshot a rebuild of the registry's layers gives, or, if that rebuild is rejected, the one it
  had.
\<close>

theorem change_is_reloaded:
  assumes "engineReachable kind polls e" and "waiting e" and "weLoop e \<noteq> Exited"
  shows "(\<exists>n k e'. engineRun e n k e' \<and> quiet e')
    \<and> (\<forall>n k e'. engineRun e n k e' \<longrightarrow> n \<le> work e
        \<and> ((\<nexists>b e''. internal e' b e'') \<longrightarrow>
             quiet e' \<and> 0 < k \<and> rgSnapshot (weReg e') = afterRebuild (weReg e)))"
proof (intro conjI allI impI)
  have cap: "0 < wePendingCap e" using assms(1) by (rule reachable_cap)
  show "\<exists>n k e'. engineRun e n k e' \<and> quiet e'" using run_to_quiet[OF assms(3) cap] .
  fix n k e' assume run: "engineRun e n k e'"
  show "n \<le> work e" using run_work[OF run] by simp
  assume stuck: "\<nexists>b e''. internal e' b e''"
  have "weLoop e' \<noteq> Exited" "0 < wePendingCap e'" using run_frame[OF run] assms(3) cap by auto
  then show q: "quiet e'" using internal_progress stuck by blast
  then show k: "0 < k" using run_rebuilds[OF run assms(2)] quiet_not_waiting by blast
  show "rgSnapshot (weReg e') = afterRebuild (weReg e)" using run_registry[OF run] k by auto
qed

definition demoEngine :: engine where
  "demoEngine = startEngine (\<lambda>_. Watches) False (newWatchEngine 0 demoRegistry)"

definition demoWaiting :: engine where
  "demoWaiting = demoEngine\<lparr>weHeld := weHeld demoEngine @ [\<lparr>pcSrc = ''file'', pcErr = None\<rparr>]\<rparr>"

lemma demoEngine_fields: "weSubs demoEngine = [''env'', ''file'']" "\<not> weCancelled demoEngine" "weLoop demoEngine = Idle"
proof -
  obtain s1 s2 where s: "rgSources demoRegistry = [s1, s2]" "srcName s1 = ''file''" "srcName s2 = ''env''"
    using demoRegistry_facts(1) by (auto simp: map_eq_Cons_conv)
  show "weSubs demoEngine = [''env'', ''file'']" "\<not> weCancelled demoEngine" "weLoop demoEngine = Idle"
    by (simp_all add: demoEngine_def startEngine_def newWatchEngine_def s subscribeLocked_def)
qed

lemma demoWaiting_reachable: "engineReachable (\<lambda>_. Watches) False demoWaiting"
  unfolding demoWaiting_def
proof (rule engineReachable.outside)
  show "engineReachable (\<lambda>_. Watches) False demoEngine"
    unfolding demoEngine_def by (rule engineReachable.start[OF demoRegistry_reachable])
  show "external (\<lambda>_. Watches) False demoEngine
      (demoEngine\<lparr>weHeld := weHeld demoEngine @ [\<lparr>pcSrc = ''file'', pcErr = None\<rparr>]\<rparr>)"
    by (rule external.report) (simp_all add: demoEngine_fields)
qed

lemma change_is_reloaded_witness: "\<exists>n k e'. engineRun demoWaiting n k e' \<and> quiet e'"
  using change_is_reloaded[OF demoWaiting_reachable] demoEngine_fields
  by (simp add: demoWaiting_def waiting_def)


text \<open>
  C35: No event is lost silently. However the loop's events and the reader's takes interleave, every
  event is delivered, still in the channel, or counted: by the drop warnings of the events that got
  through, or by the number the next one will announce. The channel never exceeds its size.
\<close>

theorem events_accounted:
  assumes "weEvents e = []" and "weDropped e = 0" and "fold runAct acts (e, []) = (e', got)"
  shows "length (weEvents e') \<le> weBufSize e
    \<and> (\<exists>ns. list_all2 announces ns (got @ weEvents e')
         \<and> length (filter isEmit acts) = length (got @ weEvents e') + sum_list ns + weDropped e')"
proof -
  have "accounted 0 (weBufSize e) (e, [])" using assms(1,2) by (simp add: accounted_def)
  from accounted_run[OF this, of acts] show ?thesis by (auto simp: accounted_def assms(3))
qed

lemma events_accounted_witness:
  "\<exists>ns. list_all2 announces ns (weEvents (emit \<lparr>evSource = ''s'', evChanged = [], evErr = None, evWarnings = []\<rparr> demoEngine))
    \<and> 1 = length (weEvents (emit \<lparr>evSource = ''s'', evChanged = [], evErr = None, evWarnings = []\<rparr> demoEngine)) + sum_list ns
        + weDropped (emit \<lparr>evSource = ''s'', evChanged = [], evErr = None, evWarnings = []\<rparr> demoEngine)"
proof -
  have "weEvents (fold (subscribeLocked k p) ss e) = weEvents e" "weDropped (fold (subscribeLocked k p) ss e) = weDropped e"
    for k p ss e
    by (induction ss arbitrary: e) (auto simp: subscribeLocked_def split: watchability.splits)
  then have d: "weEvents demoEngine = []" "weDropped demoEngine = 0"
    by (simp_all add: demoEngine_def startEngine_def newWatchEngine_def)
  show ?thesis
    using events_accounted[OF d, of "[Emit \<lparr>evSource = ''s'', evChanged = [], evErr = None, evWarnings = []\<rparr>]"] by simp
qed


text \<open>
  The paths an event lists are those of exactly the keys that appeared, disappeared or changed
  their value between the two snapshots, each once and in the order of their strings.
\<close>

theorem diffSnapshots_exact:
  "\<exists>ks. diffSnapshots prev cur = map ParsePath ks \<and> sorted ks \<and> distinct ks
    \<and> (\<forall>k. k \<in> set ks \<longleftrightarrow>
        (case (mget (snapshotKeyValues prev) k, mget (snapshotKeyValues cur) k) of
           (Some a, Some b) \<Rightarrow> \<not> valuesEqual a b
         | (None, None) \<Rightarrow> False
         | _ \<Rightarrow> True))"
proof (cases "prev = None \<and> cur = None")
  case True
  then show ?thesis by (intro exI[of _ "[]"]) (simp add: diffSnapshots_def snapshotKeyValues_def)
next
  case False
  have "sorted (changedKeys p c)" for p c by (simp add: changedKeys_def)
  with False show ?thesis
    using changedKeys_distinct[OF snapshotKeyValues_mwf snapshotKeyValues_mwf] set_changedKeys
    by (intro exI[of _ "changedKeys (snapshotKeyValues prev) (snapshotKeyValues cur)"]) (auto simp: diffSnapshots_def)
qed


text \<open>An error that arrives while a reload is due renames the reload after its source.\<close>

lemma reload_named_after_error:
  "weLoop (startReload (receiveChange \<lparr>pcSrc = b, pcErr = Some err\<rparr> (receiveChange \<lparr>pcSrc = a, pcErr = None\<rparr> e)))
     = Loaded b (rgSnapshot (weReg e))"
  by (simp add: receiveChange_def)

end
