(* ===== verification/Live.thy ===== *)
theory Live
  imports Watch BindProps
begin

text \<open>
  \<open>live.go\<close>: a struct kept bound to a registry. Its goroutine takes the events of the watch engine,
  binds the struct again after each reload that succeeded, and passes the events on through a channel
  of one slot. The struct, the last error and the drop count are atomic, so every operation is a step;
  the time stamp of an event is left out.
\<close>

section \<open>State and operations\<close>

datatype liveErr = LiveEvent eventErr | LiveBind "bindError list"

record liveEvent =
  levSource :: string
  levChanged :: "path list"
  levErr :: "liveErr option"
  levWarnings :: "deprecation list"

record live =
  lvCurr :: "gval list"
  lvErr :: "liveErr option"
  lvEvents :: "liveEvent list"
  lvDropped :: nat
  lvStopped :: bool

text \<open>What is fixed at construction: the options of every bind and the fields of the struct.\<close>

record liveType =
  ltOpts :: bindOpts
  ltFields :: "(sfield \<times> gtype) list"

definition zeroStruct :: "liveType \<Rightarrow> gval list" where
  "zeroStruct L = map (\<lambda>(sf, T). zeroVal (ceZeroTime (boEnv (ltOpts L))) T) (ltFields L)"

definition decodeLive :: "liveType \<Rightarrow> registry \<Rightarrow> (bindError list + gval list) \<times> registry" where
  "decodeLive L r =
     (case bindStruct (ltOpts L) (ltFields L) (zeroStruct L) r of
        (ys, w) \<Rightarrow> (if wkErrs w = [] then Inr ys else Inl (wkErrs w), wkReg w))"




definition liveDropWarning :: "nat \<Rightarrow> deprecation" where
  "liveDropWarning n =
     \<lparr>dwPath = [], dwSource = [], dwReplacement = [],
      dwMessage = ''recon: '' @ formatNat n @ '' reload '' @ (if n = 1 then ''event was'' else ''events were'')
        @ '' dropped because the Live Events channel was full''\<rparr>"

definition liveMark :: "nat \<Rightarrow> liveEvent \<Rightarrow> liveEvent" where
  "liveMark n evt = (if 0 < n then evt\<lparr>levWarnings := levWarnings evt @ [liveDropWarning n]\<rparr> else evt)"

definition liveEmit :: "liveEvent \<Rightarrow> live \<Rightarrow> live" where
  "liveEmit evt l =
     (let evt' = liveMark (lvDropped l) evt
      in if length (lvEvents l) < 1 then l\<lparr>lvEvents := lvEvents l @ [evt'], lvDropped := 0\<rparr>
         else l\<lparr>lvDropped := lvDropped l + 1\<rparr>)"

definition sameWarning :: "deprecation \<Rightarrow> deprecation \<Rightarrow> bool" where
  "sameWarning d w =
     (dwSource d = dwSource w \<and> dwMessage d = dwMessage w \<and> pathEqual (dwPath d) (dwPath w)
      \<and> pathEqual (dwReplacement d) (dwReplacement w))"

definition appendNewWarnings :: "deprecation list \<Rightarrow> deprecation list \<Rightarrow> deprecation list" where
  "appendNewWarnings dst add =
     fold (\<lambda>w dst. if \<not> (\<exists>d \<in> set dst. sameWarning d w) then dst @ [w] else dst) add dst"

definition liveHandle :: "liveType \<Rightarrow> event \<Rightarrow> registry \<Rightarrow> live \<Rightarrow> registry \<times> live" where
  "liveHandle L evt r l =
     (let out = \<lparr>levSource = evSource evt, levChanged = evChanged evt,
                 levErr = map_option LiveEvent (evErr evt), levWarnings = evWarnings evt\<rparr>
      in case evErr evt of
           Some e \<Rightarrow> (r, liveEmit out (l\<lparr>lvErr := Some (LiveEvent e)\<rparr>))
         | None \<Rightarrow>
             (case decodeLive L r of
                (res, r1) \<Rightarrow>
                  (let (ws, r2) = DrainWarnings r1;
                       l1 = (case res of
                               Inl errs \<Rightarrow> l\<lparr>lvErr := Some (LiveBind errs)\<rparr>
                             | Inr xs \<Rightarrow> l\<lparr>lvCurr := xs, lvErr := None\<rparr>);
                       out1 = out\<lparr>levErr := (case res of Inl errs \<Rightarrow> Some (LiveBind errs) | Inr xs \<Rightarrow> None),
                                  levWarnings := appendNewWarnings (levWarnings out) ws\<rparr>
                   in (r2, liveEmit out1 l1))))"




section \<open>The channels\<close>


interpretation live_channel: lossy_channel liveEmit lvEvents lvDropped "\<lambda>l. length (lvEvents l) < 1" liveMark
  by unfold_locales (auto simp: liveEmit_def Let_def)

lemma liveEmit_frame [simp]:
  "lvCurr (liveEmit evt l) = lvCurr l" "lvErr (liveEmit evt l) = lvErr l" "lvStopped (liveEmit evt l) = lvStopped l"
  by (simp_all add: liveEmit_def Let_def)


section \<open>Engine and struct together\<close>

text \<open>
  The whole: the engine with its registry, the struct, and three fields that only observe: how many
  reloads installed a snapshot, how many of them had happened at the last bind, and whether the event
  of a successful reload was dropped since. \<open>lsOutcome\<close> is the result of the last bind.
\<close>

record liveSys =
  lsEngine :: engine
  lsLive :: live
  lsInstalls :: nat
  lsBoundAt :: nat
  lsLost :: bool
  lsOutcome :: "bindError list + gval list"

definition installs :: "engine \<Rightarrow> bool \<Rightarrow> nat" where
  "installs e rebuilt = (if rebuilt \<and> fst (rebuildSnapshot (weReg e)) = None then 1 else 0)"

definition losesReload :: "engine \<Rightarrow> engine \<Rightarrow> bool" where
  "losesReload e e' = ((\<exists>src prev. weLoop e = Rebuilt src prev None) \<and> weDropped e' = Suc (weDropped e))"

text \<open>The steps of the engine's goroutines and of the goroutine of the struct.\<close>

inductive liveOwn :: "liveType \<Rightarrow> liveSys \<Rightarrow> liveSys \<Rightarrow> bool" for L where
  engine: "internal (lsEngine y) b e' \<Longrightarrow>
    liveOwn L y (y\<lparr>lsEngine := e', lsInstalls := lsInstalls y + installs (lsEngine y) b,
      lsLost := (lsLost y \<or> losesReload (lsEngine y) e')\<rparr>)"
| handle: "\<not> lvStopped (lsLive y) \<Longrightarrow> weEvents (lsEngine y) = evt # evts \<Longrightarrow>
    liveHandle L evt (weReg (lsEngine y)) (lsLive y) = (r, l) \<Longrightarrow>
    liveOwn L y
      (if evErr evt = None
       then y\<lparr>lsEngine := (lsEngine y)\<lparr>weEvents := evts, weReg := r\<rparr>, lsLive := l,
              lsBoundAt := lsInstalls y, lsLost := False,
              lsOutcome := fst (decodeLive L (weReg (lsEngine y)))\<rparr>
       else y\<lparr>lsEngine := (lsEngine y)\<lparr>weEvents := evts, weReg := r\<rparr>, lsLive := l\<rparr>)"







section \<open>What the struct holds\<close>




lemma liveHandle_struct:
  assumes "liveHandle L evt r l = (r', l')"
  shows "evErr evt \<noteq> None \<Longrightarrow> lvCurr l' = lvCurr l \<and> lvErr l' \<noteq> None"
    and "evErr evt = None \<Longrightarrow> fst (decodeLive L r) = Inr xs \<Longrightarrow> lvCurr l' = xs \<and> lvErr l' = None"
    and "evErr evt = None \<Longrightarrow> fst (decodeLive L r) = Inl errs \<Longrightarrow> lvCurr l' = lvCurr l \<and> lvErr l' \<noteq> None"
    and "lvStopped l' = lvStopped l"
  using assms by (auto simp: liveHandle_def Let_def split: option.splits prod.splits sum.splits)







section \<open>The struct catches up\<close>

























section \<open>Properties\<close>







text \<open>
  The exception is real: with the channel of the engine full of errors, the event of a successful
  reload is dropped, the errors are handled without a bind, and the struct stays behind although the
  system is at rest.
\<close>

lemma errors_handled:
  "\<not> lvStopped (lsLive y) \<Longrightarrow> \<forall>evt \<in> set (weEvents (lsEngine y)). evErr evt \<noteq> None \<Longrightarrow>
   \<exists>y' :: liveSys. (liveOwn L)\<^sup>*\<^sup>* y y' \<and> weEvents (lsEngine y') = []
     \<and> weLoop (lsEngine y') = weLoop (lsEngine y)
     \<and> lsInstalls y' = lsInstalls y \<and> lsBoundAt y' = lsBoundAt y \<and> lvCurr (lsLive y') = lvCurr (lsLive y)"
proof (induction "weEvents (lsEngine y)" arbitrary: y)
  case Nil
  then show ?case by (intro exI[of _ y]) simp
next
  case (Cons evt evts)
  obtain r l where h: "liveHandle L evt (weReg (lsEngine y)) (lsLive y) = (r, l)" by force
  have err: "evErr evt \<noteq> None" using Cons.prems(2) Cons.hyps(2)[symmetric] by simp
  obtain y1 where y1: "liveOwn L y y1" "weEvents (lsEngine y1) = evts" "weLoop (lsEngine y1) = weLoop (lsEngine y)"
    "lsInstalls y1 = lsInstalls y" "lsBoundAt y1 = lsBoundAt y" "lsLive y1 = l"
    using liveOwn.handle[OF Cons.prems(1) Cons.hyps(2)[symmetric] h] err by fastforce
  have l: "\<not> lvStopped l" "lvCurr l = lvCurr (lsLive y)"
    using liveHandle_struct(1,4)[OF h] err Cons.prems(1) by simp_all
  have "\<forall>evt \<in> set evts. evErr evt \<noteq> None" using Cons.prems(2) Cons.hyps(2)[symmetric] by simp
  with Cons.hyps(1)[of y1] y1(2,6) l(1) obtain y2 :: liveSys where
    y2: "(liveOwn L)\<^sup>*\<^sup>* y1 y2" "weEvents (lsEngine y2) = []" "weLoop (lsEngine y2) = weLoop (lsEngine y1)"
      "lsInstalls y2 = lsInstalls y1" "lsBoundAt y2 = lsBoundAt y1" "lvCurr (lsLive y2) = lvCurr (lsLive y1)"
    by auto
  from y2(1) y1(1) have "(liveOwn L)\<^sup>*\<^sup>* y y2" by (simp add: converse_rtranclp_into_rtranclp)
  with y2(2-6) y1(3-6) l(2) show ?case by (intro exI[of _ y2]) simp
qed

lemma reload_lost:
  assumes "weLoop (lsEngine y) = Rebuilt src prev None" and "\<not> lvStopped (lsLive y)"
    and "weBufSize (lsEngine y) \<le> length (weEvents (lsEngine y))"
    and "\<forall>evt \<in> set (weEvents (lsEngine y)). evErr evt \<noteq> None"
  shows "\<exists>y' :: liveSys. (liveOwn L)\<^sup>*\<^sup>* y y' \<and> weEvents (lsEngine y') = [] \<and> weLoop (lsEngine y') = Idle
     \<and> lsInstalls y' = lsInstalls y \<and> lsBoundAt y' = lsBoundAt y \<and> lvCurr (lsLive y') = lvCurr (lsLive y)"
proof -
  let ?e = "finishReload src prev None (lsEngine y)"
  have "weEvents ?e = weEvents (lsEngine y)"
    using assms(3) by (simp add: finishReload_def Let_def emit_def split: prod.splits)
  moreover obtain y1 where y1: "liveOwn L y y1" "lsEngine y1 = ?e" "lsLive y1 = lsLive y"
    "lsInstalls y1 = lsInstalls y" "lsBoundAt y1 = lsBoundAt y"
    by (rule that[OF liveOwn.engine[OF internal.finish[OF assms(1)], of L]]) (simp_all add: installs_def)
  ultimately obtain y2 :: liveSys where
    y2: "(liveOwn L)\<^sup>*\<^sup>* y1 y2" "weEvents (lsEngine y2) = []" "weLoop (lsEngine y2) = weLoop (lsEngine y1)"
      "lsInstalls y2 = lsInstalls y1" "lsBoundAt y2 = lsBoundAt y1" "lvCurr (lsLive y2) = lvCurr (lsLive y1)"
    using errors_handled[of y1 L] assms(2,4) by auto
  from y2(1) y1(1) have "(liveOwn L)\<^sup>*\<^sup>* y y2" by (simp add: converse_rtranclp_into_rtranclp)
  with y2(2-6) y1(2-5) show ?thesis by (intro exI[of _ y2]) simp
qed

end
