(* ===== verification/RegistryGet.thy ===== *)
theory RegistryGet
  imports RegistryTheorems
begin

text \<open>
  \<open>registry_get.go\<close>: the typed reads. Go's triple \<open>(T, bool, error)\<close> is \<open>Inl (error, ok)\<close>,
  \<open>Inr None\<close> for \<open>(zero, false, nil)\<close> and \<open>Inr (Some x)\<close> for \<open>(x, true, nil)\<close>; the value
  returned with an error is always the zero value. The width of \<open>int\<close> and \<open>uint\<close> is an argument,
  \<open>time.Parse\<close> and \<open>time.ParseDuration\<close> are parameters, and a map is read in key order where Go
  leaves the order (and so which bad entry is reported) open.
\<close>

datatype getError =
    GetReg regError
  | GetVal verror
  | GetElement nat verror
  | GetEntry string verror
  | IntOverflow int64
  | UintOverflow uint64
  | IsNegative int64
  | NotHandled
  | KeyNotFound

type_synonym 'a getResult = "(getError \<times> bool) + 'a option"

definition getWith :: "readMode \<Rightarrow> (govalue \<Rightarrow> getError + 'a) \<Rightarrow> 'a \<Rightarrow> path \<Rightarrow> string \<Rightarrow> registry \<Rightarrow> 'a getResult" where
  "getWith mode conv zero prefix key r =
     (case regGet prefix key mode r of
        Inl e \<Rightarrow> Inl (GetReg e, False)
      | Inr None \<Rightarrow> Inr None
      | Inr (Some v) \<Rightarrow>
          if Kind v = NullKind then Inr (Some zero)
          else (case conv v of Inl e \<Rightarrow> Inl (e, True) | Inr x \<Rightarrow> Inr (Some x)))"

definition asGet :: "(govalue \<Rightarrow> verror + 'a) \<Rightarrow> govalue \<Rightarrow> getError + 'a" where
  "asGet conv v = (case conv v of Inl e \<Rightarrow> Inl (GetVal e) | Inr x \<Rightarrow> Inr x)"

definition GetString :: "path \<Rightarrow> string \<Rightarrow> registry \<Rightarrow> string getResult" where
  "GetString = getWith ReadExact (asGet AsString) []"

definition GetInt64 :: "path \<Rightarrow> string \<Rightarrow> registry \<Rightarrow> int64 getResult" where
  "GetInt64 = getWith ReadExact (asGet AsInt64) 0"

definition fitsInt :: "nat \<Rightarrow> int64 \<Rightarrow> bool" where
  "fitsInt bits i = (- (2 ^ (bits - 1)) \<le> sint i \<and> sint i < 2 ^ (bits - 1))"

definition GetInt :: "nat \<Rightarrow> path \<Rightarrow> string \<Rightarrow> registry \<Rightarrow> int64 getResult" where
  "GetInt bits prefix key r =
     (case GetInt64 prefix key r of
        Inl e \<Rightarrow> Inl e
      | Inr None \<Rightarrow> if fitsInt bits 0 then Inr None else Inl (IntOverflow 0, False)
      | Inr (Some i) \<Rightarrow> if fitsInt bits i then Inr (Some i) else Inl (IntOverflow i, True))"

definition GetFloat :: "path \<Rightarrow> string \<Rightarrow> registry \<Rightarrow> float64 getResult" where
  "GetFloat = getWith ReadExact (asGet AsFloat64) 0"

definition GetBool :: "path \<Rightarrow> string \<Rightarrow> registry \<Rightarrow> bool getResult" where
  "GetBool = getWith ReadExact (asGet AsBool) False"

definition GetDuration :: "(string \<Rightarrow> int64 option) \<Rightarrow> path \<Rightarrow> string \<Rightarrow> registry \<Rightarrow> int64 getResult" where
  "GetDuration parseDuration = getWith ReadExact (asGet (AsDuration parseDuration)) 0"

definition GetTime :: "(string \<Rightarrow> string \<Rightarrow> gotime option) \<Rightarrow> gotime \<Rightarrow> path \<Rightarrow> string \<Rightarrow> registry \<Rightarrow> gotime getResult" where
  "GetTime timeParse zeroTime = getWith ReadExact (asGet (AsTime timeParse)) zeroTime"

text \<open>The element loop of \<open>GetStringSlice\<close> and of \<open>coerceValueAny\<close>: the first element that fails.\<close>

fun stringElements :: "nat \<Rightarrow> govalue list \<Rightarrow> getError + string list" where
  "stringElements i [] = Inr []"
| "stringElements i (v # vs) =
     (case AsString v of
        Inl e \<Rightarrow> Inl (GetElement i e)
      | Inr s \<Rightarrow> (case stringElements (i + 1) vs of Inl e \<Rightarrow> Inl e | Inr ss \<Rightarrow> Inr (s # ss)))"

definition stringSliceOf :: "govalue \<Rightarrow> getError + string list" where
  "stringSliceOf v = (case AsSlice v of Inl e \<Rightarrow> Inl (GetVal e) | Inr xs \<Rightarrow> stringElements 0 xs)"

definition GetStringSlice :: "path \<Rightarrow> string \<Rightarrow> registry \<Rightarrow> string list getResult" where
  "GetStringSlice = getWith ReadExact stringSliceOf []"

fun stringEntries :: "(string \<times> govalue) list \<Rightarrow> getError + (string \<times> string) list" where
  "stringEntries [] = Inr []"
| "stringEntries ((k, v) # m) =
     (case AsString v of
        Inl e \<Rightarrow> Inl (GetEntry k e)
      | Inr s \<Rightarrow> (case stringEntries m of Inl e \<Rightarrow> Inl e | Inr ss \<Rightarrow> Inr ((k, s) # ss)))"

definition GetStringMap :: "path \<Rightarrow> string \<Rightarrow> registry \<Rightarrow> (string \<times> string) list getResult" where
  "GetStringMap = getWith ReadSection
     (\<lambda>v. case AsMap v of Inl e \<Rightarrow> Inl (GetVal e) | Inr m \<Rightarrow> stringEntries m) []"

definition GetAny :: "path \<Rightarrow> string \<Rightarrow> registry \<Rightarrow> goany getResult" where
  "GetAny prefix key r =
     (case regGet prefix key ReadGet r of
        Inl e \<Rightarrow> Inl (GetReg e, False)
      | Inr None \<Rightarrow> Inr None
      | Inr (Some v) \<Rightarrow> Inr (Some (Any v)))"

definition IsSet :: "path \<Rightarrow> string \<Rightarrow> registry \<Rightarrow> bool" where
  "IsSet prefix key r =
     (if rgClosed r then False
      else case rgSnapshot r of
             None \<Rightarrow> False
           | Some snap \<Rightarrow> lookupKey prefix snap key ReadGet \<noteq> None)"

definition AllKeys :: "path \<Rightarrow> registry \<Rightarrow> string list" where
  "AllKeys prefix r =
     (if rgClosed r then []
      else case rgSnapshot r of
             None \<Rightarrow> []
           | Some snap \<Rightarrow>
               if prefix = [] then map pathString (snKeys snap)
               else map (\<lambda>p. case pathAfter p prefix of Some q \<Rightarrow> pathString q | None \<Rightarrow> [])
                      (filter (\<lambda>p. pathHasPrefix p prefix) (snKeys snap)))"


section \<open>The generic accessor\<close>

text \<open>The type argument of \<open>Get[T]\<close>, and the zero value of each.\<close>

datatype goType = TString | TBool | TInt | TInt64 | TUint | TUint64 | TFloat64 | TTime | TDuration
  | TValue | TStringSlice | TOther

definition valueAsUint64 :: "govalue \<Rightarrow> getError + uint64" where
  "valueAsUint64 v =
     (case vdata v of
        StringV s True _ \<Rightarrow>
          (case parseUint10 s of None \<Rightarrow> Inl (GetVal (Coercion s)) | Some u \<Rightarrow> Inr u)
      | _ \<Rightarrow>
          (case AsInt64 v of
             Inl e \<Rightarrow> Inl (GetVal e)
           | Inr i \<Rightarrow> if i <s 0 then Inl (IsNegative i) else Inr i))"

definition onInr :: "('a \<Rightarrow> 'b) \<Rightarrow> 'e + 'a \<Rightarrow> 'e + 'b" where
  "onInr f r = (case r of Inl e \<Rightarrow> Inl e | Inr x \<Rightarrow> Inr (f x))"

definition coerceValueAny ::
  "nat \<Rightarrow> (string \<Rightarrow> string \<Rightarrow> gotime option) \<Rightarrow> (string \<Rightarrow> int64 option) \<Rightarrow> goType \<Rightarrow> govalue \<Rightarrow> getError + goany" where
  "coerceValueAny bits timeParse parseDuration T v =
     (case T of
        TString \<Rightarrow> onInr AStr (asGet AsString v)
      | TBool \<Rightarrow> onInr ABool (asGet AsBool v)
      | TInt \<Rightarrow> (case AsInt64 v of
                  Inl e \<Rightarrow> Inl (GetVal e)
                | Inr i \<Rightarrow> if fitsInt bits i then Inr (ANum (GInt i)) else Inl (IntOverflow i))
      | TInt64 \<Rightarrow> onInr (\<lambda>i. ANum (GInt64 i)) (asGet AsInt64 v)
      | TUint \<Rightarrow> (case valueAsUint64 v of
                   Inl e \<Rightarrow> Inl e
                 | Inr u \<Rightarrow> if uint u < 2 ^ bits then Inr (ANum (GUint u)) else Inl (UintOverflow u))
      | TUint64 \<Rightarrow> onInr (\<lambda>u. ANum (GUint64 u)) (valueAsUint64 v)
      | TFloat64 \<Rightarrow> onInr (\<lambda>f. ANum (GFloat64 f)) (asGet AsFloat64 v)
      | TTime \<Rightarrow> onInr ATime (asGet (AsTime timeParse) v)
      | TDuration \<Rightarrow> onInr ADur (asGet (AsDuration parseDuration) v)
      | TValue \<Rightarrow> Inr (AVal v)
      | TStringSlice \<Rightarrow> onInr (\<lambda>ss. ASeq (map AStr ss)) (stringSliceOf v)
      | TOther \<Rightarrow> Inl NotHandled)"

definition zeroOf :: "gotime \<Rightarrow> goType \<Rightarrow> goany" where
  "zeroOf zeroTime T =
     (case T of
        TString \<Rightarrow> AStr [] | TBool \<Rightarrow> ABool False | TInt \<Rightarrow> ANum (GInt 0) | TInt64 \<Rightarrow> ANum (GInt64 0)
      | TUint \<Rightarrow> ANum (GUint 0) | TUint64 \<Rightarrow> ANum (GUint64 0) | TFloat64 \<Rightarrow> ANum (GFloat64 0)
      | TTime \<Rightarrow> ATime zeroTime | TDuration \<Rightarrow> ADur 0 | TValue \<Rightarrow> AVal zeroValue
      | TStringSlice \<Rightarrow> ASeq [] | TOther \<Rightarrow> ANil)"

definition GetT ::
  "nat \<Rightarrow> (string \<Rightarrow> string \<Rightarrow> gotime option) \<Rightarrow> (string \<Rightarrow> int64 option) \<Rightarrow> gotime \<Rightarrow> goType
   \<Rightarrow> path \<Rightarrow> string \<Rightarrow> registry \<Rightarrow> goany getResult" where
  "GetT bits timeParse parseDuration zeroTime T =
     getWith (if T = TValue then ReadGet else ReadExact)
       (coerceValueAny bits timeParse parseDuration T) (zeroOf zeroTime T)"

text \<open>\<open>MustGet\<close>: \<open>None\<close> is the panic.\<close>

definition MustGet ::
  "nat \<Rightarrow> (string \<Rightarrow> string \<Rightarrow> gotime option) \<Rightarrow> (string \<Rightarrow> int64 option) \<Rightarrow> gotime \<Rightarrow> goType
   \<Rightarrow> path \<Rightarrow> string \<Rightarrow> registry \<Rightarrow> goany option" where
  "MustGet bits timeParse parseDuration zeroTime T prefix key r =
     (case GetT bits timeParse parseDuration zeroTime T prefix key r of
        Inl e \<Rightarrow> None | Inr None \<Rightarrow> None | Inr (Some x) \<Rightarrow> Some x)"


section \<open>Lemmas\<close>

definition mapResult :: "('a \<Rightarrow> 'b) \<Rightarrow> 'a getResult \<Rightarrow> 'b getResult" where
  "mapResult f r = onInr (map_option f) r"

lemma getWith_map:
  "conv' = (\<lambda>v. onInr f (conv v)) \<Longrightarrow> z' = f z \<Longrightarrow>
   getWith mode conv' z' prefix key r = mapResult f (getWith mode conv z prefix key r)"
  by (auto simp: getWith_def mapResult_def onInr_def split: sum.splits option.splits)

lemma fitsInt_64 [simp]: "fitsInt 64 i"
  using sint_ge[of i] sint_lt[of i] by (simp add: fitsInt_def)

lemma GetInt_64: "GetInt 64 = GetInt64"
  by (auto simp: GetInt_def fun_eq_iff split: sum.splits option.splits)

lemma coerce_int64: "coerceValueAny 64 timeParse parseDuration TInt v = onInr (\<lambda>i. ANum (GInt i)) (asGet AsInt64 v)"
  by (auto simp: coerceValueAny_def onInr_def asGet_def split: sum.splits)

text \<open>A value that holds an integer: an int64, or the marked text of a larger uint64.\<close>

definition holdsInt :: "govalue \<Rightarrow> int \<Rightarrow> bool" where
  "holdsInt v n = ((\<exists>i. v = mk (IntV i) \<and> sint i = n)
     \<or> (\<exists>u. v = mk (StringV (formatUint u) True False) \<and> uint u = n \<and> 2 ^ 63 \<le> n))"

lemma holdsInt_int: "holdsInt (mk (IntV i)) (sint i)"
  by (simp add: holdsInt_def)

lemma holdsInt_uint: "holdsInt (uintValue u) (uint u)"
proof (cases "unat u < 2 ^ 63")
  case True
  then have "uintValue u = mk (IntV u)" by (simp add: uintValue_def)
  then show ?thesis using holdsInt_int[of u] sint_small[OF True] by simp
next
  case False
  then have "int (2 ^ 63) \<le> int (unat u)" by (simp only: of_nat_le_iff not_less)
  then have "2 ^ 63 \<le> uint u" unfolding uint_nat by simp
  then show ?thesis using False by (auto simp: uintValue_def holdsInt_def)
qed

lemma holdsInt_numericValue: "gonumInt x = Some n \<Longrightarrow> holdsInt (numericValue x) n"
  by (cases x) (auto simp: holdsInt_uint holdsInt_int simp del: sint_scast64 sint_ucast64
      simp flip: sint_scast64 sint_ucast64)

lemma valueAsUint64_int:
  "valueAsUint64 (Value (IntV i) src) = (if sint i < 0 then Inl (IsNegative i) else Inr i)"
  by (simp add: valueAsUint64_def AsInt64_def word_sless_alt)

lemma valueAsUint64_big: "valueAsUint64 (Value (StringV (formatUint u) True b) src) = Inr u"
  by (simp add: valueAsUint64_def)

lemma getWith_value:
  "regGet prefix key mode r = Inr (Some v) \<Longrightarrow> Kind v \<noteq> NullKind \<Longrightarrow>
   getWith mode conv zero prefix key r = (case conv v of Inl e \<Rightarrow> Inl (e, True) | Inr x \<Rightarrow> Inr (Some x))"
  by (simp add: getWith_def)

lemma pathAfter_prefix: "pathHasPrefix p q \<longleftrightarrow> (\<exists>r. pathAfter p q = Some r)"
  by (auto simp: pathHasPrefix_iff pathAfter_Some)


section \<open>Properties\<close>

text \<open>
  On a 64-bit target the generic accessor \<open>Get[T]\<close> and the dedicated getters agree, errors and
  reported presence included: for every supported type \<open>T\<close> that has a getter they are one function.
\<close>

theorem Get_agrees_with_getters:
  "GetT 64 timeParse parseDuration zeroTime TString prefix key r = mapResult AStr (GetString prefix key r)
   \<and> GetT 64 timeParse parseDuration zeroTime TBool prefix key r = mapResult ABool (GetBool prefix key r)
   \<and> GetT 64 timeParse parseDuration zeroTime TInt prefix key r
       = mapResult (\<lambda>i. ANum (GInt i)) (GetInt 64 prefix key r)
   \<and> GetT 64 timeParse parseDuration zeroTime TInt64 prefix key r
       = mapResult (\<lambda>i. ANum (GInt64 i)) (GetInt64 prefix key r)
   \<and> GetT 64 timeParse parseDuration zeroTime TFloat64 prefix key r
       = mapResult (\<lambda>f. ANum (GFloat64 f)) (GetFloat prefix key r)
   \<and> GetT 64 timeParse parseDuration zeroTime TTime prefix key r
       = mapResult ATime (GetTime timeParse zeroTime prefix key r)
   \<and> GetT 64 timeParse parseDuration zeroTime TDuration prefix key r
       = mapResult ADur (GetDuration parseDuration prefix key r)
   \<and> GetT 64 timeParse parseDuration zeroTime TStringSlice prefix key r
       = mapResult (\<lambda>ss. ASeq (map AStr ss)) (GetStringSlice prefix key r)"
  unfolding GetT_def GetInt_64 GetString_def GetBool_def GetInt64_def GetFloat_def GetTime_def
    GetDuration_def GetStringSlice_def
  by (intro conjI; simp; rule getWith_map)
    (auto simp: coerceValueAny_def zeroOf_def fun_eq_iff asGet_def onInr_def split: sum.splits)


text \<open>
  C15: A Go integer of any type, set under a key that is not an alias, in a registry of at most 32 aliases,
  is read back exactly or refused, never wrapped: \<open>Get[uint64]\<close> returns it when it is not negative and an error otherwise; \<open>GetInt64\<close> returns it
  when it fits an int64 and a type mismatch otherwise.
\<close>

theorem integer_set_then_get:
  assumes "reachable r" and "\<not> rgClosed r" and "applyOp (OpSet prefix key (ANum x)) r = (None, r')"
    and "gonumInt x = Some n"
    and "\<not> mhas (rgAliases r) (fullKey prefix key)" and "length (rgAliases r) \<le> maxAliasDepth"
  shows "(if n < 0 then \<exists>i. GetT bits tp pd z TUint64 prefix key r' = Inl (IsNegative i, True)
          else \<exists>u. GetT bits tp pd z TUint64 prefix key r' = Inr (Some (ANum (GUint64 u))) \<and> uint u = n)
    \<and> (if n < 2 ^ 63 then \<exists>i. GetInt64 prefix key r' = Inr (Some i) \<and> sint i = n
       else GetInt64 prefix key r' = Inl (GetVal (TypeMismatch StringKind ''int64''), True))"
proof -
  let ?v = "withSource srcExplicit (numericValue x)"
  have nv: "NewValue (ANum x) = numericValue x" by (simp add: NewValue.simps)
  note cases = holdsInt_numericValue[OF assms(4), unfolded holdsInt_def]
  have kind: "Kind ?v \<noteq> NullKind" "Kind (numericValue x) \<noteq> NullKind" using cases by (auto simp: Kind_def withSource_def)
  have get: "regGet prefix key ReadExact r' = Inr (Some ?v)"
    using set_then_read[OF assms(1-3) _ _ assms(5,6), of ReadExact] kind by (simp add: nv isNonEmptyMap_def)
  have i: "sint i < 2 ^ 63" for i :: int64 using sint_lt[of i] by simp
  have u: "uint i = sint i" if "0 \<le> sint i" for i :: int64 
    using that i[of i] unfolding uint_sint by (intro take_bit_int_eq_self) auto
  from cases show ?thesis
    using kind i u
    by (auto simp: GetT_def GetInt64_def getWith_value[OF get] coerceValueAny_def onInr_def asGet_def
        withSource_def valueAsUint64_int valueAsUint64_big AsInt64_def typeMismatchErr_def)
qed

lemma integer_set_then_get_witness:
  "(\<exists>u. GetT 64 (\<lambda>_ _. None) (\<lambda>_. None) (0, 0) TUint64 [] ''n''
        (snd (opSet [] ''n'' (ANum (GUint64 18446744073709551615)) demoRegistry)) = Inr (Some (ANum (GUint64 u)))
      \<and> uint u = 18446744073709551615)
   \<and> GetInt64 [] ''n'' (snd (opSet [] ''n'' (ANum (GUint64 18446744073709551615)) demoRegistry))
      = Inl (GetVal (TypeMismatch StringKind ''int64''), True)"
  using integer_set_then_get[OF demoRegistry_reachable demoRegistry_facts(2) demo_set,
      of "GUint64 18446744073709551615" 18446744073709551615 "[]" "''n''" 64 "\<lambda>_ _. None" "\<lambda>_. None" "(0, 0)"]
    demoRegistry_facts(3) by simp

text \<open>
  \<open>AllKeys\<close> on the root lists the canonical strings of the listed keys; on a sub view it lists
  exactly the rests of the listed paths under the prefix, so prefixing them gives back listed keys.
\<close>

theorem AllKeys_exact:
  assumes "\<not> rgClosed r" and "rgSnapshot r = Some s"
  shows "AllKeys [] r = map pathString (snKeys s)
    \<and> (\<forall>q. pathString q \<in> set (AllKeys prefix r) \<longleftrightarrow> prefix @ q \<in> set (snKeys s))"
proof -
  have "pathString q \<in> set (AllKeys prefix r) \<longleftrightarrow> prefix @ q \<in> set (snKeys s)" for q
  proof (cases "prefix = []")
    case False
    have "pathString q \<in> set (AllKeys prefix r) \<longleftrightarrow>
        (\<exists>p \<in> set (snKeys s). \<exists>t. pathAfter p prefix = Some t \<and> t = q)"
      using False assms by (auto simp: AllKeys_def pathAfter_prefix image_iff split: option.splits)
    then show ?thesis by (auto simp: pathAfter_Some)
  qed (use assms in \<open>auto simp: AllKeys_def\<close>)
  then show ?thesis using assms by (simp add: AllKeys_def)
qed

lemma AllKeys_exact_witness: "AllKeys [] demoRegistry = map pathString (snKeys (buildSnapshot (inputsOf demoLayers)))"
  using AllKeys_exact[of demoRegistry "buildSnapshot (inputsOf demoLayers)" "[]"] demoRegistry_facts(2)
  by (simp add: demoRegistry_def)

end
