(* ===== verification/PerSource.thy ===== *)
theory PerSource
  imports RegistryGet
begin

text \<open>
  \<open>per_source.go\<close>: what each source says about one key. The type argument is a \<open>goType\<close>, as for
  \<open>Get[T]\<close>; a value that is not set is the zero value.
\<close>

datatype perSourceErr = PsSource string | PsGet getError

datatype perSourceFail = PsNilRegistry | PsClosed

record valueSource =
  vsSource :: string
  vsValue :: goany
  vsIsSet :: bool
  vsErr :: "perSourceErr option"

record perSource =
  psPath :: path
  psSources :: "valueSource list"
  psExplicit :: valueSource
  psDefault :: valueSource
  psResolved :: valueSource

text \<open>What \<open>Get[T]\<close> needs besides the registry: the width of \<open>int\<close>, the parsers of times, \<open>T\<close>.\<close>

record getType =
  gtBits :: nat
  gtTime :: "string \<Rightarrow> string \<Rightarrow> gotime option"
  gtDuration :: "string \<Rightarrow> int64 option"
  gtZeroTime :: gotime
  gtType :: goType

definition getAs :: "getType \<Rightarrow> path \<Rightarrow> string \<Rightarrow> registry \<Rightarrow> goany getResult" where
  "getAs G = GetT (gtBits G) (gtTime G) (gtDuration G) (gtZeroTime G) (gtType G)"

definition zeroAs :: "getType \<Rightarrow> goany" where
  "zeroAs G = zeroOf (gtZeroTime G) (gtType G)"

definition unsetEntry :: "getType \<Rightarrow> string \<Rightarrow> valueSource" where
  "unsetEntry G name = \<lparr>vsSource = name, vsValue = zeroAs G, vsIsSet = False, vsErr = None\<rparr>"

definition coerceValueTo :: "getType \<Rightarrow> govalue \<Rightarrow> goany \<times> perSourceErr option" where
  "coerceValueTo G v =
     (case coerceValueAny (gtBits G) (gtTime G) (gtDuration G) (gtType G) v of
        Inl e \<Rightarrow> (zeroAs G, Some (PsGet e)) | Inr x \<Rightarrow> (x, None))"

definition setEntry :: "getType \<Rightarrow> string \<Rightarrow> govalue \<Rightarrow> valueSource" where
  "setEntry G name v =
     (case coerceValueTo G v of (x, err) \<Rightarrow> \<lparr>vsSource = name, vsValue = x, vsIsSet = True, vsErr = err\<rparr>)"

definition BySource :: "getType \<Rightarrow> string \<Rightarrow> perSource \<Rightarrow> valueSource" where
  "BySource G name p =
     (case List.find (\<lambda>e. vsSource e = name) (psSources p) of Some e \<Rightarrow> e | None \<Rightarrow> unsetEntry G name)"

text \<open>The layers as \<open>PerSourceFor\<close> copies them under the lock.\<close>

definition perSourceInputs :: "registry \<Rightarrow> snapshotInputs" where
  "perSourceInputs r =
     \<lparr>isSources = [], isExplicits = flattenLayer (rgExplicits r), isDefaults = flattenLayer (rgDefaults r),
      isAliases = [], isPins = [], isBound = [], isSecretKeys = [], isRedactor = None,
      isMerge = MergeShadow, isAliasesOf = invertAliases (rgAliases r)\<rparr>"

definition sourceEntry :: "getType \<Rightarrow> path \<Rightarrow> string \<Rightarrow> snapshotInputs \<Rightarrow> source \<Rightarrow> valueSource" where
  "sourceEntry G p canon is src =
     (case srcGet src p of
        Inl err \<Rightarrow> (unsetEntry G (srcName src))\<lparr>vsIsSet := True, vsErr := Some (PsSource err)\<rparr>
      | Inr (Some raw) \<Rightarrow> setEntry G (srcName src) raw
      | Inr None \<Rightarrow>
          (case sourceGet src p canon is of
             Some raw \<Rightarrow> setEntry G (srcName src) raw
           | None \<Rightarrow> unsetEntry G (srcName src)))"

definition layerEntry :: "getType \<Rightarrow> string \<Rightarrow> goany option \<Rightarrow> valueSource" where
  "layerEntry G name layer =
     (case layer of
        Some raw \<Rightarrow> setEntry G name (withSource name (NewValue raw))
      | None \<Rightarrow> unsetEntry G [])"

definition resolvedEntry :: "getType \<Rightarrow> path \<Rightarrow> path \<Rightarrow> string \<Rightarrow> registry \<Rightarrow> valueSource" where
  "resolvedEntry G p prefix key r =
     (case getAs G prefix key r of
        Inl (e, ok) \<Rightarrow> \<lparr>vsSource = [], vsValue = zeroAs G, vsIsSet = ok, vsErr = Some (PsGet e)\<rparr>
      | Inr None \<Rightarrow> unsetEntry G []
      | Inr (Some x) \<Rightarrow>
          \<lparr>vsSource = (case rgSnapshot r of
                         Some snap \<Rightarrow> (case SourceFor snap p of [] \<Rightarrow> [] | s # _ \<Rightarrow> s) | None \<Rightarrow> []),
           vsValue = x, vsIsSet = True, vsErr = None\<rparr>)"

definition PerSourceFor :: "getType \<Rightarrow> path \<Rightarrow> string \<Rightarrow> registry option \<Rightarrow> perSourceFail + perSource" where
  "PerSourceFor G prefix key reg =
     (case reg of
        None \<Rightarrow> Inl PsNilRegistry
      | Some r \<Rightarrow>
          (if rgClosed r then Inl PsClosed
           else let canon = resolveAliasChain (fullKey prefix key) (rgAliases r);
                    p = ParsePath canon;
                    is = perSourceInputs r
                in Inr \<lparr>psPath = p,
                        psSources = map (sourceEntry G p canon is) (rgSources r),
                        psExplicit = layerEntry G srcExplicit (layerGet (isExplicits is) canon is),
                        psDefault = layerEntry G srcDefault (layerGet (isDefaults is) canon is),
                        psResolved = resolvedEntry G p prefix key r\<rparr>))"

definition PerSourceForPath :: "getType \<Rightarrow> path \<Rightarrow> path \<Rightarrow> registry option \<Rightarrow> perSourceFail + perSource" where
  "PerSourceForPath G prefix p reg = PerSourceFor G prefix (pathString p) reg"


section \<open>Resolved is the first entry that is set\<close>

lemma coerce_ignores_source:
  "T \<noteq> TValue \<Longrightarrow> coerceValueAny bits tp pd T (Value d s) = coerceValueAny bits tp pd T (Value d s')"
  by (cases T; cases d)
    (simp_all add: coerceValueAny_def asGet_def AsString_def AsBool_def AsInt64_def AsFloat64_def AsTime_def AsDuration_def
      valueAsUint64_def stringSliceOf_def AsSlice_def split: bool.split)

lemma setEntry_source: "gtType G \<noteq> TValue \<Longrightarrow> setEntry G n (withSource m v) = setEntry G n v"
proof (cases v)
  case (Value d s)
  assume "gtType G \<noteq> TValue"
  from coerce_ignores_source[OF this, of "gtBits G" "gtTime G" "gtDuration G" d m s] show ?thesis
    by (simp add: setEntry_def coerceValueTo_def withSource_def Value)
qed

lemma layerGet_same:
  "isAliasesOf is = isAliasesOf js \<Longrightarrow> layerGet l k is = layerGet l k js"
  "isAliasesOf is = isAliasesOf js \<Longrightarrow> sourceGet s p k is = sourceGet s p k js"
  by (auto simp: layerGet_def sourceGet_def aliasPaths_def split: option.splits sum.splits)

lemma sourceEntry_noerror:
  assumes "\<nexists>e. srcGet s p = Inl e"
  shows "sourceEntry G p k is s = (case sourceGet s p k is of
     Some raw \<Rightarrow> setEntry G (srcName s) raw | None \<Rightarrow> unsetEntry G (srcName s))"
  using assms by (auto simp: sourceEntry_def sourceGet_def split: sum.splits option.splits)

lemma setEntry_set [simp]: "vsIsSet (setEntry G n v)" "vsSource (setEntry G n v) = n"
  by (simp_all add: setEntry_def split: prod.splits)

lemma unsetEntry_unset [simp]: "\<not> vsIsSet (unsetEntry G n)"
  by (simp add: unsetEntry_def)

lemma find_sources:
  "\<forall>s \<in> set ss. \<nexists>e. srcGet s p = Inl e \<Longrightarrow>
   List.find vsIsSet (map (sourceEntry G p k is) ss)
     = (case sourceContributions ss p k is of [] \<Rightarrow> None | (v, n) # _ \<Rightarrow> Some (setEntry G n v))"
  by (induction ss) (auto simp: sourceEntry_noerror split: option.splits)

text \<open>The winner of a key without pin or merge is the first entry that is set.\<close>

lemma first_entry_wins:
  assumes "gtType G \<noteq> TValue" and "isMerge is \<noteq> MergeAppend" and "mget (isPins is) k = None"
    and "\<forall>s \<in> set (isSources is). srcName s \<noteq> [] \<and> (\<nexists>e. srcGet s p = Inl e)"
    and "fst (resolveKey p k is None) = Some (v, srcs)"
  shows "List.find vsIsSet (layerEntry G srcExplicit (layerGet (isExplicits is) k is)
        # map (sourceEntry G p k is) (isSources is) @ [layerEntry G srcDefault (layerGet (isDefaults is) k is)])
     = Some (setEntry G (hd srcs) v)"
proof (cases "layerGet (isExplicits is) k is")
  case (Some raw)
  then show ?thesis using assms(5) by (auto simp: layerEntry_def resolveKey_def)
next
  case None
  have named: "\<forall>s \<in> set (isSources is). srcName s \<noteq> []" and ok: "\<forall>s \<in> set (isSources is). \<nexists>e. srcGet s p = Inl e"
    using assms(4) by blast+
  have r: "(case chainResult (sourceContributions (isSources is) p k is) of
      Some r \<Rightarrow> Some r | None \<Rightarrow> defaultResult k is) = Some (v, srcs)"
    using assms(5) named_contributions[OF named assms(2) None assms(3), of p None] by simp
  show ?thesis
  proof (cases "sourceContributions (isSources is) p k is")
    case Nil
    with r None show ?thesis
      by (auto simp: find_append find_sources[OF ok] chainResult_def defaultResult_def layerEntry_def)
  next
    case (Cons c cs)
    with r None show ?thesis
      by (cases c) (auto simp: find_append find_sources[OF ok] chainResult_def layerEntry_def setEntry_source[OF assms(1)])
  qed
qed

lemma read_own:
  assumes "mget (snValues s) k = Some v" and "\<not> mhas (snInParent s) (resolveAliasChain k (snAliases s))"
  shows "readSnap s k p ReadExact = Some v"
proof -
  have "\<not> mhas (snAliases s) k \<Longrightarrow> resolveAliasChain k (snAliases s) = k" by (simp add: mhas_def)
  with assms show ?thesis
    by (cases "mhas (snAliases s) k") (auto simp: readSnap_def Let_def split: option.split prod.split)
qed

lemma coerce_getWith:
  assumes "regGet prefix key ReadExact r = Inr (Some v)" and "Kind v \<noteq> NullKind" and "gtType G \<noteq> TValue"
  shows "getAs G prefix key r = (case coerceValueTo G v of
     (x, None) \<Rightarrow> Inr (Some x) | (x, Some e) \<Rightarrow> Inl (case e of PsGet g \<Rightarrow> g | PsSource t \<Rightarrow> NotHandled, True))"
  using assms(3)
  by (auto simp: getAs_def GetT_def getWith_value[OF assms(1,2)] coerceValueTo_def split: sum.splits)


lemma resolvedEntry_found:
  assumes "regGet prefix key ReadExact r = Inr (Some v)" and "Kind v \<noteq> NullKind" and "gtType G \<noteq> TValue"
    and "rgSnapshot r = Some s" and "SourceFor s p = srcs" and "srcs \<noteq> []"
  shows "resolvedEntry G p prefix key r
    = (if vsErr (setEntry G (hd srcs) v) = None then setEntry G (hd srcs) v else (setEntry G (hd srcs) v)\<lparr>vsSource := []\<rparr>)"
  using assms(6) by (auto simp: resolvedEntry_def coerce_getWith[OF assms(1-3)] setEntry_def coerceValueTo_def
      assms(4,5) split: sum.splits list.splits)


section \<open>Property\<close>

text \<open>
  C23: The report of one key explains the value it resolves to, on an open registry whose snapshot is that
  of its layers, whose alias graph is acyclic with at most 32 aliases, whose merge strategy is not append,
  and in which every source has a name and none fails at the key (the entry of a failing source counts as
  set, where the resolution goes on to the next layer). For a canonical key that is not pinned and not
  hidden by a map of a parent, whose value is not null, and a type other than \<open>Value\<close>, \<open>Resolved\<close> is the
  first entry that is set in the order explicit, sources, default: same source and value, or the same
  conversion error (then without the source).
\<close>

theorem PerSource_explains_Resolved:
  assumes "\<not> rgClosed r" and "rgSnapshot r = Some (buildSnapshot (inputsOf r))" and "aliasesFit (inputsOf r)"
    and "rgMerge r \<noteq> MergeAppend" and "canon = resolveAliasChain (fullKey prefix key) (rgAliases r)"
    and "pathString (ParsePath canon) = canon" and "mget (rgPins r) canon = None"
    and "\<forall>s \<in> set (rgSources r). srcName s \<noteq> [] \<and> (\<nexists>e. srcGet s (ParsePath canon) = Inl e)"
    and "\<not> mhas (snInParent (buildSnapshot (inputsOf r))) canon"
    and "mget (snValues (buildSnapshot (inputsOf r))) (fullKey prefix key) = Some v" and "Kind v \<noteq> NullKind"
    and "gtType G \<noteq> TValue" and "PerSourceFor G prefix key (Some r) = Inr ps"
  shows "\<exists>e. List.find vsIsSet (psExplicit ps # psSources ps @ [psDefault ps]) = Some e
     \<and> psResolved ps = (if vsErr e = None then e else e\<lparr>vsSource := []\<rparr>)"
proof -
  let ?is = "inputsOf r" and ?fi = "flattenInputs (inputsOf r)" and ?p = "ParsePath canon"
  let ?s = "buildSnapshot ?is"
  have al: "snAliases ?s = rgAliases r" "isAliases ?is = rgAliases r"
    by (simp_all add: inputsOf_def)
  have same: "isAliasesOf (perSourceInputs r) = isAliasesOf ?fi" "isExplicits (perSourceInputs r) = isExplicits ?fi"
    "isDefaults (perSourceInputs r) = isDefaults ?fi" "isSources ?fi = rgSources r"
    by (simp_all add: perSourceInputs_def inputsOf_def)
  obtain srcs where at: "resolvedAt ?is (fullKey prefix key) = Some (v, srcs)"
    using assms(10) build_maps[of ?is "fullKey prefix key"] assms(3) by auto
  then have res: "fst (resolveKey ?p canon ?fi None) = Some (v, srcs)" and cc: "canon \<in> canonicalKeys ?fi"
    using assms(5) al(2) by (auto simp: resolvedAt_def resolved_def Let_def split: if_splits)
  have read: "regGet prefix key ReadExact r = Inr (Some v)"
    using read_own[of ?s "fullKey prefix key" v None] assms(1,2,5,9,10) al(1)
    by (simp add: regGet_def lookupKey_fullKey)
  have src: "SourceFor ?s ?p = srcs"
  proof -
    have "mget (rgAliases r) canon = None"
      using resolved_not_alias[of "isAliases ?is" "fullKey prefix key"] assms(3,5) al(2) by simp
    then have "resolvedAt ?is canon = Some (v, srcs)"
      using res cc al(2) by (simp add: resolvedAt_def resolved_def)
    then show ?thesis using build_maps[of ?is canon] assms(3,6) by (simp add: SourceFor_def)
  qed
  have named: "\<forall>s \<in> set (isSources ?is). srcName s \<noteq> []" using assms(8) by (simp add: inputsOf_def)
  have tag: "srcs \<noteq> []" using resolvedAt_tag[OF named at] by simp
  let ?e = "setEntry G (hd srcs) v"
  have "List.find vsIsSet (layerEntry G srcExplicit (layerGet (isExplicits ?fi) canon ?fi)
      # map (sourceEntry G ?p canon ?fi) (isSources ?fi) @ [layerEntry G srcDefault (layerGet (isDefaults ?fi) canon ?fi)])
    = Some ?e"
    using assms(4,7,8) by (intro first_entry_wins[OF assms(12) _ _ _ res]) (simp_all add: inputsOf_def)
  moreover have "sourceEntry G ?p canon (perSourceInputs r) = sourceEntry G ?p canon ?fi"
    unfolding sourceEntry_def layerGet_same(2)[OF same(1)] ..
  ultimately have "List.find vsIsSet (psExplicit ps # psSources ps @ [psDefault ps]) = Some ?e"
    using assms(1,5,13) layerGet_same(1)[OF same(1)] same(2-4) by (auto simp: PerSourceFor_def Let_def)
  moreover have "psResolved ps = (if vsErr ?e = None then ?e else ?e\<lparr>vsSource := []\<rparr>)"
    using resolvedEntry_found[OF read assms(11,12,2) src tag] assms(1,5,13) by (auto simp: PerSourceFor_def Let_def)
  ultimately show ?thesis by blast
qed

definition demoGet :: getType where
  "demoGet = \<lparr>gtBits = 64, gtTime = \<lambda>_ _. None, gtDuration = \<lambda>_. None, gtZeroTime = (0, 0), gtType = TInt64\<rparr>"

lemma demo_inputs: "inputsOf demoRegistry = inputsOf demoLayers" "aliasesFit (inputsOf demoRegistry)"
  "rgSnapshot demoRegistry = Some (buildSnapshot (inputsOf demoRegistry))"
  by (simp_all add: demoRegistry_def inputsOf_def demoLayers_def demoFresh_def freshRegistry_def emptyRegistry_def
      aliasRel_def acyclic_def)

lemma demo_reads_b: "mget (snValues (buildSnapshot (inputsOf demoLayers))) ''b'' = Some (Value (IntV 2) ''file'')"
  "snInParent (buildSnapshot (inputsOf demoLayers)) = []"
  by code_simp+

lemma PerSource_explains_Resolved_witness:
  "\<exists>ps. PerSourceFor demoGet [] ''b'' (Some demoRegistry) = Inr ps \<and> vsSource (psResolved ps) = ''file''"
proof -
  have keys: "fullKey [] ''b'' = ''b''" "ParsePath ''b'' = [''b'']" "pathString [''b''] = ''b''" by code_simp+
  have lay: "rgAliases demoRegistry = []" "rgPins demoRegistry = []" "rgMerge demoRegistry = MergeShadow"
    "rgSources demoRegistry = rev demoSources"
    by (simp_all add: demoRegistry_def demoLayers_def demoFresh_def freshRegistry_def emptyRegistry_def)
  obtain ps where ps: "PerSourceFor demoGet [] ''b'' (Some demoRegistry) = Inr ps"
    using demoRegistry_facts(2) by (simp add: PerSourceFor_def Let_def)
  have "\<exists>e. List.find vsIsSet (psExplicit ps # psSources ps @ [psDefault ps]) = Some e
     \<and> psResolved ps = (if vsErr e = None then e else e\<lparr>vsSource := []\<rparr>)"
    using demoRegistry_facts(2) demo_inputs
    by (intro PerSource_explains_Resolved[OF _ _ _ _ refl _ _ _ _ _ _ _ ps, where v = "Value (IntV 2) ''file''"])
      (simp_all add: keys lay demo_reads_b demoSources_def demoSource_def demoGet_def Kind_def kindOf.simps)
  moreover have "psResolved ps = resolvedEntry demoGet [''b''] [] ''b'' demoRegistry"
    using ps demoRegistry_facts(2) by (auto simp: PerSourceFor_def Let_def keys lay)
  moreover have "SourceFor (buildSnapshot (inputsOf demoLayers)) [''b''] = [''file'']" by code_simp
  moreover have "regGet [] ''b'' ReadExact demoRegistry = Inr (Some (Value (IntV 2) ''file''))"
    using demoRegistry_facts(2) demo_inputs demo_reads_b
    by (simp add: regGet_def lookupKey_fullKey keys readSnap_def)
  ultimately show ?thesis
    using ps demo_inputs
    by (simp add: resolvedEntry_def getAs_def GetT_def demoGet_def getWith_def Kind_def kindOf.simps coerceValueAny_def
        asGet_def AsInt64_def onInr_def)
qed

text \<open>A null value of a source is an error in its entry, where \<open>Get\<close> gives the zero value.\<close>

lemma null_entry_is_error:
  "srcGet s p = Inr (Some (Value NullV n)) \<Longrightarrow> vsErr (sourceEntry demoGet p k is s) = Some (PsGet (GetVal (TypeMismatch NullKind ''int64'')))"
  "regGet prefix key ReadExact r = Inr (Some (Value NullV n)) \<Longrightarrow> getAs demoGet prefix key r = Inr (Some (ANum (GInt64 0)))"
  by (simp_all add: sourceEntry_def setEntry_def coerceValueTo_def demoGet_def coerceValueAny_def asGet_def AsInt64_def
      typeMismatchErr_def onInr_def getAs_def GetT_def getWith_def Kind_def zeroOf_def)

end
