(* ===== verification/Errors.thy ===== *)
theory Errors
  imports Bind Codec
begin

text \<open>
  \<open>errors.go\<close> and \<open>format_error.go\<close>: the error types of the package as one tree, their texts, what
  \<open>errors.Is\<close> and \<open>errors.As\<close> find in them, and the report of \<open>FormatError\<close>. A sentinel is known by its
  text, \<open>Plain\<close> is an error of another package that wraps nothing, \<open>Wraps\<close> one made by \<open>fmt.Errorf\<close> with
  the text it was given then and the errors it wraps, \<open>JoinE\<close> one of \<open>errors.Join\<close>, whose text is made when asked for. The identity of pointers is left out: a target of \<open>errors.Is\<close> is a sentinel or an
  error the caller made. \<open>%q\<close> is the argument \<open>q\<close>.
\<close>

datatype goerr =
    Sentinel string
  | Plain string
  | Wraps string "goerr list"
  | JoinE "goerr list"
  | MultiE "goerr list"
  | MissingE path "string list"
  | EmptyE path string
  | CoercionE path string string string "goerr option" bool
  | UnknownE path string
  | ImmutableE path string string
  | SourceE string string "goerr option"
  | CycleE "path list"
  | InvalidE path string string bool "goerr option"
  | ParseE string string "int \<times> int" "goerr option" string
  | SchemaE goerr

abbreviation (input) "arrow \<equiv> [CHR 0xE2, CHR 0x86, CHR 0x92]"
abbreviation (input) "bullet \<equiv> [CHR 0xE2, CHR 0x80, CHR 0xA2]"

definition ErrMissingRequired :: string where "ErrMissingRequired = ''recon: missing required value''"
definition ErrEmptyValue :: string where "ErrEmptyValue = ''recon: empty value''"
definition ErrUnknownKey :: string where "ErrUnknownKey = ''recon: unknown key (strict mode)''"
definition ErrImmutableChanged :: string where "ErrImmutableChanged = ''recon: immutable key changed''"
definition ErrCoercion :: string where "ErrCoercion = ''recon: coercion failed''"
definition ErrAliasCycle :: string where "ErrAliasCycle = ''recon: alias cycle''"
definition ErrValidation :: string where "ErrValidation = ''recon: validation failed''"
definition ErrRegistryClosed :: string where "ErrRegistryClosed = ''recon: registry closed''"


section \<open>Texts\<close>

definition intText :: "int \<Rightarrow> string" where
  "intText i = (if i < 0 then CHR ''-'' # formatNat (nat (- i)) else formatNat (nat i))"

fun positionString :: "int \<times> int \<Rightarrow> string" where
  "positionString (line, col) =
     (if line = 0 \<and> col = 0 then []
      else if col = 0 then intText line
      else intText line @ '':'' @ intText col)"

definition parseLocation :: "string \<Rightarrow> string \<Rightarrow> int \<times> int \<Rightarrow> string" where
  "parseLocation source file pos =
     (let loc = (if file \<noteq> [] then file else source)
      in if positionString pos \<noteq> [] then loc @ '':'' @ positionString pos else loc)"

text \<open>\<open>fmt.Sprint\<close> and \<open>%v\<close> of a cause, which may be nil; \<open>detail\<close> of a parse error.\<close>

definition sprintErr :: "string option \<Rightarrow> string" where
  "sprintErr t = (case t of None \<Rightarrow> ''<nil>'' | Some s \<Rightarrow> s)"

definition parseDetail :: "string \<Rightarrow> string option \<Rightarrow> string" where
  "parseDetail msg cause = (if msg \<noteq> [] then msg else sprintErr cause)"

definition redactedText :: string where
  "redactedText = ''[redacted]''"

text \<open>The text of a cause behind a colon, as the conversion errors print it.\<close>

definition causeText :: "bool \<Rightarrow> string option \<Rightarrow> string" where
  "causeText secret cause =
     (case cause of None \<Rightarrow> [] | Some t \<Rightarrow> '': '' @ (if secret then redactedText else t))"

text \<open>The \<open>Error\<close> methods, one for each type, over the texts of the errors it holds.\<close>

definition multiText :: "string list \<Rightarrow> string" where
  "multiText texts =
     (case texts of
        [] \<Rightarrow> ''recon: empty multi-error''
      | [t] \<Rightarrow> t
      | ts \<Rightarrow> ''recon: '' @ formatNat (length ts) @ '' errors:'' @ [CHR 0x0A]
               @ join (map (\<lambda>t. ''  - '' @ t) ts) [CHR 0x0A])"

definition missingText :: "path \<Rightarrow> string list \<Rightarrow> string" where
  "missingText p ss =
     ''recon: missing required value for '' @ pathString p
     @ (if ss = [] then [] else '' (sources consulted: '' @ join ss '', '' @ '')'')"

definition emptyText :: "(string \<Rightarrow> string) \<Rightarrow> path \<Rightarrow> string \<Rightarrow> string" where
  "emptyText q p source = ''recon: empty value for '' @ pathString p @ '' (from source '' @ q source @ '')''"

definition coercionText ::
  "(string \<Rightarrow> string) \<Rightarrow> path \<Rightarrow> string \<Rightarrow> string \<Rightarrow> string \<Rightarrow> string option \<Rightarrow> bool \<Rightarrow> string" where
  "coercionText q p source wire target cause secret =
     ''recon: coerce '' @ pathString p @ '': '' @ wire @ '' '' @ arrow @ '' '' @ target
     @ (if source \<noteq> [] then '' (source '' @ q source @ '')'' else [])
     @ causeText secret cause"

definition unknownText :: "(string \<Rightarrow> string) \<Rightarrow> path \<Rightarrow> string \<Rightarrow> string" where
  "unknownText q p source = ''recon: unknown key '' @ pathString p @ '' (source '' @ q source @ '', strict mode)''"

definition immutableText :: "(string \<Rightarrow> string) \<Rightarrow> path \<Rightarrow> string \<Rightarrow> string \<Rightarrow> string" where
  "immutableText q p old new =
     ''recon: immutable key '' @ pathString p @ '' changed: '' @ q old @ '' '' @ arrow @ '' '' @ q new"

definition sourceText :: "(string \<Rightarrow> string) \<Rightarrow> string \<Rightarrow> string \<Rightarrow> string option \<Rightarrow> string" where
  "sourceText q source op cause = ''recon: source '' @ q source @ '' '' @ op @ '': '' @ sprintErr cause"

definition cycleText :: "path list \<Rightarrow> string" where
  "cycleText chain = ''recon: alias cycle: '' @ join (map pathString chain) ('' '' @ arrow @ '' '')"

definition invalidText :: "path \<Rightarrow> string \<Rightarrow> string \<Rightarrow> bool \<Rightarrow> string" where
  "invalidText p rule msg secret =
     ''recon: validation '' @ pathString p @ (if rule \<noteq> [] then '' ['' @ rule @ '']'' else []) @ '': ''
     @ (if secret then redactedText else msg)"

definition parseText :: "string \<Rightarrow> string \<Rightarrow> int \<times> int \<Rightarrow> string option \<Rightarrow> string \<Rightarrow> string" where
  "parseText source file pos cause msg =
     (let detail = parseDetail msg cause; loc = parseLocation source file pos
      in if loc = [] then ''recon: parse: '' @ detail else ''recon: parse '' @ loc @ '': '' @ detail)"

definition schemaText :: "string \<Rightarrow> string" where
  "schemaText t = ''recon: schema validation: '' @ trimPrefix t ''recon: ''"

fun errText :: "(string \<Rightarrow> string) \<Rightarrow> goerr \<Rightarrow> string" where
  "errText q (Sentinel s) = s"
| "errText q (Plain s) = s"
| "errText q (Wraps s es) = s"
| "errText q (JoinE es) = join (map (errText q) es) [CHR 0x0A]"
| "errText q (MultiE es) = multiText (map (errText q) es)"
| "errText q (MissingE p ss) = missingText p ss"
| "errText q (EmptyE p source) = emptyText q p source"
| "errText q (CoercionE p source wire target cause secret) =
     coercionText q p source wire target (map_option (errText q) cause) secret"
| "errText q (UnknownE p source) = unknownText q p source"
| "errText q (ImmutableE p old new) = immutableText q p old new"
| "errText q (SourceE source op cause) = sourceText q source op (map_option (errText q) cause)"
| "errText q (CycleE chain) = cycleText chain"
| "errText q (InvalidE p rule msg secret cause) = invalidText p rule msg secret"
| "errText q (ParseE source file pos cause msg) = parseText source file pos (map_option (errText q) cause) msg"
| "errText q (SchemaE e) = schemaText (errText q e)"

lemmas text_defs = multiText_def missingText_def emptyText_def coercionText_def unknownText_def immutableText_def
  sourceText_def cycleText_def invalidText_def parseText_def schemaText_def

text \<open>\<open>MultiError.Append\<close>: nil is \<open>None\<close>.\<close>

definition multiAppend :: "goerr option \<Rightarrow> goerr list \<Rightarrow> goerr list" where
  "multiAppend err es = (case err of None \<Rightarrow> es | Some e \<Rightarrow> es @ [e])"

definition warningString :: "(string \<Rightarrow> string) \<Rightarrow> deprecation \<Rightarrow> string" where
  "warningString q w =
     (if dwPath w = [] then dwMessage w
      else ''recon: '' @ pathString (dwPath w) @ '' is deprecated''
        @ (if dwSource w \<noteq> [] then '' (source '' @ q (dwSource w) @ '')'' else [])
        @ (if dwReplacement w \<noteq> [] then ''; use '' @ pathString (dwReplacement w) @ '' instead'' else [])
        @ (if dwMessage w \<noteq> [] \<and> dwMessage w \<noteq> genericDeprecationMessage (dwPath w) then '': '' @ dwMessage w else []))"


section \<open>What an error wraps\<close>

fun unwrapped :: "goerr \<Rightarrow> goerr list" where
  "unwrapped (Wraps s es) = es"
| "unwrapped (JoinE es) = es"
| "unwrapped (MultiE es) = es"
| "unwrapped (CoercionE p source wire target cause secret) = (case cause of None \<Rightarrow> [] | Some c \<Rightarrow> [c])"
| "unwrapped (SourceE source op cause) = (case cause of None \<Rightarrow> [] | Some c \<Rightarrow> [c])"
| "unwrapped (InvalidE p rule msg secret cause) =
     (if secret then [] else case cause of None \<Rightarrow> [] | Some c \<Rightarrow> [c])"
| "unwrapped (ParseE source file pos cause msg) = (case cause of None \<Rightarrow> [] | Some c \<Rightarrow> [c])"
| "unwrapped (SchemaE e) = [e]"
| "unwrapped e = []"

lemma unwrapped_smaller: "x \<in> set (unwrapped e) \<Longrightarrow> size x < size e"
  by (cases e rule: unwrapped.cases)
    (auto split: option.splits if_splits simp: less_Suc_eq_le dest: size_list_estimation'[OF _ order_refl])

text \<open>The tree in the order in which \<open>errors.Is\<close> and \<open>errors.As\<close> walk it.\<close>

function errChain :: "goerr \<Rightarrow> goerr list" where
  "errChain e = e # concat (map errChain (unwrapped e))"
  by pat_completeness auto
termination by (relation "measure size") (auto dest: unwrapped_smaller)

declare errChain.simps [simp del]

definition asErr :: "(goerr \<Rightarrow> bool) \<Rightarrow> goerr \<Rightarrow> goerr option" where
  "asErr P e = List.find P (errChain e)"

fun kindSentinel :: "goerr \<Rightarrow> string option" where
  "kindSentinel (MissingE p ss) = Some ErrMissingRequired"
| "kindSentinel (EmptyE p s) = Some ErrEmptyValue"
| "kindSentinel (CoercionE p s w t c b) = Some ErrCoercion"
| "kindSentinel (UnknownE p s) = Some ErrUnknownKey"
| "kindSentinel (ImmutableE p old new) = Some ErrImmutableChanged"
| "kindSentinel (CycleE ps) = Some ErrAliasCycle"
| "kindSentinel (InvalidE p r m b c) = Some ErrValidation"
| "kindSentinel e = None"

text \<open>\<open>errors.Is\<close> for a sentinel: every \<open>Is\<close> method answers for the sentinel of its type.\<close>

definition isSentinel :: "string \<Rightarrow> goerr \<Rightarrow> bool" where
  "isSentinel s e = (\<exists>x \<in> set (errChain e). x = Sentinel s \<or> kindSentinel x = Some s)"

fun isMissing where "isMissing (MissingE p ss) = True" | "isMissing e = False"
fun isEmptyV where "isEmptyV (EmptyE p s) = True" | "isEmptyV e = False"
fun isCoercion where "isCoercion (CoercionE p s w t c b) = True" | "isCoercion e = False"
fun isInvalid where "isInvalid (InvalidE p r m b c) = True" | "isInvalid e = False"
fun isImmutable where "isImmutable (ImmutableE p old new) = True" | "isImmutable e = False"
fun isSourceE where "isSourceE (SourceE s op c) = True" | "isSourceE e = False"
fun isParseE where "isParseE (ParseE s f pos c m) = True" | "isParseE e = False"
fun isMultiE where "isMultiE (MultiE es) = True" | "isMultiE e = False"

text \<open>The \<open>Is\<close> methods.\<close>

fun isMethod :: "goerr \<Rightarrow> goerr \<Rightarrow> bool" where
  "isMethod (MissingE p ss) t = (t = Sentinel ErrMissingRequired
     \<or> (case asErr isMissing t of Some (MissingE p' _) \<Rightarrow> pathEqual p p' | _ \<Rightarrow> False))"
| "isMethod (EmptyE p s) t = (t = Sentinel ErrEmptyValue
     \<or> (case asErr isEmptyV t of Some (EmptyE p' s') \<Rightarrow> pathEqual p p' \<and> s = s' | _ \<Rightarrow> False))"
| "isMethod (ImmutableE p old new) t = (t = Sentinel ErrImmutableChanged
     \<or> (case asErr isImmutable t of Some (ImmutableE p' _ _) \<Rightarrow> pathEqual p p' | _ \<Rightarrow> False))"
| "isMethod (CoercionE p s w tg c b) t = isSentinel ErrCoercion t"
| "isMethod (UnknownE p s) t = isSentinel ErrUnknownKey t"
| "isMethod (CycleE ps) t = isSentinel ErrAliasCycle t"
| "isMethod (InvalidE p r m b c) t = isSentinel ErrValidation t"
| "isMethod e t = False"

definition errorsIs :: "goerr \<Rightarrow> goerr \<Rightarrow> bool" where
  "errorsIs e t = (\<exists>x \<in> set (errChain e). (\<exists>s. x = Sentinel s \<and> t = Sentinel s) \<or> isMethod x t)"


section \<open>The report\<close>

definition quoteName :: "string \<Rightarrow> string" where
  "quoteName s = [CHR 0x22] @ s @ [CHR 0x22]"

definition formatSourceList :: "string list \<Rightarrow> string" where
  "formatSourceList srcs = ''['' @ join (map quoteName srcs) '', '' @ '']''"

definition buildProvenance :: "registry option \<Rightarrow> path \<Rightarrow> string \<Rightarrow> string" where
  "buildProvenance reg p source =
     (let parts = (if source \<noteq> [] then [''source '' @ quoteName source] else [])
            @ (case reg of
                 None \<Rightarrow> []
               | Some r \<Rightarrow> (case rgSnapshot r of
                              None \<Rightarrow> []
                            | Some snap \<Rightarrow> (case SourceFor snap p of
                                               [] \<Rightarrow> []
                                             | all \<Rightarrow> [''chain '' @ formatSourceList all])))
      in if parts = [] then [] else ''('' @ join parts ''; '' @ '')'')"

definition formatPathErr :: "registry option \<Rightarrow> path \<Rightarrow> string \<Rightarrow> string \<Rightarrow> string" where
  "formatPathErr reg p msg source =
     (let annotation = buildProvenance reg p source
      in pathString p @ '': '' @ msg @ (if annotation \<noteq> [] then '' '' @ annotation else []))"

text \<open>The line of an error of one of the types \<open>formatOneError\<close> knows, and the search in its order.\<close>

fun formatTyped :: "(string \<Rightarrow> string) \<Rightarrow> registry option \<Rightarrow> goerr \<Rightarrow> string" where
  "formatTyped q reg (MissingE p ss) = formatPathErr reg p ''missing required value'' []"
| "formatTyped q reg (EmptyE p source) = formatPathErr reg p ''empty value'' source"
| "formatTyped q reg (CoercionE p source wire target cause secret) =
     formatPathErr reg p (''coerce '' @ wire @ '' '' @ arrow @ '' '' @ target
       @ causeText secret (map_option (errText q) cause)) source"
| "formatTyped q reg (InvalidE p rule msg secret cause) =
     formatPathErr reg p ((if rule \<noteq> [] then ''['' @ rule @ ''] '' else []) @ (if secret then redactedText else msg)) []"
| "formatTyped q reg (ImmutableE p old new) =
     formatPathErr reg p (''immutable key changed: '' @ q old @ '' '' @ arrow @ '' '' @ q new) []"
| "formatTyped q reg (SourceE source op cause) =
     ''source '' @ q source @ '' '' @ op @ '': '' @ sprintErr (map_option (errText q) cause)"
| "formatTyped q reg (ParseE source file pos cause msg) =
     ''parse '' @ parseLocation source file pos @ '': '' @ parseDetail msg (map_option (errText q) cause)"
| "formatTyped q reg e = errText q e"

fun formatFirst :: "(string \<Rightarrow> string) \<Rightarrow> registry option \<Rightarrow> (goerr \<Rightarrow> bool) list \<Rightarrow> goerr \<Rightarrow> string" where
  "formatFirst q reg [] e = errText q e"
| "formatFirst q reg (P # Ps) e =
     (case asErr P e of Some x \<Rightarrow> formatTyped q reg x | None \<Rightarrow> formatFirst q reg Ps e)"

definition formatOneError :: "(string \<Rightarrow> string) \<Rightarrow> registry option \<Rightarrow> goerr \<Rightarrow> string" where
  "formatOneError q reg =
     formatFirst q reg ([isMissing, isEmptyV, isCoercion] @ [isInvalid, isImmutable, isSourceE, isParseE])"

definition applyColor :: "string \<Rightarrow> bool \<Rightarrow> string \<Rightarrow> string" where
  "applyColor s enabled code = (if enabled then code @ s @ [CHR 0x1B] @ ''[0m'' else s)"

definition trimNewlines :: "string \<Rightarrow> string" where
  "trimNewlines s = rev (dropWhile (\<lambda>c. c = CHR 0x0A) (rev s))"

definition FormatError :: "(string \<Rightarrow> string) \<Rightarrow> registry option \<Rightarrow> bool \<Rightarrow> goerr option \<Rightarrow> string" where
  "FormatError q reg color err =
     (case err of
        None \<Rightarrow> []
      | Some e \<Rightarrow>
          (case asErr isMultiE e of
             Some (MultiE (sub # subs)) \<Rightarrow>
               trimNewlines (applyColor (''recon: '' @ formatNat (length (sub # subs)) @ '' errors:'') color ([CHR 0x1B] @ ''[1m'')
                 @ [CHR 0x0A]
                 @ concat (map (\<lambda>s. ''  '' @ applyColor bullet color ([CHR 0x1B] @ ''[31m'') @ '' ''
                                     @ formatOneError q reg s @ [CHR 0x0A]) (sub # subs)))
           | _ \<Rightarrow> applyColor ''recon:'' color ([CHR 0x1B] @ ''[31m'') @ '' '' @ formatOneError q reg e))"

definition FormatErrorColor :: "(string \<Rightarrow> string) \<Rightarrow> registry option \<Rightarrow> goerr option \<Rightarrow> string" where
  "FormatErrorColor q reg err = FormatError q reg True err"


section \<open>Redaction of a validator's errors\<close>

fun redactValidation :: "(string \<Rightarrow> bool) \<Rightarrow> goerr \<Rightarrow> goerr" where
  "redactValidation secrets (InvalidE p rule msg secret cause) =
     (if secrets (pathString p) then InvalidE p rule msg True cause
      else if secret then InvalidE p rule msg True cause
      else InvalidE p rule msg False (map_option (redactValidation secrets) cause))"
| "redactValidation secrets (Wraps s es) = Wraps s (map (redactValidation secrets) es)"
| "redactValidation secrets (JoinE es) = JoinE (map (redactValidation secrets) es)"
| "redactValidation secrets (MultiE es) = MultiE (map (redactValidation secrets) es)"
| "redactValidation secrets (CoercionE p source wire target cause secret) =
     CoercionE p source wire target (map_option (redactValidation secrets) cause) secret"
| "redactValidation secrets (SourceE source op cause) = SourceE source op (map_option (redactValidation secrets) cause)"
| "redactValidation secrets (ParseE source file pos cause msg) =
     ParseE source file pos (map_option (redactValidation secrets) cause) msg"
| "redactValidation secrets (SchemaE e) = SchemaE (redactValidation secrets e)"
| "redactValidation secrets e = e"




section \<open>The errors of the other parts\<close>

fun regGoErr :: "(string \<Rightarrow> string) \<Rightarrow> regError \<Rightarrow> goerr" where
  "regGoErr q RegistryClosed = Sentinel ErrRegistryClosed"
| "regGoErr q NilContext = Sentinel ''recon: nil context''"
| "regGoErr q (ContextError e) = Wraps (''recon: reload context: '' @ e) [Plain e]"
| "regGoErr q (InvalidPath s) = Wraps (''recon: invalid path: '' @ s) [Sentinel ''recon: invalid path'']"
| "regGoErr q (SourceConflict name) =
     Wraps (''recon: source name conflict: '' @ q name @ (if isReservedSourceName name then '' is a reserved provenance label'' else []))
       [Sentinel ''recon: source name conflict'']"
| "regGoErr q (PinError name) =
     SourceE name ''pin'' (Some (Wraps ''not registered: recon: source name conflict'' [Sentinel ''recon: source name conflict'']))"
| "regGoErr q (CloseError name e) = SourceE name ''close'' (Some (Plain e))"
| "regGoErr q (AliasCycle ps) = CycleE ps"
| "regGoErr q (ImmutableChanged p old new) = ImmutableE p old new"
| "regGoErr q (SchemaError s) = SchemaE (Plain s)"
| "regGoErr q (MultiErr es) = MultiE (map (regGoErr q) es)"
| "regGoErr q (JoinErr es) = JoinE (map (regGoErr q) es)"

text \<open>\<open>name\<close> writes a type, \<open>cause\<close> the reason of a conversion.\<close>

fun bindGoErr :: "(gtype \<Rightarrow> string) \<Rightarrow> (bindCause \<Rightarrow> goerr) \<Rightarrow> bindError \<Rightarrow> goerr" where
  "bindGoErr name cause BindClosed = Sentinel ErrRegistryClosed"
| "bindGoErr name cause (BindCoercion p source wire T c secret) = CoercionE p source wire (name T) (Some (cause c)) secret"
| "bindGoErr name cause (BindMissing p ss) = MissingE p ss"
| "bindGoErr name cause (BindEmpty p s) = EmptyE p s"
| "bindGoErr name cause (BindUnknown p s) = UnknownE p s"
| "bindGoErr name cause (BindHook s) = Plain s"

definition parseGoErr :: "parseError \<Rightarrow> goerr" where
  "parseGoErr e = ParseE (peSource e) (pePath e) (pePosition e) (Some (Plain (deText (peCause e)))) (peMsg e)"


section \<open>Secrets stay out of the texts\<close>

text \<open>The error without what its secret parts hold.\<close>

fun hide :: "goerr \<Rightarrow> goerr" where
  "hide (CoercionE p source wire target cause secret) =
     CoercionE p source wire target (if secret then map_option (\<lambda>_. Plain []) cause else map_option hide cause) secret"
| "hide (InvalidE p rule msg secret cause) =
     (if secret then InvalidE p rule [] True None else InvalidE p rule msg False (map_option hide cause))"
| "hide (Wraps s es) = Wraps s (map hide es)"
| "hide (JoinE es) = JoinE (map hide es)"
| "hide (MultiE es) = MultiE (map hide es)"
| "hide (SourceE source op cause) = SourceE source op (map_option hide cause)"
| "hide (ParseE source file pos cause msg) = ParseE source file pos (map_option hide cause) msg"
| "hide (SchemaE e) = SchemaE (hide e)"
| "hide e = e"








lemma asErr_parts: "asErr P e = (if P e then Some e else List.find P (concat (map errChain (unwrapped e))))"
  unfolding asErr_def by (subst errChain.simps) simp




lemma kinds_hide [simp]:
  "isMissing (hide e) = isMissing e" "isEmptyV (hide e) = isEmptyV e" "isCoercion (hide e) = isCoercion e"
  "isInvalid (hide e) = isInvalid e" "isImmutable (hide e) = isImmutable e" "isSourceE (hide e) = isSourceE e"
  "isParseE (hide e) = isParseE e" "isMultiE (hide e) = isMultiE e"
  by (cases e rule: hide.cases; simp)+













section \<open>Property\<close>




text \<open>The exception: the report finds an error of several in the cause of a secret and prints its parts.\<close>

lemma format_shows_hidden_multi:
  "FormatError q None False (Some (CoercionE p source wire target (Some (MultiE [Plain s])) True))
   = trimNewlines (''recon: '' @ formatNat 1 @ '' errors:'' @ [CHR 0x0A] @ ''  '' @ bullet @ '' '' @ s @ [CHR 0x0A])"
  by (simp add: FormatError_def asErr_parts errChain.simps formatOneError_def applyColor_def)

text \<open>An error the validator wrapped before it returned has its text already: marking comes too late for it.\<close>

lemma wrapped_text_kept:
  "errText q (redactValidation secrets (Wraps s es)) = s"
  by simp

text \<open>
  The error of a bind: its text does not depend on how the causes of secret fields are written.
\<close>

lemma bind_text_hides:
  assumes "\<And>p source wire T c secret. BindCoercion p source wire T c secret \<in> set errs \<Longrightarrow> \<not> secret \<Longrightarrow> cause c = cause' c"
  shows "errText q (MultiE (map (bindGoErr name cause) errs)) = errText q (MultiE (map (bindGoErr name cause') errs))"
proof -
  have "errText q (bindGoErr name cause e) = errText q (bindGoErr name cause' e)" if "e \<in> set errs" for e
  proof (cases e)
    case (BindCoercion p source wire T c secret)
    with assms that show ?thesis by (cases secret) (auto simp: coercionText_def causeText_def)
  qed simp_all
  then show ?thesis by (simp add: comp_def cong: map_cong)
qed

text \<open>Every error answers for the sentinel of its kind, through any wrapping.\<close>

lemma isSentinel_kind: "x \<in> set (errChain e) \<Longrightarrow> kindSentinel x = Some s \<Longrightarrow> errorsIs e (Sentinel s)"
  by (cases x)
    (force simp: errorsIs_def isSentinel_def errChain.simps[of "Sentinel _"] intro!: bexI[of _ x])+

end
