(* ===== verification/Options.thy ===== *)
theory Options
  imports Save FileSource EnvSource Watch Bind
begin

text \<open>
  \<open>options.go\<close>, \<open>options_decode.go\<close>, \<open>options_encode.go\<close>, the options of the environment and flag
  sources, and the constructors of \<open>registry.go\<close>: an option is a function on the record it fills, applied
  in the order of the arguments. The logger and the contexts are left out. A set of codecs is a value;
  the code shares the caller's set with the registry, so an edit is seen by both.
\<close>

section \<open>Registry options\<close>

datatype errorBehavior = FailCollect | FailFast

type_synonym validator = "(string \<times> goany) list \<Rightarrow> string option"

record registryOptions =
  roSources :: "source list"
  roPrecedence :: "string list"
  roStrict :: bool
  roErrors :: errorBehavior
  roDebounce :: int64
  roEventBuf :: int
  roPoll :: int64
  roValidator :: "validator option"
  roCodecs :: "codecs option"
  roCodecEdits :: "(codecs \<Rightarrow> codecs) list"
  roWatcher :: "watcherFactory option"
  roNoWatch :: bool
  roRedactor :: "(string \<Rightarrow> string) option"
  roMerge :: mergeStrategy
  roOptionErr :: "string option"

type_synonym registryOption = "registryOptions \<Rightarrow> registryOptions"

definition defaultSecretRedactor :: "string \<Rightarrow> string" where
  "defaultSecretRedactor s = ''***''"

definition defaultRegistryOptions :: registryOptions where
  "defaultRegistryOptions =
     \<lparr>roSources = [], roPrecedence = [], roStrict = False, roErrors = FailCollect,
      roDebounce = 50 * 1000000, roEventBuf = 16, roPoll = 0, roValidator = None, roCodecs = None,
      roCodecEdits = [], roWatcher = None, roNoWatch = False, roRedactor = Some defaultSecretRedactor,
      roMerge = MergeShadow, roOptionErr = None\<rparr>"

definition WithSource :: "source option \<Rightarrow> registryOption" where
  "WithSource s o0 = (case s of None \<Rightarrow> o0 | Some src \<Rightarrow> o0\<lparr>roSources := roSources o0 @ [src]\<rparr>)"

definition WithSources :: "source option list \<Rightarrow> registryOption" where
  "WithSources ss o0 = fold WithSource ss o0"

definition WithPrecedence :: "string list \<Rightarrow> registryOption" where
  "WithPrecedence order o0 = o0\<lparr>roPrecedence := order\<rparr>"

definition WithStrict :: registryOption where
  "WithStrict o0 = o0\<lparr>roStrict := True\<rparr>"

definition WithLenient :: registryOption where
  "WithLenient o0 = o0\<lparr>roStrict := False\<rparr>"

definition WithErrorBehavior :: "errorBehavior \<Rightarrow> registryOption" where
  "WithErrorBehavior b o0 = o0\<lparr>roErrors := b\<rparr>"

definition WithReloadDebounce :: "int64 \<Rightarrow> registryOption" where
  "WithReloadDebounce d o0 = o0\<lparr>roDebounce := d\<rparr>"

definition WithEventBufferSize :: "int \<Rightarrow> registryOption" where
  "WithEventBufferSize n o0 = (if 0 < n then o0\<lparr>roEventBuf := n\<rparr> else o0)"

definition WithPoll :: "int64 \<Rightarrow> registryOption" where
  "WithPoll d o0 = o0\<lparr>roPoll := d\<rparr>"

definition WithValidator :: "validator option \<Rightarrow> registryOption" where
  "WithValidator v o0 = o0\<lparr>roValidator := v\<rparr>"

text \<open>\<open>compile\<close> is \<open>NewJSONSchemaValidator\<close>.\<close>

definition WithSchema :: "(string \<Rightarrow> string + validator) \<Rightarrow> string \<Rightarrow> registryOption" where
  "WithSchema compile schema o0 =
     (case compile schema of
        Inl e \<Rightarrow> o0\<lparr>roOptionErr := Some e\<rparr>
      | Inr v \<Rightarrow> o0\<lparr>roValidator := Some v\<rparr>)"

definition editCodecs :: "(codecs \<Rightarrow> codecs) \<Rightarrow> registryOption" where
  "editCodecs edit o0 =
     (case roCodecs o0 of
        None \<Rightarrow> o0\<lparr>roCodecEdits := roCodecEdits o0 @ [edit]\<rparr>
      | Some cs \<Rightarrow> o0\<lparr>roCodecs := Some (edit cs)\<rparr>)"

definition WithCodec :: "fileCodec option \<Rightarrow> registryOption" where
  "WithCodec c o0 = (case c of None \<Rightarrow> o0 | Some k \<Rightarrow> editCodecs (csRegister (Some k)) o0)"

definition WithoutCodec :: "string \<Rightarrow> registryOption" where
  "WithoutCodec name = editCodecs (csUnregister name)"

definition WithCodecs :: "codecs option \<Rightarrow> registryOption" where
  "WithCodecs cs o0 = o0\<lparr>roCodecs := cs, roCodecEdits := []\<rparr>"

definition finishCodecs :: "codecs \<Rightarrow> registryOption" where
  "finishCodecs base o0 =
     (let cs = (case roCodecs o0 of None \<Rightarrow> base | Some cs \<Rightarrow> cs)
      in o0\<lparr>roCodecs := Some (fold (\<lambda>edit. edit) (roCodecEdits o0) cs), roCodecEdits := []\<rparr>)"

definition WithWatcher :: "watcherFactory option \<Rightarrow> registryOption" where
  "WithWatcher w o0 = o0\<lparr>roWatcher := w\<rparr>"

definition WithoutWatch :: registryOption where
  "WithoutWatch o0 = o0\<lparr>roNoWatch := True\<rparr>"

definition WithSecretRedactor :: "(string \<Rightarrow> string) option \<Rightarrow> registryOption" where
  "WithSecretRedactor f o0 = (case f of None \<Rightarrow> o0 | Some g \<Rightarrow> o0\<lparr>roRedactor := Some g\<rparr>)"

definition WithMerge :: "mergeStrategy \<Rightarrow> registryOption" where
  "WithMerge m o0 = o0\<lparr>roMerge := m\<rparr>"


section \<open>The constructors\<close>

definition applyOptions :: "registryOption list \<Rightarrow> registryOptions \<Rightarrow> registryOptions" where
  "applyOptions opts o0 = fold (\<lambda>opt. opt) opts o0"

text \<open>
  \<open>New\<close> with the bundled codecs \<open>bundled\<close>: an option's error, or what \<open>buildRegistry\<close> gives, with the
  options the registry keeps. \<open>fm\<close> writes numbers and times.
\<close>

definition builtWith :: "formatters \<Rightarrow> registryOptions \<Rightarrow> regError option \<times> registry option" where
  "builtWith fm o0 =
     buildRegistry (map Some (roSources o0)) (roPrecedence o0) (\<not> roNoWatch o0)
       (freshRegistry (roValidator o0) (roRedactor o0) (roMerge o0) fm)"

definition newRegistry ::
  "codecs \<Rightarrow> formatters \<Rightarrow> registryOption list \<Rightarrow> string + registryOptions \<times> regError option \<times> registry option" where
  "newRegistry bundled fm opts =
     (let o1 = applyOptions opts defaultRegistryOptions
      in case roOptionErr o1 of
           Some e \<Rightarrow> Inl e
         | None \<Rightarrow> (let o2 = finishCodecs bundled o1 in Inr (o2, builtWith fm o2)))"

definition withCodecsBase :: "codecs option \<Rightarrow> registryOptions" where
  "withCodecsBase cs =
     defaultRegistryOptions\<lparr>roCodecs := Some (case cs of None \<Rightarrow> NewCodecs [] | Some c \<Rightarrow> c)\<rparr>"

definition NewWithCodecs ::
  "codecs option \<Rightarrow> formatters \<Rightarrow> registryOption list \<Rightarrow> string + registryOptions \<times> regError option \<times> registry option" where
  "NewWithCodecs cs fm opts =
     (let o1 = applyOptions opts (withCodecsBase cs)
      in case roOptionErr o1 of
           Some e \<Rightarrow> Inl e
         | None \<Rightarrow> (let o2 = finishCodecs (NewCodecs []) o1 in Inr (o2, builtWith fm o2)))"

definition NewWithCodecsWithoutWatch ::
  "codecs option \<Rightarrow> formatters \<Rightarrow> registryOption list \<Rightarrow> string + registryOptions \<times> regError option \<times> registry option" where
  "NewWithCodecsWithoutWatch cs fm opts =
     (let o1 = applyOptions opts (withCodecsBase cs)
      in case roOptionErr o1 of
           Some e \<Rightarrow> Inl e
         | None \<Rightarrow> (let o2 = (finishCodecs (NewCodecs []) o1)\<lparr>roNoWatch := True\<rparr> in Inr (o2, builtWith fm o2)))"

text \<open>The engine \<open>New\<close> starts has the buffer of its options.\<close>

definition engineOf :: "registryOptions \<Rightarrow> registry \<Rightarrow> engine" where
  "engineOf o0 r = newWatchEngine (roEventBuf o0) r"


section \<open>Options of a bind\<close>

record decodeOptions =
  doStrict :: "bool option"
  doErrors :: "errorBehavior option"
  doTag :: string
  doDecoders :: "(gtype \<times> (govalue \<Rightarrow> decoded)) list"

type_synonym decodeOption = "decodeOptions \<Rightarrow> decodeOptions"

definition WithDecodeStrict :: decodeOption where
  "WithDecodeStrict o0 = o0\<lparr>doStrict := Some True\<rparr>"

definition WithDecodeLenient :: decodeOption where
  "WithDecodeLenient o0 = o0\<lparr>doStrict := Some False\<rparr>"

definition WithDecodeErrorBehavior :: "errorBehavior \<Rightarrow> decodeOption" where
  "WithDecodeErrorBehavior b o0 = o0\<lparr>doErrors := Some b\<rparr>"

definition WithDecodeTag :: "string \<Rightarrow> decodeOption" where
  "WithDecodeTag name o0 = o0\<lparr>doTag := name\<rparr>"

definition WithCustomDecoder :: "gtype \<Rightarrow> (govalue \<Rightarrow> decoded) \<Rightarrow> decodeOption" where
  "WithCustomDecoder T f o0 = o0\<lparr>doDecoders := (T, f) # doDecoders o0\<rparr>"

definition buildDecodeOptions :: "registryOptions \<Rightarrow> decodeOption list \<Rightarrow> decodeOptions" where
  "buildDecodeOptions ro opts =
     (let cfg = fold (\<lambda>opt. opt) opts \<lparr>doStrict = None, doErrors = None, doTag = TagName, doDecoders = []\<rparr>
      in cfg\<lparr>doTag := (if doTag cfg = [] then TagName else doTag cfg),
             doStrict := Some (case doStrict cfg of None \<Rightarrow> roStrict ro | Some b \<Rightarrow> b),
             doErrors := Some (case doErrors cfg of None \<Rightarrow> roErrors ro | Some b \<Rightarrow> b)\<rparr>)"

text \<open>What a bind reads of them; \<open>rest\<close> gives what is not an option.\<close>

definition bindOptsOf :: "decodeOptions \<Rightarrow> bindOpts \<Rightarrow> bindOpts" where
  "bindOptsOf cfg rest =
     rest\<lparr>boTag := doTag cfg, boFailFast := (doErrors cfg = Some FailFast), boStrict := (doStrict cfg = Some True),
          boDecoder := map_of (doDecoders cfg)\<rparr>"


section \<open>Options of a save\<close>

type_synonym saveOption = "saveOptions \<Rightarrow> saveOptions"

definition WithSaveFormat :: "string \<Rightarrow> saveOption" where
  "WithSaveFormat format o0 = o0\<lparr>soFormat := format\<rparr>"

definition WithSaveIncludeSecrets :: saveOption where
  "WithSaveIncludeSecrets o0 = o0\<lparr>soIncludeSecrets := True\<rparr>"

definition WithSaveIncludeDefaults :: saveOption where
  "WithSaveIncludeDefaults o0 = o0\<lparr>soIncludeDefaults := True\<rparr>"

definition WithSaveOnly :: "string \<Rightarrow> saveOption" where
  "WithSaveOnly prefix o0 = o0\<lparr>soOnlyPrefix := prefix\<rparr>"


section \<open>Options of the environment and flag sources\<close>

type_synonym envOption = "envOptions \<Rightarrow> envOptions"

definition WithEnvPrefix :: "string \<Rightarrow> envOption" where
  "WithEnvPrefix prefix o0 = o0\<lparr>eoPrefix := prefix\<rparr>"

definition WithEnvTransform :: "(path \<Rightarrow> string) option \<Rightarrow> envOption" where
  "WithEnvTransform f o0 = (case f of None \<Rightarrow> o0 | Some g \<Rightarrow> o0\<lparr>eoTransform := Some g\<rparr>)"

definition WithEnvKeyParser :: "(string \<Rightarrow> path) option \<Rightarrow> envOption" where
  "WithEnvKeyParser f o0 = (case f of None \<Rightarrow> o0 | Some g \<Rightarrow> o0\<lparr>eoParser := Some g\<rparr>)"

definition WithEnvVars :: "string gomap \<Rightarrow> envOption" where
  "WithEnvVars vars o0 = (if vars = [] then o0 else o0\<lparr>eoVars := mcopy (eoVars o0) vars\<rparr>)"

definition osEnvWith :: "bool \<Rightarrow> envOption list \<Rightarrow> envSource" where
  "osEnvWith foldCase opts =
     NewOSEnvSource foldCase
       (fold (\<lambda>opt. opt) opts \<lparr>eoPrefix = [], eoTransform = None, eoParser = None, eoVars = []\<rparr>)"

record flagOptions =
  flName :: string
  flTransform :: "string \<Rightarrow> path"

type_synonym flagOption = "flagOptions \<Rightarrow> flagOptions"

definition WithFlagName :: "string \<Rightarrow> flagOption" where
  "WithFlagName name o0 = (if name \<noteq> [] then o0\<lparr>flName := name\<rparr> else o0)"

definition WithFlagPathTransform :: "(string \<Rightarrow> path) option \<Rightarrow> flagOption" where
  "WithFlagPathTransform f o0 = (case f of None \<Rightarrow> o0 | Some g \<Rightarrow> o0\<lparr>flTransform := g\<rparr>)"

text \<open>An adapter is its names and its \<open>Lookup\<close>.\<close>

definition NewFlagSource ::
  "(string list \<times> (string \<Rightarrow> goany \<times> bool)) option \<Rightarrow> flagOption list \<Rightarrow> string + flagSource" where
  "NewFlagSource adapter opts =
     (case adapter of
        None \<Rightarrow> Inl ''recon: invalid path: NewFlagSource: nil FlagAdapter''
      | Some (names, lookup) \<Rightarrow>
          (let cfg = fold (\<lambda>opt. opt) opts \<lparr>flName = ''flags'', flTransform = defaultFlagPathTransform\<rparr>
           in Inr \<lparr>fsName = flName cfg, fsNames = names, fsLookup = lookup, fsTransform = flTransform cfg\<rparr>))"


section \<open>The set of codecs a registry gets\<close>

text \<open>
  The intent: the options edit one set from left to right. It starts as the base set, and
  \<open>WithCodecs\<close> puts another in its place.
\<close>

datatype codecOption = Add "fileCodec option" | Remove string | Replace "codecs option"

fun optionOf :: "codecOption \<Rightarrow> registryOption" where
  "optionOf (Add c) = WithCodec c"
| "optionOf (Remove name) = WithoutCodec name"
| "optionOf (Replace cs) = WithCodecs cs"

fun directly :: "codecs \<Rightarrow> codecOption \<Rightarrow> codecs \<Rightarrow> codecs" where
  "directly base (Add c) cs = csRegister c cs"
| "directly base (Remove name) cs = csUnregister name cs"
| "directly base (Replace None) cs = base"
| "directly base (Replace (Some new)) cs = new"

text \<open>What the options so far would give.\<close>

definition currentSet :: "codecs \<Rightarrow> registryOptions \<Rightarrow> codecs" where
  "currentSet base o0 = fold (\<lambda>edit. edit) (roCodecEdits o0) (case roCodecs o0 of None \<Rightarrow> base | Some cs \<Rightarrow> cs)"

definition editsQueued :: "registryOptions \<Rightarrow> bool" where
  "editsQueued o0 = (roCodecs o0 \<noteq> None \<longrightarrow> roCodecEdits o0 = [])"

lemma csRegister_None [simp]: "csRegister None cs = cs"
  by (simp add: csRegister_def)

lemma option_step:
  "editsQueued o0 \<Longrightarrow> currentSet base (optionOf opt o0) = directly base opt (currentSet base o0) \<and> editsQueued (optionOf opt o0)"
proof (cases opt)
  case (Add c)
  assume "editsQueued o0"
  then show ?thesis
    by (cases c) (auto simp: Add WithCodec_def editCodecs_def currentSet_def editsQueued_def split: option.split)
next
  case (Remove name)
  assume "editsQueued o0"
  then show ?thesis
    by (auto simp: Remove WithoutCodec_def editCodecs_def currentSet_def editsQueued_def split: option.split)
next
  case (Replace cs)
  assume "editsQueued o0"
  then show ?thesis by (cases cs) (auto simp: Replace WithCodecs_def currentSet_def editsQueued_def)
qed

lemma options_run:
  "editsQueued o0 \<Longrightarrow>
   currentSet base (applyOptions (map optionOf opts) o0) = fold (directly base) opts (currentSet base o0)
   \<and> editsQueued (applyOptions (map optionOf opts) o0)"
  by (induction opts arbitrary: o0) (auto simp: applyOptions_def option_step)


text \<open>
  C20: The options that edit the codec set work as written, from left to right, wherever \<open>WithCodecs\<close>
  stands among them and although the code queues them while no set is chosen: under \<open>New\<close> they edit the
  bundled codecs, under \<open>NewWithCodecs\<close> the set passed there.
\<close>

theorem codec_options_in_order:
  "roCodecs (finishCodecs bundled (applyOptions (map optionOf opts) defaultRegistryOptions))
     = Some (fold (directly bundled) opts bundled)
   \<and> roCodecs (finishCodecs (NewCodecs []) (applyOptions (map optionOf opts) (withCodecsBase (Some cs))))
     = Some (fold (directly (NewCodecs [])) opts cs)"
proof -
  have "roCodecs (finishCodecs base o0) = Some (currentSet base o0)" for base o0
    by (simp add: finishCodecs_def currentSet_def Let_def)
  moreover have "editsQueued defaultRegistryOptions" "editsQueued (withCodecsBase (Some cs))"
    "currentSet bundled defaultRegistryOptions = bundled" "currentSet (NewCodecs []) (withCodecsBase (Some cs)) = cs"
    by (simp_all add: editsQueued_def defaultRegistryOptions_def withCodecsBase_def currentSet_def)
  ultimately show ?thesis using options_run[of defaultRegistryOptions bundled opts]
      options_run[of "withCodecsBase (Some cs)" "NewCodecs []" opts] by simp
qed

text \<open>A registry built by the options is one of the reachable registries of \<open>RegistrySteps\<close>.\<close>

lemma built_reachable:
  "builtWith fm o0 = (e, Some r) \<Longrightarrow> reachable r"
  unfolding builtWith_def by (rule reachable.built)

text \<open>An option for one bind overrides the registry's, and only where it is given.\<close>

lemma decode_defaults:
  "bindOptsOf (buildDecodeOptions ro []) rest
     = rest\<lparr>boTag := TagName, boFailFast := (roErrors ro = FailFast), boStrict := roStrict ro, boDecoder := Map.empty\<rparr>"
  "bindOptsOf (buildDecodeOptions ro (opts @ [WithDecodeLenient])) rest
     = (bindOptsOf (buildDecodeOptions ro opts) rest)\<lparr>boStrict := False\<rparr>"
  by (simp_all add: bindOptsOf_def buildDecodeOptions_def TagName_def WithDecodeLenient_def Let_def)

end
