(* ===== verification/JsonCodec.thy ===== *)
theory JsonCodec
  imports Codec
begin

text \<open>
  \<open>codec_json.go\<close> and \<open>codec_jsonc.go\<close>. What \<open>encoding/json\<close> gives is the argument \<open>L\<close>: the tokens of its
  decoder with the offset behind each, the error of \<open>json.Unmarshal\<close>, \<open>json.Marshal\<close>, and \<open>%q\<close>. Its
  \<open>Token\<close> checks commas and colons; where it fails the list has a \<open>TkErr\<close>, which says whether \<open>More\<close>
  sees a closing bracket there. The jsonc package is a parameter in the same way.

  The readers of arrays and objects take the reader of a value as an argument; fuel bounds the nesting and
  the number of elements, and the number of tokens is enough of it.
\<close>

section \<open>Numbers\<close>

definition jsonNumber :: "string \<Rightarrow> goany option" where
  "jsonNumber s =
     (if \<not> (CHR ''.'' \<in> set s \<or> CHR ''e'' \<in> set s \<or> CHR ''E'' \<in> set s)
      then (case parseInt10 s of
              Some i \<Rightarrow> Some (ANum (GInt64 i))
            | None \<Rightarrow> (case parseUint10 s of
                        Some u \<Rightarrow> Some (ANum (GUint64 u))
                      | None \<Rightarrow> Some (ANumber s)))
      else map_option (\<lambda>f. ANum (GFloat64 f)) (parseFloat s))"

definition numberRangeText :: "string \<Rightarrow> string" where
  "numberRangeText s = ''value '' @ s @ '' overflows float64''"


section \<open>The decoder\<close>

datatype jtok =
    TkNum string | TkStr string | TkBool bool | TkNull
  | TkArr | TkArrEnd | TkObj | TkObjEnd
  | TkErr bool

text \<open>A decoder: its \<open>InputOffset\<close> and the tokens to come.\<close>

type_synonym jdec = "nat \<times> (jtok \<times> nat) list"

definition jmore :: "jdec \<Rightarrow> bool" where
  "jmore d =
     (case snd d of
        [] \<Rightarrow> False
      | (t, off) # ts \<Rightarrow> (case t of TkErr closing \<Rightarrow> \<not> closing | TkArrEnd \<Rightarrow> False | TkObjEnd \<Rightarrow> False | _ \<Rightarrow> True))"

definition jtoken :: "jdec \<Rightarrow> jtok option \<times> jdec" where
  "jtoken d =
     (case snd d of
        [] \<Rightarrow> (None, d)
      | (TkErr closing, off) # ts \<Rightarrow> (None, d)
      | (t, off) # ts \<Rightarrow> (Some t, (off, ts)))"

record jsonLib =
  jlTokens :: "string \<Rightarrow> (jtok \<times> nat) list"
  jlProbe :: "string \<Rightarrow> decodeErr option"
  jlQuote :: "string \<Rightarrow> string"

text \<open>\<open>JCodec\<close> is a \<open>*codecError\<close>, \<open>JOther\<close> any other error with its text.\<close>

datatype jsonErr = JCodec decodeErr | JOther string

definition jsonMaxDepth :: nat where
  "jsonMaxDepth = 10000"

fun jsonKeyOffset :: "string \<Rightarrow> nat \<Rightarrow> nat" where
  "jsonKeyOffset data off =
     off + length (takeWhile (\<lambda>c. c \<in> {CHR '' '', CHR 0x09, CHR 0x0A, CHR 0x0D, CHR '',''}) (drop off data))"

definition jsonError :: "string \<Rightarrow> string \<Rightarrow> int \<Rightarrow> jsonErr" where
  "jsonError data text off = JCodec (codecError ''json'' text (offsetPosition data off) text)"

definition duplicateText :: "jsonLib \<Rightarrow> string \<Rightarrow> string" where
  "duplicateText L key = ''duplicate key '' @ jlQuote L key"

text \<open>The cases of \<open>jsonValue\<close> that read no further token; \<open>None\<close> is a bracket. The key of a member.\<close>

definition jsonScalar :: "string \<Rightarrow> nat \<Rightarrow> jtok \<Rightarrow> (jsonErr + goany) option" where
  "jsonScalar data off tok =
     (case tok of
        TkNum s \<Rightarrow>
          (case jsonNumber s of
             Some v \<Rightarrow> Some (Inr v)
           | None \<Rightarrow> Some (Inl (jsonError data (numberRangeText s) (int off - int (length s)))))
      | TkStr s \<Rightarrow> Some (Inr (AStr s))
      | TkBool b \<Rightarrow> Some (Inr (ABool b))
      | TkNull \<Rightarrow> Some (Inr ANil)
      | _ \<Rightarrow> None)"

definition keyText :: "jtok \<Rightarrow> string" where
  "keyText tok = (case tok of TkStr s \<Rightarrow> s | _ \<Rightarrow> [])"

definition closeWith :: "goany \<Rightarrow> jdec \<Rightarrow> (jsonErr + goany) \<times> jdec" where
  "closeWith v d = (case jtoken d of (None, d1) \<Rightarrow> (Inl (JOther ''token''), d1) | (Some tok, d1) \<Rightarrow> (Inr v, d1))"

type_synonym jread = "((jsonErr + goany) \<times> jdec) option"

primrec jsonArray :: "nat \<Rightarrow> (jdec \<Rightarrow> jread) \<Rightarrow> goany list \<Rightarrow> jdec \<Rightarrow> jread" where
  "jsonArray 0 read out d = None"
| "jsonArray (Suc n) read out d =
     (if jmore d
      then (case read d of
              None \<Rightarrow> None
            | Some (Inl e, d1) \<Rightarrow> Some (Inl e, d1)
            | Some (Inr v, d1) \<Rightarrow> jsonArray n read (out @ [v]) d1)
      else Some (closeWith (AAnys out) d))"

primrec jsonObject :: "nat \<Rightarrow> jsonLib \<Rightarrow> string \<Rightarrow> (jdec \<Rightarrow> jread) \<Rightarrow> goany gomap \<Rightarrow> jdec \<Rightarrow> jread" where
  "jsonObject 0 L data read out d = None"
| "jsonObject (Suc n) L data read out d =
     (if jmore d
      then (case jtoken d of
              (None, d1) \<Rightarrow> Some (Inl (JOther ''token''), d1)
            | (Some tok, d1) \<Rightarrow>
                if mhas out (keyText tok)
                then Some (Inl (jsonError data (duplicateText L (keyText tok)) (int (jsonKeyOffset data (fst d)))), d1)
                else (case read d1 of
                        None \<Rightarrow> None
                      | Some (Inl e, d2) \<Rightarrow> Some (Inl e, d2)
                      | Some (Inr v, d2) \<Rightarrow> jsonObject n L data read (mput (keyText tok) v out) d2))
      else Some (closeWith (AAnyMap out) d))"

primrec jsonValue :: "nat \<Rightarrow> jsonLib \<Rightarrow> string \<Rightarrow> nat \<Rightarrow> jdec \<Rightarrow> jread" where
  "jsonValue 0 L data depth d = None"
| "jsonValue (Suc n) L data depth d =
     (case jtoken d of
        (None, d1) \<Rightarrow> Some (Inl (JOther ''token''), d1)
      | (Some tok, d1) \<Rightarrow>
          (case jsonScalar data (fst d1) tok of
             Some res \<Rightarrow> Some (res, d1)
           | None \<Rightarrow>
               if jsonMaxDepth \<le> depth then Some (Inl (JOther ''exceeded max depth''), d1)
               else if tok = TkArr then jsonArray n (jsonValue n L data (depth + 1)) [] d1
               else jsonObject n L data (jsonValue n L data (depth + 1)) [] d1))"

definition isJSONSpace :: "string \<Rightarrow> bool" where
  "isJSONSpace b = list_all (\<lambda>c. c \<in> {CHR '' '', CHR 0x09, CHR 0x0A, CHR 0x0D}) b"

definition plainErr :: "string \<Rightarrow> decodeErr" where
  "plainErr text =
     \<lparr>deText = text, deInner = None, dePosition = None, deParser = None, deJSON = None, deJSONType = None\<rparr>"

definition jsonDecodeError :: "decodeErr \<Rightarrow> string \<Rightarrow> decodeErr" where
  "jsonDecodeError e data =
     (case deJSON e of
        Some j \<Rightarrow> codecError ''json'' (deText e) (offsetPosition data (jsonSyntaxOffset j)) (snd j)
      | None \<Rightarrow> e\<lparr>deText := ''recon: json decode: '' @ deText e\<rparr>)"

text \<open>The \<open>%T\<close> of a decoded value that is not an object.\<close>

fun goTypeName :: "goany \<Rightarrow> string" where
  "goTypeName (AAnys xs) = ''[]interface {}''"
| "goTypeName (AStr s) = ''string''"
| "goTypeName (ABool b) = ''bool''"
| "goTypeName (ANumber s) = ''json.Number''"
| "goTypeName (ANum (GInt64 i)) = ''int64''"
| "goTypeName (ANum (GUint64 u)) = ''uint64''"
| "goTypeName (ANum (GFloat64 f)) = ''float64''"
| "goTypeName a = []"

definition rootError :: "string \<Rightarrow> string \<Rightarrow> goany \<Rightarrow> decodeErr" where
  "rootError format kind v =
     plainErr (''recon: unsupported format: '' @ format @ '' root must be '' @ kind @ '', got '' @ goTypeName v)"

text \<open>The walk of \<open>Decode\<close> with the check for what follows the value; its fuel is the number of tokens.\<close>

definition jsonWalk :: "jsonLib \<Rightarrow> string \<Rightarrow> jsonErr + goany" where
  "jsonWalk L data =
     (case jsonValue (length (jlTokens L data) + 1) L data 0 (0, jlTokens L data) of
        None \<Rightarrow> Inl (JOther [])
      | Some (Inl e, d) \<Rightarrow> Inl e
      | Some (Inr v, (off, ts)) \<Rightarrow>
          if isJSONSpace (drop off data) then Inr v else Inl (JOther ''invalid character after top-level value''))"

definition jsonDecode :: "jsonLib \<Rightarrow> string \<Rightarrow> decodeErr + goany gomap" where
  "jsonDecode L data0 =
     (let data = stripBOM data0
      in if isJSONSpace data then Inr []
         else case checkUTF8 ''json'' data of
                Some e \<Rightarrow> Inl e
              | None \<Rightarrow>
                  (case jsonWalk L data of
                     Inl (JCodec dup) \<Rightarrow> Inl dup
                   | Inl (JOther text) \<Rightarrow>
                       Inl (jsonDecodeError (case jlProbe L data of Some e \<Rightarrow> e | None \<Rightarrow> plainErr text) data)
                   | Inr v \<Rightarrow>
                       (case v of
                          ANil \<Rightarrow> Inr []
                        | AAnyMap m \<Rightarrow> Inr m
                        | _ \<Rightarrow> Inl (rootError ''json'' ''an object'' v))))"

definition JSON :: "jsonLib \<Rightarrow> fileCodec" where
  "JSON L = \<lparr>fcName = ''json'', fcExts = [''.json''], fcDecode = jsonDecode L, fcFresh = True\<rparr>"

definition jsonEncode :: "(goany gomap \<Rightarrow> string + string) \<Rightarrow> goany gomap \<Rightarrow> string + string" where
  "jsonEncode marshal v = (case marshal v of Inl e \<Rightarrow> Inl (''recon: json encode: '' @ e) | Inr b \<Rightarrow> Inr b)"


section \<open>JSONC\<close>

text \<open>
  \<open>decodeJSONNumbers\<close>: the other value is the text of a number out of range. A map is read in key order,
  where Go leaves it open which of several such numbers is reported.
\<close>

fun decodeJSONNumbers :: "goany \<Rightarrow> string + goany" where
  "decodeJSONNumbers (ANumber s) = (case jsonNumber s of Some v \<Rightarrow> Inr v | None \<Rightarrow> Inl s)"
| "decodeJSONNumbers (AAnyMap m) =
     (case List.find isl (map (\<lambda>(k, v). decodeJSONNumbers v) m) of
        Some bad \<Rightarrow> Inl (projl bad)
      | None \<Rightarrow> Inr (AAnyMap (map (\<lambda>(k, v). (k, projr (decodeJSONNumbers v))) m)))"
| "decodeJSONNumbers (AAnys xs) =
     (case List.find isl (map decodeJSONNumbers xs) of
        Some bad \<Rightarrow> Inl (projl bad)
      | None \<Rightarrow> Inr (AAnys (map (\<lambda>v. projr (decodeJSONNumbers v)) xs)))"
| "decodeJSONNumbers v = Inr v"

text \<open>The position of the first \<open>*/\<close>.\<close>

fun closeComment :: "string \<Rightarrow> string option" where
  "closeComment (a # b # s) = (if a = CHR ''*'' \<and> b = CHR ''/'' then Some s else closeComment (b # s))"
| "closeComment s = None"

lemma closeComment_shorter: "closeComment s = Some t \<Longrightarrow> length t < length s"
  by (induction s rule: closeComment.induct) (auto split: if_splits)

function jsoncHoldsNoValue :: "string \<Rightarrow> bool" where
  "jsoncHoldsNoValue data0 =
     (let data = dropWhile (\<lambda>c. c \<in> {CHR '' '', CHR 0x09, CHR 0x0A, CHR 0x0D}) data0
      in if data = [] then True
         else if hasPrefix data ''//'' then
           (let rest = dropWhile (\<lambda>c. c \<noteq> CHR 0x0A) data in if rest = [] then True else jsoncHoldsNoValue (tl rest))
         else if hasPrefix data ''/*'' then
           (case closeComment (drop 2 data) of None \<Rightarrow> False | Some rest \<Rightarrow> jsoncHoldsNoValue rest)
         else False)"
  by pat_completeness auto
termination
proof (relation "measure length")
  fix data0 data rest :: string
  assume d: "data = dropWhile (\<lambda>c. c \<in> {CHR '' '', CHR 0x09, CHR 0x0A, CHR 0x0D}) data0"
    and r: "rest = dropWhile (\<lambda>c. c \<noteq> CHR 0x0A) data" "rest \<noteq> []"
  have "length rest \<le> length data" "length data \<le> length data0" using d r by (simp_all add: length_dropWhile_le)
  then show "(tl rest, data0) \<in> measure length" using r(2) by (cases rest) simp_all
next
  fix data0 data rest :: string
  assume d: "data = dropWhile (\<lambda>c. c \<in> {CHR '' '', CHR 0x09, CHR 0x0A, CHR 0x0D}) data0"
    and c: "closeComment (drop 2 data) = Some rest"
  have "length data \<le> length data0" using d by (simp add: length_dropWhile_le)
  with closeComment_shorter[OF c] show "(rest, data0) \<in> measure length" by simp
qed simp

declare jsoncHoldsNoValue.simps [simp del]

text \<open>
  An error of the jsonc package: its text, and the position with the message of a syntax error or the
  position of the other errors that have one. \<open>jcUseNumber\<close> and \<open>jcProbe\<close> are its two decoders.
\<close>

record jsoncErr =
  jcText :: string
  jcSyntax :: "((int \<times> int) \<times> string) option"
  jcPos :: "(int \<times> int) option"

record jsoncLib =
  jcUseNumber :: "string \<Rightarrow> jsoncErr + goany"
  jcProbe :: "string \<Rightarrow> jsoncErr option"

definition jsoncDecodeError :: "jsoncErr \<Rightarrow> decodeErr" where
  "jsoncDecodeError e =
     (case jcSyntax e of
        Some (pos, msg) \<Rightarrow> codecError ''jsonc'' (jcText e) pos msg
      | None \<Rightarrow>
          (let pos = (case jcPos e of Some p \<Rightarrow> p | None \<Rightarrow> (0, 0))
           in if 0 < fst pos then atPosition ''jsonc'' (jcText e) pos
              else plainErr (''recon: jsonc decode: '' @ jcText e)))"

definition positionOf :: "decodeErr \<Rightarrow> int \<times> int" where
  "positionOf e = (case dePosition e of Some (l, c, m) \<Rightarrow> (l, c) | None \<Rightarrow> (0, 0))"

definition jsoncDecode :: "jsoncLib \<Rightarrow> string \<Rightarrow> decodeErr + goany gomap" where
  "jsoncDecode J data =
     (if data = [] then Inr []
      else case checkUTF8 ''jsonc'' (stripBOM data) of
             Some e \<Rightarrow> Inl e
           | None \<Rightarrow>
               (case jcUseNumber J data of
                  Inl e \<Rightarrow> if jsoncHoldsNoValue (stripBOM data) then Inr [] else Inl (jsoncDecodeError e)
                | Inr v0 \<Rightarrow>
                    (case decodeJSONNumbers v0 of
                       Inl bad \<Rightarrow>
                         Inl (codecError ''jsonc'' (numberRangeText bad)
                                (case jcProbe J data of Some e \<Rightarrow> positionOf (jsoncDecodeError e) | None \<Rightarrow> (0, 0))
                                (numberRangeText bad))
                     | Inr v \<Rightarrow>
                         (case v of
                            ANil \<Rightarrow> Inr []
                          | AAnyMap m \<Rightarrow> Inr m
                          | _ \<Rightarrow> Inl (rootError ''jsonc'' ''an object'' v)))))"

definition jsoncEncode :: "(goany gomap \<Rightarrow> string + string) \<Rightarrow> goany gomap \<Rightarrow> string + string" where
  "jsoncEncode marshal v = (case marshal v of Inl e \<Rightarrow> Inl (''recon: jsonc encode: '' @ e) | Inr b \<Rightarrow> Inr b)"

definition JSONC :: "jsoncLib \<Rightarrow> fileCodec" where
  "JSONC J = \<lparr>fcName = ''jsonc'', fcExts = [''.jsonc'', ''.json5''], fcDecode = jsoncDecode J, fcFresh = True\<rparr>"


section \<open>The fuel is enough\<close>

text \<open>A reader that ends, and has read a token when it gives a value.\<close>

definition ends :: "jdec \<Rightarrow> jread \<Rightarrow> bool" where
  "ends d res = (case res of None \<Rightarrow> False | Some p \<Rightarrow> isl (fst p) \<or> length (snd (snd p)) < length (snd d))"

lemma ends_simps [simp]:
  "\<not> ends d None"
  "ends d (Some (Inl e, d1))"
  "ends d (Some (Inr v, d1)) \<longleftrightarrow> length (snd d1) < length (snd d)"
  by (simp_all add: ends_def)

lemma ends_cases:
  assumes "ends d res"
  obtains e d1 where "res = Some (Inl e, d1)"
  | v d1 where "res = Some (Inr v, d1)" "length (snd d1) < length (snd d)"
  using assms by (cases res; cases "fst (the res)") (force simp: ends_def)+

lemma ends_weaken: "ends d1 res \<Longrightarrow> length (snd d1) \<le> length (snd d) \<Longrightarrow> ends d res"
  by (erule ends_cases) simp_all

lemma jtoken_cases:
  obtains d1 where "jtoken d = (None, d1)"
  | t d1 where "jtoken d = (Some t, d1)" "length (snd d) = Suc (length (snd d1))"
  by (cases "snd d"; cases "fst (hd (snd d))") (force simp: jtoken_def)+

lemma closeWith_ends: "ends d (Some (closeWith v d))"
  by (cases d rule: jtoken_cases) (simp_all add: closeWith_def)

lemma jsonArray_ends:
  "\<forall>k e. length (snd e) = k \<and> k \<le> length (snd d) \<longrightarrow> ends e (read e) \<Longrightarrow> length (snd d) < n \<Longrightarrow> ends d (jsonArray n read out d)"
proof (induction n arbitrary: out d)
  case (Suc n)
  show ?case
  proof (cases "jmore d")
    case True
    from Suc(2) have "ends d (read d)" by blast
    then show ?thesis
    proof (cases rule: ends_cases)
      case (1 e d1)
      then show ?thesis using True by simp
    next
      case (2 v d1)
      then have "ends d1 (jsonArray n read (out @ [v]) d1)" using Suc by (intro Suc(1)) auto
      then show ?thesis using True 2 ends_weaken[of d1 _ d] by simp
    qed
  next
    case False
    then show ?thesis using closeWith_ends by simp
  qed
qed simp

lemma jsonObject_ends:
  "\<forall>k e. length (snd e) = k \<and> k \<le> length (snd d) \<longrightarrow> ends e (read e) \<Longrightarrow> length (snd d) < n \<Longrightarrow> ends d (jsonObject n L data read out d)"
proof (induction n arbitrary: out d)
  case (Suc n)
  show ?case
  proof (cases "jmore d")
    case more: True
    show ?thesis
    proof (cases d rule: jtoken_cases)
      case (1 d1)
      then show ?thesis using more by simp
    next
      case (2 tok d1)
      have "ends d1 (read d1)" using Suc(2)[rule_format, of d1 "length (snd d1)"] 2 by simp
      then show ?thesis
      proof (cases rule: ends_cases)
        case (1 e d2)
        then show ?thesis using more 2 by simp
      next
        case inr: (2 v d2)
        then have "ends d2 (jsonObject n L data read (mput (keyText tok) v out) d2)" using Suc 2 by (intro Suc(1)) auto
        then show ?thesis using more 2 inr ends_weaken[of d2 _ d] by simp
      qed
    qed
  next
    case False
    then show ?thesis using closeWith_ends by simp
  qed
qed simp

lemma jsonValue_ends: "length (snd d) < n \<Longrightarrow> ends d (jsonValue n L data depth d)"
proof (induction n arbitrary: d depth)
  case (Suc n)
  show ?case
  proof (cases d rule: jtoken_cases)
    case (1 d1)
    then show ?thesis by simp
  next
    case (2 tok d1)
    have fuel: "length (snd d1) < n" using 2 Suc(2) by simp
    have inner: "\<forall>k e. length (snd e) = k \<and> k \<le> length (snd d1) \<longrightarrow> ends e (jsonValue n L data (depth + 1) e)"
      using Suc(1) fuel by simp
    have "ends d (Some (r, d1))" for r using 2 by (cases r) simp_all
    then show ?thesis
      using 2 ends_weaken[OF jsonArray_ends[OF inner fuel], of d] ends_weaken[OF jsonObject_ends[OF inner fuel], of d]
      by (simp split: option.split)
  qed
qed simp

text \<open>So the branch of \<open>jsonWalk\<close> for exhausted fuel is never taken, whatever tokens the decoder gives.\<close>

lemma jsonWalk_returns:
  "jsonValue (length (jlTokens L data) + 1) L data 0 (0, jlTokens L data) \<noteq> None"
  using jsonValue_ends[of "(0, jlTokens L data)" "length (jlTokens L data) + 1" L data 0]
  by (auto elim: ends_cases)


section \<open>Documents\<close>

text \<open>
  What a document says, without its text: its tokens, its value, and what is wrong with it in reading
  order: a repeated key, a number beyond float64, nesting beyond the limit.
\<close>

datatype jdoc =
    JdNum string | JdStr string | JdBool bool | JdNull
  | JdArr "jdoc list" | JdObj "(string \<times> jdoc) list"

datatype fault = DupKey string | BadNumber string | TooDeep

fun jtoks :: "jdoc \<Rightarrow> jtok list" where
  "jtoks (JdNum s) = [TkNum s]"
| "jtoks (JdStr s) = [TkStr s]"
| "jtoks (JdBool b) = [TkBool b]"
| "jtoks JdNull = [TkNull]"
| "jtoks (JdArr es) = TkArr # concat (map jtoks es) @ [TkArrEnd]"
| "jtoks (JdObj ms) = TkObj # concat (map (\<lambda>(k, v). TkStr k # jtoks v) ms) @ [TkObjEnd]"

fun docTree :: "jdoc \<Rightarrow> goany" where
  "docTree (JdNum s) = (case jsonNumber s of Some v \<Rightarrow> v | None \<Rightarrow> ANil)"
| "docTree (JdStr s) = AStr s"
| "docTree (JdBool b) = ABool b"
| "docTree JdNull = ANil"
| "docTree (JdArr es) = AAnys (map docTree es)"
| "docTree (JdObj ms) = AAnyMap (fold (\<lambda>(k, v) m. mput k v m) (map (\<lambda>(k, v). (k, docTree v)) ms) [])"

primrec memberFaults :: "string list \<Rightarrow> (string \<times> fault list) list \<Rightarrow> fault list" where
  "memberFaults seen [] = []"
| "memberFaults seen (m # ms) =
     (if fst m \<in> set seen then [DupKey (fst m)] else []) @ snd m @ memberFaults (fst m # seen) ms"

fun faults :: "nat \<Rightarrow> jdoc \<Rightarrow> fault list" where
  "faults depth (JdNum s) = (if jsonNumber s = None then [BadNumber s] else [])"
| "faults depth (JdArr es) =
     (if jsonMaxDepth \<le> depth then [TooDeep] else concat (map (faults (depth + 1)) es))"
| "faults depth (JdObj ms) =
     (if jsonMaxDepth \<le> depth then [TooDeep]
      else memberFaults [] (map (\<lambda>(k, v). (k, faults (depth + 1) v)) ms))"
| "faults depth d = []"


section \<open>The walk reads the document\<close>

definition errFits :: "jsonLib \<Rightarrow> fault \<Rightarrow> jsonErr \<Rightarrow> bool" where
  "errFits L f e =
     (case f of
        DupKey k \<Rightarrow> \<exists>pos. e = JCodec (codecError ''json'' (duplicateText L k) pos (duplicateText L k))
      | BadNumber s \<Rightarrow> \<exists>pos. e = JCodec (codecError ''json'' (numberRangeText s) pos (numberRangeText s))
      | TooDeep \<Rightarrow> \<exists>t. e = JOther t)"

text \<open>The decoder after \<open>k\<close> more tokens, and the result a reader must give.\<close>

definition later :: "jdec \<Rightarrow> nat \<Rightarrow> jdec" where
  "later d k = (if k = 0 then fst d else snd (snd d ! (k - 1)), drop k (snd d))"

definition fits :: "jsonLib \<Rightarrow> fault list \<Rightarrow> goany \<Rightarrow> jdec \<Rightarrow> (jsonErr + goany) \<times> jdec \<Rightarrow> bool" where
  "fits L fs v d res = (case fs of [] \<Rightarrow> res = (Inr v, d) | f # _ \<Rightarrow> \<exists>e. fst res = Inl e \<and> errFits L f e)"

definition reads :: "jsonLib \<Rightarrow> (jdec \<Rightarrow> jread) \<Rightarrow> jtok list \<Rightarrow> fault list \<Rightarrow> goany \<Rightarrow> bool" where
  "reads L read toks fs v =
     (\<forall>d rest. map fst (snd d) = toks @ rest \<longrightarrow> (\<exists>res. read d = Some res \<and> fits L fs v (later d (length toks)) res))"

declare jsonKeyOffset.simps [simp del]

lemma errFits_json [simp]:
  "errFits L (DupKey k) (jsonError data (duplicateText L k) off)"
  "errFits L (BadNumber s) (jsonError data (numberRangeText s) off)"
  "errFits L TooDeep (JOther t)"
  by (auto simp: errFits_def jsonError_def split_paired_Ex intro: exI[of _ "offsetPosition data off"])
     (metis prod.collapse)+

lemma readsD:
  "reads L read toks fs v \<Longrightarrow> map fst (snd d) = toks @ rest \<Longrightarrow>
   \<exists>r d1. read d = Some (r, d1) \<and> fits L fs v (later d (length toks)) (r, d1)"
  unfolding reads_def by (metis surj_pair)

lemma later_add: "k \<le> length (snd d) \<Longrightarrow> later (later d j) k = later d (j + k)"
  if "j + k \<le> length (snd d)" for d :: jdec
  using that by (cases k) (auto simp: later_def add.commute)

lemma later_snd [simp]: "snd (later d k) = drop k (snd d)"
  by (simp add: later_def)

lemma jtoken_Cons:
  "map fst (snd d) = t # rest \<Longrightarrow> \<nexists>b. t = TkErr b \<Longrightarrow> jtoken d = (Some t, later d 1)"
  by (cases d; cases "snd d"; cases t) (auto simp: jtoken_def later_def)

lemma jmore_Cons:
  "map fst (snd d) = t # rest \<Longrightarrow> jmore d = (case t of TkErr closing \<Rightarrow> \<not> closing | TkArrEnd \<Rightarrow> False | TkObjEnd \<Rightarrow> False | _ \<Rightarrow> True)"
  by (cases "snd d") (auto simp: jmore_def split: jtok.split)

text \<open>The first token of a value.\<close>

definition opensValue :: "jtok \<Rightarrow> bool" where
  "opensValue t = (case t of TkErr b \<Rightarrow> False | TkArrEnd \<Rightarrow> False | TkObjEnd \<Rightarrow> False | _ \<Rightarrow> True)"

lemma jtoks_opens: "\<exists>t ts. jtoks doc = t # ts \<and> opensValue t"
  by (cases doc) (auto simp: opensValue_def)

lemma jmore_opens: "map fst (snd d) = t # rest \<Longrightarrow> opensValue t \<Longrightarrow> jmore d"
  using jmore_Cons[of d t rest] by (cases t) (auto simp: opensValue_def)

lemma drop_map_fst: "map fst (snd d) = xs @ ys \<Longrightarrow> map fst (drop (length xs) (snd d)) = ys" for d :: jdec
  by (metis append_eq_conv_conj drop_map)

lemma fits_append: "fs \<noteq> [] \<Longrightarrow> fits L fs v d res \<Longrightarrow> fits L (fs @ gs) w d' res"
  by (cases fs) (auto simp: fits_def)

lemma array_reads:
  assumes "\<forall>e \<in> set es. reads L read (jtoks e) (F e) (docTree e)" and "length es < n"
    and "map fst (snd d) = concat (map jtoks es) @ TkArrEnd # rest"
  shows "\<exists>res. jsonArray n read out d = Some res
    \<and> fits L (concat (map F es)) (AAnys (out @ map docTree es)) (later d (length (concat (map jtoks es)) + 1)) res"
  using assms
proof (induction es arbitrary: n d out)
  case Nil
  then obtain m where n: "n = Suc m" by (cases n) auto
  have "\<not> jmore d" "jtoken d = (Some TkArrEnd, later d 1)"
    using jmore_Cons[of d TkArrEnd rest] jtoken_Cons[of d TkArrEnd rest] Nil(3) by auto
  then show ?case by (simp add: n closeWith_def fits_def)
next
  case (Cons e es)
  then obtain m where n: "n = Suc m" by (cases n) auto
  have toks: "map fst (snd d) = jtoks e @ concat (map jtoks es) @ TkArrEnd # rest" using Cons(4) by simp
  have len: "length (snd d) = length (jtoks e) + length (concat (map jtoks es)) + 1 + length rest"
    using arg_cong[OF toks, of length] by simp
  have more: "jmore d" using jtoks_opens[of e] jmore_opens[of d] toks by force
  have "reads L read (jtoks e) (F e) (docTree e)" using Cons(2) by simp
  from readsD[OF this toks] obtain r d1
    where r: "read d = Some (r, d1)" "fits L (F e) (docTree e) (later d (length (jtoks e))) (r, d1)" by blast
  show ?case
  proof (cases "F e")
    case Nil
    then have r': "r = Inr (docTree e)" "d1 = later d (length (jtoks e))" using r(2) by (auto simp: fits_def)
    have "\<exists>res. jsonArray m read (out @ [docTree e]) d1 = Some res
      \<and> fits L (concat (map F es)) (AAnys ((out @ [docTree e]) @ map docTree es)) (later d1 (length (concat (map jtoks es)) + 1)) res"
      using Cons(1)[of m d1 "out @ [docTree e]"] Cons(2,3) n drop_map_fst[OF toks] r'(2) by simp
    moreover have "later d1 (length (concat (map jtoks es)) + 1) = later d (length (jtoks e) + (length (concat (map jtoks es)) + 1))"
      unfolding r'(2) using len by (intro later_add) auto
    ultimately show ?thesis using Nil r r' more by (simp add: n add.assoc)
  next
    case (Cons f fs)
    then obtain err where "r = Inl err" "errFits L f err" using r(2) by (auto simp: fits_def)
    then show ?thesis using r more Cons by (simp add: n fits_def)
  qed
qed

lemma object_reads:
  assumes "\<forall>m \<in> set ms. reads L read (jtoks (snd m)) (F (snd m)) (docTree (snd m))" and "length ms < n"
    and "map fst (snd d) = concat (map (\<lambda>(k, v). TkStr k # jtoks v) ms) @ TkObjEnd # rest"
    and "\<forall>k. mhas out k \<longleftrightarrow> k \<in> set seen"
  shows "\<exists>res. jsonObject n L data read out d = Some res
    \<and> fits L (memberFaults seen (map (\<lambda>(k, v). (k, F v)) ms))
        (AAnyMap (fold (\<lambda>(k, v) m. mput k v m) (map (\<lambda>(k, v). (k, docTree v)) ms) out))
        (later d (length (concat (map (\<lambda>(k, v). TkStr k # jtoks v) ms)) + 1)) res"
  using assms
proof (induction ms arbitrary: n d out seen)
  case Nil
  then obtain m where n: "n = Suc m" by (cases n) auto
  have "\<not> jmore d" "jtoken d = (Some TkObjEnd, later d 1)"
    using jmore_Cons[of d TkObjEnd rest] jtoken_Cons[of d TkObjEnd rest] Nil(3) by auto
  then show ?case by (simp add: n closeWith_def fits_def)
next
  case (Cons e ms)
  obtain k v where e: "e = (k, v)" by force
  obtain m where n: "n = Suc m" using Cons(3) by (cases n) auto
  let ?ms = "concat (map (\<lambda>(k, v). TkStr k # jtoks v) ms)"
  have toks: "map fst (snd d) = TkStr k # jtoks v @ ?ms @ TkObjEnd # rest" using Cons(4) e by simp
  have len: "length (snd d) = length (jtoks v) + length ?ms + 2 + length rest"
    using arg_cong[OF toks, of length] by simp
  have more: "jmore d" using jmore_opens[OF toks] by (simp add: opensValue_def)
  have tok: "jtoken d = (Some (TkStr k), later d 1)" using jtoken_Cons[OF toks] by simp
  have toks1: "map fst (snd (later d 1)) = jtoks v @ ?ms @ TkObjEnd # rest"
    using drop_map_fst[of d "[TkStr k]"] toks by simp
  show ?case
  proof (cases "k \<in> set seen")
    case True
    then show ?thesis using more tok Cons(5)
      by (simp add: n e keyText_def fits_def)
  next
    case fresh: False
    have "reads L read (jtoks v) (F v) (docTree v)" using Cons(2) e by simp
    from readsD[OF this toks1] obtain r d1
      where r: "read (later d 1) = Some (r, d1)"
        "fits L (F v) (docTree v) (later (later d 1) (length (jtoks v))) (r, d1)" by blast
    show ?thesis
    proof (cases "F v")
      case Nil
      then have r': "r = Inr (docTree v)" "d1 = later (later d 1) (length (jtoks v))" using r(2) by (auto simp: fits_def)
      have d1: "d1 = later d (1 + length (jtoks v))" unfolding r'(2) using len by (intro later_add) auto
      have "\<exists>res. jsonObject m L data read (mput k (docTree v) out) d1 = Some res
        \<and> fits L (memberFaults (k # seen) (map (\<lambda>(k, v). (k, F v)) ms))
            (AAnyMap (fold (\<lambda>(k, v) m. mput k v m) (map (\<lambda>(k, v). (k, docTree v)) ms) (mput k (docTree v) out)))
            (later d1 (length ?ms + 1)) res"
        using Cons(1)[of m d1 "mput k (docTree v) out" "k # seen"] Cons(2,3,5) n drop_map_fst[OF toks1] r'(2)
        by (simp add: mhas_iff mkeys_mput)
      moreover have "later d1 (length ?ms + 1) = later d ((1 + length (jtoks v)) + (length ?ms + 1))"
        unfolding d1 using len by (intro later_add) auto
      ultimately show ?thesis using Nil r r' more tok fresh Cons(5) by (simp add: n e keyText_def add.assoc)
    next
      case (Cons f fs)
      then obtain err where "r = Inl err" "errFits L f err" using r(2) by (auto simp: fits_def)
      then show ?thesis using r more tok fresh Cons Cons.prems(4) by (simp add: n e keyText_def fits_def)
    qed
  qed
qed

lemma jtoks_length: "length es \<le> length (concat (map jtoks es))"
proof (induction es)
  case (Cons e es)
  then show ?case using jtoks_opens[of e] by (auto intro: le_SucI trans_le_add2)
qed simp

lemma length_concat_member: "x \<in> set xs \<Longrightarrow> length (f x) \<le> length (concat (map f xs))"
  by (induction xs) auto

lemma members_length: "length ms \<le> length (concat (map (\<lambda>(k, v). TkStr k # jtoks v) ms))"
  by (induction ms) auto

lemma reads_scalar:
  assumes "\<nexists>b. t = TkErr b" and "\<And>off. \<exists>res. jsonScalar data off t = Some res
    \<and> (case fs of [] \<Rightarrow> res = Inr v | f # _ \<Rightarrow> \<exists>e. res = Inl e \<and> errFits L f e)" and "0 < n"
  shows "reads L (jsonValue n L data depth) [t] fs v"
proof -
  obtain m where n: "n = Suc m" using assms(3) by (cases n) auto
  have "\<exists>res. jsonValue n L data depth d = Some res \<and> fits L fs v (later d (length [t])) res"
    if toks: "map fst (snd d) = [t] @ rest" for d rest
  proof -
    have "jtoken d = (Some t, later d 1)" using jtoken_Cons[of d t rest] toks assms(1) by simp
    moreover obtain res where "jsonScalar data (fst (later d 1)) t = Some res"
      "case fs of [] \<Rightarrow> res = Inr v | f # _ \<Rightarrow> \<exists>e. res = Inl e \<and> errFits L f e" using assms(2) by blast
    ultimately show ?thesis by (cases fs) (simp_all add: n fits_def)
  qed
  then show ?thesis unfolding reads_def by blast
qed

lemma jsonValue_bracket:
  assumes "map fst (snd d) = t # rest" and "t = TkArr \<or> t = TkObj"
  shows "jsonValue (Suc n) L data depth d =
    (if jsonMaxDepth \<le> depth then Some (Inl (JOther ''exceeded max depth''), later d 1)
     else if t = TkArr then jsonArray n (jsonValue n L data (depth + 1)) [] (later d 1)
     else jsonObject n L data (jsonValue n L data (depth + 1)) [] (later d 1))"
  using jtoken_Cons[OF assms(1)] assms(2) by (auto simp: jsonScalar_def)

lemma reads_array:
  assumes elems: "\<And>e. e \<in> set es \<Longrightarrow> reads L (jsonValue n L data (depth + 1)) (jtoks e) (faults (depth + 1) e) (docTree e)"
    and n: "length es < n"
  shows "reads L (jsonValue (Suc n) L data depth) (jtoks (JdArr es)) (faults depth (JdArr es)) (docTree (JdArr es))"
proof -
  have "\<exists>res. jsonValue (Suc n) L data depth d = Some res
      \<and> fits L (faults depth (JdArr es)) (docTree (JdArr es)) (later d (length (jtoks (JdArr es)))) res"
    if toks: "map fst (snd d) = jtoks (JdArr es) @ rest" for d rest
  proof (cases "jsonMaxDepth \<le> depth")
    case True
    then show ?thesis using jsonValue_bracket[of d TkArr] toks by (simp add: fits_def)
  next
    case False
    let ?n = "length (concat (map jtoks es)) + 1"
    have d1: "map fst (snd (later d 1)) = concat (map jtoks es) @ TkArrEnd # rest"
      using drop_map_fst[of d "[TkArr]"] toks by simp
    have len: "length (snd d) = 1 + ?n + length rest" using arg_cong[OF toks, of length] by simp
    have l: "later (later d 1) ?n = later d (1 + ?n)" using len by (intro later_add) auto
    have "\<forall>e \<in> set es. reads L (jsonValue n L data (depth + 1)) (jtoks e) (faults (depth + 1) e) (docTree e)"
      using elems by blast
    from array_reads[OF this n d1, of "[]"]
    obtain res where "jsonArray n (jsonValue n L data (depth + 1)) [] (later d 1) = Some res"
      "fits L (concat (map (faults (depth + 1)) es)) (AAnys (map docTree es)) (later (later d 1) ?n) res"
      unfolding append_Nil by blast
    then show ?thesis using jsonValue_bracket[of d TkArr] toks False l by simp
  qed
  then show ?thesis unfolding reads_def by blast
qed

lemma reads_object:
  assumes elems: "\<And>m. m \<in> set ms \<Longrightarrow>
      reads L (jsonValue n L data (depth + 1)) (jtoks (snd m)) (faults (depth + 1) (snd m)) (docTree (snd m))"
    and n: "length ms < n"
  shows "reads L (jsonValue (Suc n) L data depth) (jtoks (JdObj ms)) (faults depth (JdObj ms)) (docTree (JdObj ms))"
proof -
  have "\<exists>res. jsonValue (Suc n) L data depth d = Some res
      \<and> fits L (faults depth (JdObj ms)) (docTree (JdObj ms)) (later d (length (jtoks (JdObj ms)))) res"
    if toks: "map fst (snd d) = jtoks (JdObj ms) @ rest" for d rest
  proof (cases "jsonMaxDepth \<le> depth")
    case True
    then show ?thesis using jsonValue_bracket[of d TkObj] toks by (simp add: fits_def)
  next
    case False
    let ?ms = "concat (map (\<lambda>(k, v). TkStr k # jtoks v) ms)"
    let ?n = "length ?ms + 1"
    have d1: "map fst (snd (later d 1)) = ?ms @ TkObjEnd # rest"
      using drop_map_fst[of d "[TkObj]"] toks by simp
    have len: "length (snd d) = 1 + ?n + length rest" using arg_cong[OF toks, of length] by simp
    have l: "later (later d 1) ?n = later d (1 + ?n)" using len by (intro later_add) auto
    have "\<forall>e \<in> set ms. reads L (jsonValue n L data (depth + 1)) (jtoks (snd e)) (faults (depth + 1) (snd e)) (docTree (snd e))"
      using elems by blast
    moreover have "\<forall>k. mhas [] k \<longleftrightarrow> k \<in> set []" by (simp add: mhas_def)
    ultimately obtain res where "jsonObject n L data (jsonValue n L data (depth + 1)) [] (later d 1) = Some res"
      "fits L (memberFaults [] (map (\<lambda>(k, v). (k, faults (depth + 1) v)) ms))
        (AAnyMap (fold (\<lambda>(k, v) m. mput k v m) (map (\<lambda>(k, v). (k, docTree v)) ms) [])) (later (later d 1) ?n) res"
      using object_reads[OF _ n d1] by blast
    then show ?thesis using jsonValue_bracket[of d TkObj] toks False l by simp
  qed
  then show ?thesis unfolding reads_def by blast
qed

lemma read_doc:
  "length (jtoks doc) \<le> n \<Longrightarrow> reads L (jsonValue n L data depth) (jtoks doc) (faults depth doc) (docTree doc)"
proof (induction doc arbitrary: n depth)
  case (JdArr es)
  then obtain m where n: "n = Suc m" by (cases n) auto
  have fuel: "length (concat (map jtoks es)) < m" using JdArr(2) n by simp
  have "reads L (jsonValue m L data (depth + 1)) (jtoks e) (faults (depth + 1) e) (docTree e)" if "e \<in> set es" for e
    using JdArr(1)[OF that] length_concat_member[OF that, of jtoks] fuel by simp
  then show ?case unfolding n using reads_array jtoks_length[of es] fuel by (meson le_less_trans)
next
  case (JdObj ms)
  then obtain m where n: "n = Suc m" by (cases n) auto
  let ?f = "\<lambda>(k, v). TkStr k # jtoks v"
  have fuel: "length (concat (map ?f ms)) < m" using JdObj(2) n by simp
  have "reads L (jsonValue m L data (depth + 1)) (jtoks (snd e)) (faults (depth + 1) (snd e)) (docTree (snd e))"
    if e: "e \<in> set ms" for e
  proof -
    have "length (?f e) < m" using length_concat_member[OF e, of ?f] fuel by linarith
    then show ?thesis using JdObj(1)[OF e] by (cases e) auto
  qed
  then show ?case unfolding n using reads_object members_length[of ms] fuel by (meson le_less_trans)
qed (auto intro!: reads_scalar simp: jsonScalar_def)

text \<open>The bytes behind a document, and what \<open>Decode\<close> makes of it.\<close>

definition behind :: "jsonLib \<Rightarrow> string \<Rightarrow> jdoc \<Rightarrow> string" where
  "behind L data doc = drop (snd (jlTokens L data ! (length (jtoks doc) - 1))) data"

definition asRoot :: "goany \<Rightarrow> decodeErr + goany gomap" where
  "asRoot v = (case v of ANil \<Rightarrow> Inr [] | AAnyMap m \<Rightarrow> Inr m | _ \<Rightarrow> Inl (rootError ''json'' ''an object'' v))"

lemma jsonWalk_doc:
  assumes "map fst (jlTokens L data) = jtoks doc @ rest"
  shows "case faults 0 doc of
      [] \<Rightarrow> jsonWalk L data = (if isJSONSpace (behind L data doc) then Inr (docTree doc)
              else Inl (JOther ''invalid character after top-level value''))
    | f # _ \<Rightarrow> \<exists>e. jsonWalk L data = Inl e \<and> errFits L f e"
proof -
  let ?ts = "jlTokens L data"
  have "length (jtoks doc) \<le> length ?ts" using arg_cong[OF assms, of length] by simp
  then have "length (jtoks doc) \<le> length ?ts + 1" by simp
  from readsD[OF read_doc[OF this], of "(0, ?ts)"] assms
  obtain r d1 where r: "jsonValue (length ?ts + 1) L data 0 (0, ?ts) = Some (r, d1)"
    "fits L (faults 0 doc) (docTree doc) (later (0, ?ts) (length (jtoks doc))) (r, d1)" by fastforce
  have pos: "0 < length (jtoks doc)" using jtoks_opens[of doc] by auto
  show ?thesis
  proof (cases "faults 0 doc")
    case Nil
    then show ?thesis using r pos by (simp add: fits_def jsonWalk_def later_def behind_def)
  next
    case (Cons f fs)
    then show ?thesis using r by (cases d1) (auto simp: fits_def jsonWalk_def)
  qed
qed

text \<open>
  C17: The bytes of a JSON document, decoded. Read by \<open>encoding/json\<close> they are the tokens of \<open>doc\<close>. If the
  document has no fault, \<open>Decode\<close> returns its value as a map (\<open>null\<close> is the empty map, any other root the
  unsupported-format error), unless something else stands behind it, which is an error. Otherwise the first
  fault in reading order decides: a repeated key and a number beyond float64 give the error that names them,
  nesting beyond 10000 some error.
\<close>
theorem json_document:
  assumes "map fst (jlTokens L (stripBOM data)) = jtoks doc @ rest"
    and "\<not> isJSONSpace (stripBOM data)" and "checkUTF8 ''json'' (stripBOM data) = None"
  shows "case faults 0 doc of
      [] \<Rightarrow> if isJSONSpace (behind L (stripBOM data) doc) then jsonDecode L data = asRoot (docTree doc)
            else \<exists>e. jsonDecode L data = Inl e
    | DupKey k # _ \<Rightarrow> \<exists>pos. jsonDecode L data = Inl (codecError ''json'' (duplicateText L k) pos (duplicateText L k))
    | BadNumber s # _ \<Rightarrow> \<exists>pos. jsonDecode L data = Inl (codecError ''json'' (numberRangeText s) pos (numberRangeText s))
    | TooDeep # _ \<Rightarrow> \<exists>e. jsonDecode L data = Inl e"
  using jsonWalk_doc[OF assms(1)] assms(2,3)
  by (auto simp: jsonDecode_def asRoot_def errFits_def Let_def split: list.splits fault.splits if_splits)
     (rule exI, rule exI, rule refl)+

definition oneMember :: jsonLib where
  "oneMember = \<lparr>jlTokens = (\<lambda>data. [(TkObj, 1), (TkStr ''a'', 4), (TkNum ''1'', 6), (TkObjEnd, 7)]),
     jlProbe = (\<lambda>data. None), jlQuote = id\<rparr>"

lemma sample_facts:
  "stripBOM ''{\"a\":1}'' = ''{\"a\":1}''"
  "checkUTF8 ''json'' ''{\"a\":1}'' = None"
  "\<not> isJSONSpace ''{\"a\":1}''"
  "jsonNumber ''1'' = Some (ANum (GInt64 1))"
  "isJSONSpace (behind oneMember ''{\"a\":1}'' (JdObj [(''a'', JdNum ''1'')]))"
proof -
  show "stripBOM ''{\"a\":1}'' = ''{\"a\":1}''" by code_simp
  have "validUtf8 ''{\"a\":1}''" by (rule ascii_valid) (simp add: isASCII_def)
  then show "checkUTF8 ''json'' ''{\"a\":1}'' = None" by (simp add: checkUTF8_def)
  show "\<not> isJSONSpace ''{\"a\":1}''" by (simp add: isJSONSpace_def)
  show "jsonNumber ''1'' = Some (ANum (GInt64 1))"
    by (simp add: jsonNumber_def parseInt10_def parseUint10_def isDigit_def digitVal_def)
  show "isJSONSpace (behind oneMember ''{\"a\":1}'' (JdObj [(''a'', JdNum ''1'')]))"
    by (simp add: behind_def oneMember_def isJSONSpace_def)
qed

theorem json_document_witness:
  "jsonDecode oneMember ''{\"a\":1}'' = Inr [(''a'', ANum (GInt64 1))]"
  using json_document[of oneMember "''{\"a\":1}''" "JdObj [(''a'', JdNum ''1'')]" "[]"] sample_facts
  by (simp add: oneMember_def jsonMaxDepth_def asRoot_def)


section \<open>JSONC reads the same values\<close>

text \<open>What \<open>jsonc\<close> gives with \<open>UseNumber\<close>: the numbers as their text.\<close>

fun rawTree :: "jdoc \<Rightarrow> goany" where
  "rawTree (JdNum s) = ANumber s"
| "rawTree (JdStr s) = AStr s"
| "rawTree (JdBool b) = ABool b"
| "rawTree JdNull = ANil"
| "rawTree (JdArr es) = AAnys (map rawTree es)"
| "rawTree (JdObj ms) = AAnyMap (fold (\<lambda>(k, v) m. mput k v m) (map (\<lambda>(k, v). (k, rawTree v)) ms) [])"

lemma map_mput: "map (\<lambda>(k, v). (k, f v)) (mput j w m) = mput j (f w) (map (\<lambda>(k, v). (k, f v)) m)"
  by (induction m) auto

lemma map_fold_mput:
  "map (\<lambda>(k, v). (k, f v)) (fold (\<lambda>(k, v) m. mput k v m) (map (\<lambda>(k, v). (k, g v)) ms) out)
   = fold (\<lambda>(k, v) m. mput k v m) (map (\<lambda>(k, v). (k, f (g v))) ms) (map (\<lambda>(k, v). (k, f v)) out)"
  by (induction ms arbitrary: out) (auto simp: map_mput)

lemma mput_entries: "set (mput k v m) \<subseteq> insert (k, v) (set m)"
  by (induction m) (auto split: if_splits)

lemma fold_mput_entries: "set (fold (\<lambda>(k, v) m. mput k v m) xs out) \<subseteq> set xs \<union> set out"
proof (induction xs arbitrary: out)
  case (Cons x xs)
  then show ?case using mput_entries[of "fst x" "snd x" out] by (cases x) fastforce
qed simp

lemma find_isl_None: "(\<And>x. x \<in> set xs \<Longrightarrow> \<exists>y. f x = Inr y) \<Longrightarrow> List.find isl (map f xs) = None"
  by (induction xs) (fastforce split: if_splits)+

lemma memberFaults_Nil: "memberFaults seen ms = [] \<Longrightarrow> m \<in> set ms \<Longrightarrow> snd m = []"
  by (induction ms arbitrary: seen) auto

lemma numbers_agree: "faults depth doc = [] \<Longrightarrow> decodeJSONNumbers (rawTree doc) = Inr (docTree doc)"
proof (induction doc arbitrary: depth)
  case (JdNum s)
  then show ?case by (auto split: if_splits option.splits)
next
  case (JdArr es)
  then have "\<And>e. e \<in> set es \<Longrightarrow> decodeJSONNumbers (rawTree e) = Inr (docTree e)" by (auto split: if_splits)
  then show ?case using find_isl_None[of es "decodeJSONNumbers \<circ> rawTree"] by simp
next
  case (JdObj ms)
  let ?raw = "fold (\<lambda>(k, v) m. mput k v m) (map (\<lambda>(k, v). (k, rawTree v)) ms) []"
  have each: "decodeJSONNumbers (rawTree v) = Inr (docTree v)" if m: "(k, v) \<in> set ms" for k v
  proof -
    have "memberFaults [] (map (\<lambda>(k, v). (k, faults (depth + 1) v)) ms) = []" using JdObj(2) by (simp split: if_splits)
    from memberFaults_Nil[OF this, of "(k, faults (depth + 1) v)"] m have "faults (depth + 1) v = []" by force
    then show ?thesis using JdObj(1)[OF m] by simp
  qed
  have "\<exists>y. decodeJSONNumbers v = Inr y" if "(k, v) \<in> set ?raw" for k v
    using fold_mput_entries[of "map (\<lambda>(k, v). (k, rawTree v)) ms" "[]"] that each by fastforce
  then have none: "List.find isl (map (\<lambda>(k, v). decodeJSONNumbers v) ?raw) = None"
    by (intro find_isl_None) auto
  have "map (\<lambda>(k, v). (k, projr (decodeJSONNumbers (rawTree v)))) ms = map (\<lambda>(k, v). (k, docTree v)) ms"
    using each by auto
  then have "map (\<lambda>(k, v). (k, projr (decodeJSONNumbers v))) ?raw
      = fold (\<lambda>(k, v) m. mput k v m) (map (\<lambda>(k, v). (k, docTree v)) ms) []"
    using map_fold_mput[of "\<lambda>v. projr (decodeJSONNumbers v)" rawTree ms "[]"]
    by (simp del: map_eq_conv)
  with none show ?case by simp
qed simp_all

text \<open>
  C21: A document without comments read by both codecs: where the JSON codec finds no fault and the jsonc
  package gives the same document with the numbers as text, both return the same map or the error for the
  same root.
\<close>
theorem jsonc_same_tree:
  assumes "map fst (jlTokens L (stripBOM data)) = jtoks doc" and "isJSONSpace (behind L (stripBOM data) doc)"
    and "\<not> isJSONSpace (stripBOM data)" and "checkUTF8 ''json'' (stripBOM data) = None"
    and "jcUseNumber J data = Inr (rawTree doc)" and "faults 0 doc = []"
  shows "case docTree doc of
      ANil \<Rightarrow> jsonDecode L data = Inr [] \<and> jsoncDecode J data = Inr []
    | AAnyMap m \<Rightarrow> jsonDecode L data = Inr m \<and> jsoncDecode J data = Inr m
    | v \<Rightarrow> jsonDecode L data = Inl (rootError ''json'' ''an object'' v)
        \<and> jsoncDecode J data = Inl (rootError ''jsonc'' ''an object'' v)"
proof -
  have u: "checkUTF8 ''jsonc'' (stripBOM data) = None" and ne: "data \<noteq> []"
    using assms(3,4) by (auto simp: checkUTF8_def isJSONSpace_def stripBOM_def trimPrefix_def utf8BOM_def split: if_splits)
  have "jsonDecode L data = asRoot (docTree doc)"
    using jsonWalk_doc[of L "stripBOM data" doc "[]"] assms
    by (auto simp: jsonDecode_def asRoot_def Let_def)
  moreover have "jsoncDecode J data = (case docTree doc of ANil \<Rightarrow> Inr [] | AAnyMap m \<Rightarrow> Inr m
      | v \<Rightarrow> Inl (rootError ''jsonc'' ''an object'' v))"
    using u ne assms(5) numbers_agree[OF assms(6)] by (simp add: jsoncDecode_def split: goany.split)
  ultimately show ?thesis by (simp add: asRoot_def split: goany.split)
qed

theorem jsonc_same_tree_witness:
  "jsonDecode oneMember ''{\"a\":1}'' = Inr [(''a'', ANum (GInt64 1))]
   \<and> jsoncDecode \<lparr>jcUseNumber = (\<lambda>data. Inr (AAnyMap [(''a'', ANumber ''1'')])), jcProbe = (\<lambda>data. None)\<rparr>
       ''{\"a\":1}'' = Inr [(''a'', ANum (GInt64 1))]"
  using jsonc_same_tree[of oneMember "''{\"a\":1}''" "JdObj [(''a'', JdNum ''1'')]"
      "\<lparr>jcUseNumber = (\<lambda>data. Inr (AAnyMap [(''a'', ANumber ''1'')])), jcProbe = (\<lambda>data. None)\<rparr>"]
    sample_facts by (simp add: oneMember_def jsonMaxDepth_def)

end
