(* ===== verification/Formats.thy ===== *)
theory Formats
  imports JsonCodec ScanInts
begin

text \<open>
  The codecs around the third-party parsers: \<open>codec_shape.go\<close>, \<open>codec_yaml.go\<close>, \<open>codec_toml.go\<close> and
  \<open>codec_dotenv.go\<close>. What a parser gives for a document is an argument, with an error as its text and, for
  each type the code looks for, the first one in its chain. \<open>sprint\<close> is \<open>fmt.Sprint\<close>.
\<close>

section \<open>The shape of a document\<close>

text \<open>
  What the YAML and TOML packages return: beside ordinary values a \<open>yaml.Number\<close>, and maps with keys of any
  type. Go leaves open which of two keys that print alike wins; here it is the later one.
\<close>

datatype rawval =
    RAny goany
  | RNumber string
  | RStrMap "(string \<times> rawval) list"
  | RAnyMap "(goany \<times> rawval) list"
  | RSeq "rawval list"

fun normalizeAny :: "(goany \<Rightarrow> string) \<Rightarrow> rawval \<Rightarrow> rawval" where
  "normalizeAny sprint (RStrMap m) = RStrMap (map (\<lambda>(k, v). (k, normalizeAny sprint v)) m)"
| "normalizeAny sprint (RAnyMap m) =
     RStrMap (fold (\<lambda>(k, v) out. mput k v out) (map (\<lambda>(k, v). (sprint k, normalizeAny sprint v)) m) [])"
| "normalizeAny sprint (RSeq xs) = RSeq (map (normalizeAny sprint) xs)"
| "normalizeAny sprint v = v"

definition normalizeMap :: "(goany \<Rightarrow> string) \<Rightarrow> rawval \<Rightarrow> rawval gomap option" where
  "normalizeMap sprint v =
     (case v of
        RStrMap m \<Rightarrow> Some (map (\<lambda>(k, e). (k, normalizeAny sprint e)) m)
      | RAnyMap m \<Rightarrow> Some (fold (\<lambda>(k, e) out. mput (sprint k) (normalizeAny sprint e) out) m [])
      | _ \<Rightarrow> None)"

text \<open>The name of its type, and the tree it is for the registry when it holds no \<open>yaml.Number\<close>.\<close>

definition rawTypeName :: "rawval \<Rightarrow> string" where
  "rawTypeName v = (case v of RAny a \<Rightarrow> goTypeName a | RNumber s \<Rightarrow> ''yaml.Number'' | RSeq xs \<Rightarrow> ''[]interface {}'' | _ \<Rightarrow> [])"

fun plainTree :: "rawval \<Rightarrow> goany" where
  "plainTree (RAny a) = a"
| "plainTree (RNumber s) = AOther s"
| "plainTree (RStrMap m) = AAnyMap (map (\<lambda>(k, v). (k, plainTree v)) m)"
| "plainTree (RAnyMap m) = AOther []"
| "plainTree (RSeq xs) = AAnys (map plainTree xs)"

definition rawRootError :: "string \<Rightarrow> string \<Rightarrow> rawval \<Rightarrow> decodeErr" where
  "rawRootError format kind v =
     plainErr (''recon: unsupported format: '' @ format @ '' root must be '' @ kind @ '', got '' @ rawTypeName v)"


section \<open>YAML\<close>

text \<open>Integers of any size, as \<open>big.Int.SetString\<close> reads them; \<open>us\<close> allows underscores (base 0).\<close>

definition bigDigit :: "char \<Rightarrow> nat option" where
  "bigDigit c =
     (let n = of_char c :: nat
      in if 48 \<le> n \<and> n \<le> 57 then Some (n - 48)
         else if 97 \<le> n \<and> n \<le> 122 then Some (n - 87)
         else if 65 \<le> n \<and> n \<le> 90 then Some (n - 55)
         else None)"

primrec bigScan :: "nat \<Rightarrow> bool \<Rightarrow> bool \<Rightarrow> nat \<Rightarrow> nat \<Rightarrow> string \<Rightarrow> nat option" where
  "bigScan b us prev cnt acc [] = (if prev \<or> cnt = 0 then None else Some acc)"
| "bigScan b us prev cnt acc (c # s) =
     (if c = CHR ''_'' \<and> us then (if prev then None else bigScan b us True cnt acc s)
      else case bigDigit c of
             None \<Rightarrow> None
           | Some d \<Rightarrow> if d < b then bigScan b us False (cnt + 1) (acc * b + d) s else None)"

definition setString :: "string \<Rightarrow> nat \<Rightarrow> int option" where
  "setString s base =
     (let neg = hasPrefix s ''-'';
          t = (if neg \<or> hasPrefix s ''+'' then tl s else s);
          n = (if base = 0
               then (if hasPrefix t ''0x'' then bigScan 16 True False 0 0 (drop 2 t)
                     else if hasPrefix t ''0o'' then bigScan 8 True False 0 0 (drop 2 t)
                     else None)
               else bigScan base False False 0 0 t)
      in map_option (\<lambda>k. if neg then - int k else int k) n)"

definition bigString :: "int \<Rightarrow> string" where
  "bigString z = (if z < 0 then CHR ''-'' # formatNat (nat (- z)) else formatNat (nat z))"

text \<open>One number: the \<open>json.Number\<close> it becomes, or the text that is out of range.\<close>

definition yamlNumber :: "string \<Rightarrow> goany \<times> string list" where
  "yamlNumber s =
     (let body = dropWhile (\<lambda>c. c = CHR ''+'' \<or> c = CHR ''-'') s;
          base = (if hasPrefix body ''0x'' \<or> hasPrefix body ''0o'' then 0 else 10)
      in case setString (trimPrefix s ''+'') base of
           Some z \<Rightarrow> (ANumber (bigString z), [])
         | None \<Rightarrow> (AStr s, [s]))"

fun yamlNumbers :: "rawval \<Rightarrow> goany \<times> string list" where
  "yamlNumbers (RStrMap m) =
     (let rs = map (\<lambda>(k, e). (k, yamlNumbers e)) m
      in (AAnyMap (map (\<lambda>(k, r). (k, fst r)) rs), concat (map (\<lambda>(k, r). snd r) rs)))"
| "yamlNumbers (RSeq xs) =
     (let rs = map yamlNumbers xs in (AAnys (map fst rs), concat (map snd rs)))"
| "yamlNumbers (RNumber s) = yamlNumber s"
| "yamlNumbers v = (plainTree v, [])"

record yamlErr =
  yeText :: string
  yeSyntax :: "((int \<times> int) \<times> string) option"
  yeDuplicate :: "(int \<times> int) option"
  yeCycle :: "(int \<times> int) option"
  yeKYAML :: "((int \<times> int) \<times> string) list option"
  yeType :: "string list option"

text \<open>
  \<open>ylDocs\<close> are the results of \<open>Decode\<close> until \<open>io.EOF\<close>; \<open>ylDocPos\<close> the positions of the documents and
  \<open>ylNodes\<close> the plain scalars in the order of \<open>yaml.Walk\<close>, both of \<open>yaml.Parse\<close>.
\<close>

record yamlLib =
  ylDocs :: "string \<Rightarrow> (yamlErr + rawval) list"
  ylDocPos :: "string \<Rightarrow> (int \<times> int) list option"
  ylNodes :: "string \<Rightarrow> (string \<times> (int \<times> int)) list option"

definition scanPos :: "string \<Rightarrow> string \<Rightarrow> nat \<Rightarrow> (int \<times> int) option" where
  "scanPos text fmt n =
     (case scanInts text fmt n of
        (True, line # cols) \<Rightarrow> if 0 < sint line then Some (sint line, case cols of [] \<Rightarrow> 0 | col # _ \<Rightarrow> sint col) else None
      | _ \<Rightarrow> None)"

text \<open>An error placed at a position its type knows; the errors of the decoders try their cases in order.\<close>

definition knownAt :: "string \<Rightarrow> string \<Rightarrow> (int \<times> int) option \<Rightarrow> decodeErr option" where
  "knownAt format text p =
     (case p of Some pos \<Rightarrow> if 0 < fst pos then Some (atPosition format text pos) else None | None \<Rightarrow> None)"

primrec firstKnown :: "decodeErr option list \<Rightarrow> decodeErr \<Rightarrow> decodeErr" where
  "firstKnown [] d = d"
| "firstKnown (c # cs) d = (case c of Some e \<Rightarrow> e | None \<Rightarrow> firstKnown cs d)"

definition yamlDecodeError :: "yamlErr \<Rightarrow> decodeErr" where
  "yamlDecodeError e = firstKnown
     [map_option (\<lambda>(pos, msg). codecError ''yaml'' (yeText e) pos msg) (yeSyntax e),
      knownAt ''yaml'' (yeText e) (yeDuplicate e),
      knownAt ''yaml'' (yeText e) (yeCycle e),
      (case yeKYAML e of
         Some ((pos, msg) # rest) \<Rightarrow> if 0 < fst pos then Some (codecError ''yaml'' (yeText e) pos msg) else None
       | _ \<Rightarrow> None),
      (case yeType e of
         Some [t] \<Rightarrow> map_option (\<lambda>pos. codecError ''yaml'' (yeText e) pos (stripPositionPrefix t ''yaml''))
                       (scanPos t ''line %d, column %d:'' 2)
       | _ \<Rightarrow> None),
      map_option (atPosition ''yaml'' (yeText e)) (scanPos (yeText e) ''yaml: line %d:'' 1)]
     (plainErr (''recon: yaml decode: '' @ yeText e))"

definition errYAMLSecondDocument :: string where
  "errYAMLSecondDocument = ''found a second document; a configuration file holds one''"

definition yamlDocumentPosition :: "yamlLib \<Rightarrow> string \<Rightarrow> nat \<Rightarrow> int \<times> int" where
  "yamlDocumentPosition L data i =
     (case ylDocPos L data of None \<Rightarrow> (0, 0) | Some ps \<Rightarrow> if length ps \<le> i then (0, 0) else ps ! i)"

primrec yamlDocs :: "yamlLib \<Rightarrow> string \<Rightarrow> nat \<Rightarrow> rawval option \<Rightarrow> (yamlErr + rawval) list \<Rightarrow> decodeErr + rawval option" where
  "yamlDocs L data i v [] = Inr v"
| "yamlDocs L data i v (r # rs) =
     (case r of
        Inl e \<Rightarrow> Inl (yamlDecodeError e)
      | Inr doc \<Rightarrow>
          if doc = RAny ANil then yamlDocs L data (i + 1) v rs
          else if v \<noteq> None
          then Inl (codecError ''yaml'' errYAMLSecondDocument (yamlDocumentPosition L data i) errYAMLSecondDocument)
          else yamlDocs L data (i + 1) (Some doc) rs)"

definition yamlOverflowError :: "yamlLib \<Rightarrow> string \<Rightarrow> string list \<Rightarrow> decodeErr" where
  "yamlOverflowError L data texts =
     (case (case ylNodes L data of None \<Rightarrow> None | Some ns \<Rightarrow> List.find (\<lambda>(s, pos). s \<in> set texts) ns) of
        None \<Rightarrow> plainErr (''recon: yaml decode: '' @ numberRangeText (Min (set texts)))
      | Some (s, pos) \<Rightarrow> codecError ''yaml'' (numberRangeText s) pos (numberRangeText s))"

definition yamlRoot :: "(goany \<Rightarrow> string) \<Rightarrow> yamlLib \<Rightarrow> string \<Rightarrow> rawval \<Rightarrow> decodeErr + goany gomap" where
  "yamlRoot sprint L data v =
     (case normalizeMap sprint v of
        None \<Rightarrow> Inl (rawRootError ''yaml'' ''a mapping'' v)
      | Some m \<Rightarrow>
          (case yamlNumbers (RStrMap m) of
             (AAnyMap out, texts) \<Rightarrow> if texts \<noteq> [] then Inl (yamlOverflowError L data texts) else Inr out
           | _ \<Rightarrow> Inr []))"

definition yamlDecode :: "(goany \<Rightarrow> string) \<Rightarrow> yamlLib \<Rightarrow> string \<Rightarrow> decodeErr + goany gomap" where
  "yamlDecode sprint L data =
     (if data = [] then Inr []
      else case yamlDocs L data 0 None (ylDocs L data) of
             Inl e \<Rightarrow> Inl e
           | Inr None \<Rightarrow> Inr []
           | Inr (Some v) \<Rightarrow> yamlRoot sprint L data v)"

definition yamlEncode :: "(goany gomap \<Rightarrow> string + string) \<Rightarrow> goany gomap \<Rightarrow> string + string" where
  "yamlEncode marshal v = (case marshal v of Inl e \<Rightarrow> Inl (''recon: yaml encode: '' @ e) | Inr b \<Rightarrow> Inr b)"

definition YAML :: "(goany \<Rightarrow> string) \<Rightarrow> yamlLib \<Rightarrow> fileCodec" where
  "YAML sprint L = \<lparr>fcName = ''yaml'', fcExts = [''.yaml'', ''.yml''], fcDecode = yamlDecode sprint L, fcFresh = True\<rparr>"


section \<open>TOML\<close>

record tomlErr =
  teText :: string
  teSyntax :: "((int \<times> int) \<times> string) option"
  teDuplicate :: "(int \<times> int) option"
  teOverflow :: "(int \<times> int) option"
  teInline :: "(int \<times> int) option"
  teConflict :: "(int \<times> int) option"

definition tomlDecodeError :: "tomlErr \<Rightarrow> decodeErr" where
  "tomlDecodeError e =
     (case teSyntax e of
        Some (pos, msg) \<Rightarrow> codecError ''toml'' (teText e) pos msg
      | None \<Rightarrow>
          (let pos = (case teDuplicate e of Some p \<Rightarrow> p
                      | None \<Rightarrow> (case teOverflow e of Some p \<Rightarrow> p
                                 | None \<Rightarrow> (case teInline e of Some p \<Rightarrow> p
                                            | None \<Rightarrow> (case teConflict e of Some p \<Rightarrow> p | None \<Rightarrow> (0, 0)))))
           in if 0 < fst pos then atPosition ''toml'' (teText e) pos
              else plainErr (''recon: toml decode: '' @ teText e)))"

definition tomlDecode :: "(goany \<Rightarrow> string) \<Rightarrow> (string \<Rightarrow> tomlErr + rawval) \<Rightarrow> string \<Rightarrow> decodeErr + goany gomap" where
  "tomlDecode sprint unmarshal data =
     (if data = [] then Inr []
      else case unmarshal data of
             Inl e \<Rightarrow> Inl (tomlDecodeError e)
           | Inr v \<Rightarrow>
               (case normalizeMap sprint v of
                  None \<Rightarrow> Inl (rawRootError ''toml'' ''a table'' v)
                | Some m \<Rightarrow> Inr (map (\<lambda>(k, e). (k, plainTree e)) m)))"

fun tomlBigUints :: "goany \<Rightarrow> goany \<times> bool" where
  "tomlBigUints (ANum (GUint64 t)) =
     (if 2 ^ 63 - 1 < uint t then (AStr (formatUint t), True) else (ANum (GUint64 t), False))"
| "tomlBigUints (ANum (GUint t)) =
     (if 2 ^ 63 - 1 < uint t then (AStr (formatUint t), True) else (ANum (GUint t), False))"
| "tomlBigUints (ANumber s) = (AStr s, True)"
| "tomlBigUints (AAnyMap m) = (case cowMap tomlBigUints m of None \<Rightarrow> (AAnyMap [], False) | Some out \<Rightarrow> (AAnyMap out, True))"
| "tomlBigUints (AAnys xs) = (case cowList tomlBigUints xs of None \<Rightarrow> (AAnys [], False) | Some out \<Rightarrow> (AAnys out, True))"
| "tomlBigUints v = (v, False)"

definition tomlEncode :: "(goany gomap \<Rightarrow> string + string) \<Rightarrow> goany gomap \<Rightarrow> string + string" where
  "tomlEncode marshal v =
     (let v1 = (case tomlBigUints (AAnyMap v) of (AAnyMap nv, True) \<Rightarrow> nv | _ \<Rightarrow> v)
      in case marshal v1 of Inl e \<Rightarrow> Inl (''recon: toml encode: '' @ e) | Inr b \<Rightarrow> Inr b)"

definition TOML :: "(goany \<Rightarrow> string) \<Rightarrow> (string \<Rightarrow> tomlErr + rawval) \<Rightarrow> fileCodec" where
  "TOML sprint unmarshal = \<lparr>fcName = ''toml'', fcExts = [''.toml''], fcDecode = tomlDecode sprint unmarshal, fcFresh = True\<rparr>"


section \<open>Dotenv\<close>

record dotenvErr =
  dvText :: string
  dvParse :: "((int \<times> int) \<times> string) option"
  dvExpansion :: "(int \<times> int) option"

record dotenvEntry =
  dnAssigns :: bool
  dnKey :: string
  dnValue :: string
  dnPos :: "int \<times> int"

definition dotenvDecodeError :: "dotenvErr \<Rightarrow> decodeErr" where
  "dotenvDecodeError e = firstKnown
     [map_option (\<lambda>(pos, msg). codecError ''dotenv'' (dvText e) pos msg) (dvParse e),
      knownAt ''dotenv'' (dvText e) (dvExpansion e)]
     (plainErr (''recon: dotenv decode: '' @ dvText e))"

text \<open>\<open>parse\<close> gives the entries of the file and its \<open>ToMap\<close>.\<close>

definition dotenvDecode ::
  "(string \<Rightarrow> dotenvErr + (dotenvEntry list \<times> string gomap)) \<Rightarrow> string \<Rightarrow> decodeErr + goany gomap" where
  "dotenvDecode parse data =
     (if data = [] then Inr []
      else case parse data of
             Inl e \<Rightarrow> Inl (dotenvDecodeError e)
           | Inr (entries, flat) \<Rightarrow>
               (case (if validUtf8 data then None
                      else List.find (\<lambda>e. dnAssigns e \<and> (\<not> validUtf8 (dnKey e) \<or> \<not> validUtf8 (dnValue e))) entries) of
                  Some e \<Rightarrow> Inl (codecError ''dotenv'' invalidUTF8 (dnPos e) invalidUTF8)
                | None \<Rightarrow> Inr (map (\<lambda>(k, v). (k, AStr v)) flat)))"

text \<open>The map is read in key order, where Go leaves it open which of several nested values is reported.\<close>

definition isNested :: "goany \<Rightarrow> bool" where
  "isNested v = (case v of AAnyMap m \<Rightarrow> True | AAnys xs \<Rightarrow> True | _ \<Rightarrow> False)"

definition dotenvEncode ::
  "(string \<Rightarrow> string) \<Rightarrow> (goany \<Rightarrow> string) \<Rightarrow> (string gomap \<Rightarrow> string + string) \<Rightarrow> goany gomap \<Rightarrow> string + string" where
  "dotenvEncode q sprint marshal v =
     (case List.find (\<lambda>(k, val). isNested val) v of
        Some (k, val) \<Rightarrow> Inl (''recon: unsupported format: dotenv cannot encode nested value at '' @ q k)
      | None \<Rightarrow>
          (case marshal (map (\<lambda>(k, val). (k, sprint val)) v) of
             Inl e \<Rightarrow> Inl (''recon: dotenv encode: '' @ e)
           | Inr b \<Rightarrow> Inr b))"

definition Dotenv :: "(string \<Rightarrow> dotenvErr + (dotenvEntry list \<times> string gomap)) \<Rightarrow> fileCodec" where
  "Dotenv parse = \<lparr>fcName = ''dotenv'', fcExts = [''.env''], fcDecode = dotenvDecode parse, fcFresh = True\<rparr>"


section \<open>Documents of YAML\<close>

text \<open>After normalization every map has string keys; a document that has only such maps is left as it is.\<close>

fun uniform :: "rawval \<Rightarrow> bool" where
  "uniform (RStrMap m) = list_all (\<lambda>(k, v). uniform v) m"
| "uniform (RAnyMap m) = False"
| "uniform (RSeq xs) = list_all uniform xs"
| "uniform v = True"

lemma fold_mput_all:
  "\<forall>e \<in> set xs. P (snd e) \<Longrightarrow> \<forall>e \<in> set out. P (snd e) \<Longrightarrow> \<forall>e \<in> set (fold (\<lambda>(k, v) m. mput k v m) xs out). P (snd e)"
  using fold_mput_entries[of xs out] by blast

lemma normalizeAny_uniform: "uniform (normalizeAny sprint v)"
proof (induction v)
  case (RStrMap m)
  then show ?case by (auto simp: list_all_iff)
next
  case (RAnyMap m)
  have "\<forall>e \<in> set (fold (\<lambda>(k, v) out. mput k v out) (map (\<lambda>(k, v). (sprint k, normalizeAny sprint v)) m) []). uniform (snd e)"
    using RAnyMap by (intro fold_mput_all) auto
  then show ?case by (simp add: list_all_iff split_beta)
next
  case (RSeq xs)
  then show ?case by (auto simp: list_all_iff)
qed simp_all

lemma normalizeAny_id: "uniform v \<Longrightarrow> normalizeAny sprint v = v"
  by (induction v) (auto simp: list_all_iff intro!: map_idI)

definition isNull :: "rawval \<Rightarrow> bool" where
  "isNull v = (v = RAny ANil)"

definition secondDocument :: "yamlLib \<Rightarrow> string \<Rightarrow> nat \<Rightarrow> decodeErr" where
  "secondDocument L data i =
     codecError ''yaml'' errYAMLSecondDocument (yamlDocumentPosition L data i) errYAMLSecondDocument"

lemma yamlDocs_step:
  "isNull d \<Longrightarrow> yamlDocs L data i v (Inr d # rs) = yamlDocs L data (i + 1) v rs"
  "\<not> isNull d \<Longrightarrow> yamlDocs L data i None (Inr d # rs) = yamlDocs L data (i + 1) (Some d) rs"
  "\<not> isNull d \<Longrightarrow> yamlDocs L data i (Some x) (Inr d # rs) = Inl (secondDocument L data i)"
  by (simp_all add: isNull_def secondDocument_def)

declare yamlDocs.simps(2) [simp del]

lemma yamlDocs_found:
  "yamlDocs L data i (Some x) (map Inr ds) =
     (case dropWhile isNull ds of [] \<Rightarrow> Inr (Some x)
      | w # post \<Rightarrow> Inl (secondDocument L data (i + length ds - length (w # post))))"
proof (induction ds arbitrary: i)
  case (Cons d ds)
  then show ?case by (cases "isNull d") (simp_all add: yamlDocs_step split: list.split del: dropWhile_eq_Nil_conv)
qed simp

lemma yamlDocs_none:
  "yamlDocs L data i None (map Inr ds) =
     (case dropWhile isNull ds of [] \<Rightarrow> Inr None
      | v # rest \<Rightarrow> yamlDocs L data (i + length ds - length rest) (Some v) (map Inr rest))"
proof (induction ds arbitrary: i)
  case (Cons d ds)
  then show ?case by (cases "isNull d") (simp_all add: yamlDocs_step split: list.split del: dropWhile_eq_Nil_conv)
qed simp

text \<open>
  C25: A YAML file the parser accepts, document by document. Documents that are null do not count: none at
  all is the empty map, one is the configuration, and the second one is an error at the place where it
  starts.
\<close>
theorem yaml_one_document:
  assumes "data \<noteq> []" and "ylDocs L data = map Inr ds"
  shows "yamlDecode sprint L data =
    (case dropWhile isNull ds of
       [] \<Rightarrow> Inr []
     | v # rest \<Rightarrow>
         (case dropWhile isNull rest of
            [] \<Rightarrow> yamlRoot sprint L data v
          | w # post \<Rightarrow> Inl (secondDocument L data (length ds - length (w # post)))))"
proof (cases "dropWhile isNull ds")
  case Nil
  then show ?thesis using assms yamlDocs_none[of L data 0 ds]
    by (simp add: yamlDecode_def del: dropWhile_eq_Nil_conv)
next
  case (Cons v rest)
  have "length rest \<le> length ds" using length_dropWhile_le[of isNull ds] Cons by simp
  moreover have "length post < length rest" if "dropWhile isNull rest = w # post" for w post
    using length_dropWhile_le[of isNull rest] that by simp
  ultimately show ?thesis
    using assms Cons yamlDocs_none[of L data 0 ds] yamlDocs_found[of L data "length ds - length rest" v rest]
    by (simp add: yamlDecode_def split: list.split del: dropWhile_eq_Nil_conv)
qed

definition twoDocuments :: yamlLib where
  "twoDocuments = \<lparr>ylDocs = (\<lambda>data. map Inr [RAny ANil, RStrMap [(''a'', RNumber ''1'')], RSeq []]),
     ylDocPos = (\<lambda>data. Some [(1, 1), (2, 1), (4, 1)]), ylNodes = (\<lambda>data. None)\<rparr>"

theorem yaml_one_document_witness:
  "yamlDecode (\<lambda>k. []) twoDocuments ''---'' = Inl (secondDocument twoDocuments ''---'' 2)"
  using yaml_one_document[of "''---''" twoDocuments "[RAny ANil, RStrMap [(''a'', RNumber ''1'')], RSeq []]"]
  by (simp add: twoDocuments_def isNull_def numeral_2_eq_2)


section \<open>Integers of YAML\<close>

text \<open>Digits in a base up to 16.\<close>

definition baseDigit :: "nat \<Rightarrow> char" where
  "baseDigit d = ''0123456789abcdef'' ! d"

fun baseText :: "nat \<Rightarrow> nat \<Rightarrow> string" where
  "baseText b n = (if b < 2 \<or> n < b then [baseDigit n] else baseText b (n div b) @ [baseDigit (n mod b)])"

declare baseText.simps [simp del]

lemma baseDigit_read: "d < 16 \<Longrightarrow> bigDigit (baseDigit d) = Some d \<and> baseDigit d \<noteq> CHR ''_''"
proof -
  have "list_all (\<lambda>d. bigDigit (baseDigit d) = Some d \<and> baseDigit d \<noteq> CHR ''_'') [0..<16]" by code_simp
  then show "d < 16 \<Longrightarrow> ?thesis" by (simp add: list_all_iff)
qed

lemma baseDigit_decimal: "d < 10 \<Longrightarrow> baseDigit d = digitChar d"
proof -
  have "list_all (\<lambda>d. baseDigit d = digitChar d) [0..<10]" by code_simp
  then show "d < 10 \<Longrightarrow> ?thesis" by (simp add: list_all_iff)
qed

lemma formatNat_base: "formatNat n = baseText 10 n"
proof (induction n rule: formatNat.induct)
  case (1 n)
  then show ?case
    by (subst formatNat.simps, subst baseText.simps) (simp add: baseDigit_decimal)
qed

definition readDigits :: "nat \<Rightarrow> nat \<Rightarrow> string \<Rightarrow> nat" where
  "readDigits b acc s = foldl (\<lambda>a c. a * b + the (bigDigit c)) acc s"

lemma bigScan_digits:
  "\<forall>c \<in> set s. c \<noteq> CHR ''_'' \<and> (\<exists>d < b. bigDigit c = Some d) \<Longrightarrow> \<not> prev \<or> s \<noteq> [] \<Longrightarrow> 0 < cnt \<or> s \<noteq> [] \<Longrightarrow>
   bigScan b us prev cnt acc s = Some (readDigits b acc s)"
proof (induction s arbitrary: prev cnt acc)
  case (Cons c s)
  then obtain d where "d < b" "bigDigit c = Some d" "c \<noteq> CHR ''_''" by auto
  then show ?case using Cons by (simp add: readDigits_def)
qed (simp add: readDigits_def)

lemma baseText_digits:
  "2 \<le> b \<Longrightarrow> b \<le> 16 \<Longrightarrow> c \<in> set (baseText b n) \<Longrightarrow> c \<noteq> CHR ''_'' \<and> (\<exists>d < b. bigDigit c = Some d)"
proof (induction b n rule: baseText.induct)
  case (1 b n)
  have "n mod b < b" using 1(2) by simp
  then have "n mod b < 16" using 1(3) by simp
  show ?case
  proof (cases "n < b")
    case True
    then have "baseText b n = [baseDigit n]" by (subst baseText.simps) simp
    then show ?thesis using 1(3,4) True baseDigit_read[of n] by auto
  next
    case False
    then have "baseText b n = baseText b (n div b) @ [baseDigit (n mod b)]" using 1(2) by (subst baseText.simps) simp
    then have "c \<in> set (baseText b (n div b)) \<or> c = baseDigit (n mod b)" using 1(4) by auto
    then show ?thesis using 1(1)[OF _ 1(2,3)] 1(2) False baseDigit_read[OF \<open>n mod b < 16\<close>] \<open>n mod b < b\<close> by auto
  qed
qed

lemma readDigits_baseText: "2 \<le> b \<Longrightarrow> b \<le> 16 \<Longrightarrow> readDigits b 0 (baseText b n) = n"
proof (induction b n rule: baseText.induct)
  case (1 b n)
  show ?case
  proof (cases "n < b")
    case True
    then have "baseText b n = [baseDigit n]" by (subst baseText.simps) simp
    then show ?thesis using 1(3) True baseDigit_read[of n] by (simp add: readDigits_def)
  next
    case False
    then have t: "baseText b n = baseText b (n div b) @ [baseDigit (n mod b)]" using 1(2) by (subst baseText.simps) simp
    have "n mod b < 16" using mod_less_divisor[of b n] 1(2,3) by linarith
    then show ?thesis using 1(1)[OF _ 1(2,3)] 1(2) False baseDigit_read[of "n mod b"] t by (simp add: readDigits_def)
  qed
qed

lemma baseText_nonempty [simp]: "baseText b n \<noteq> []"
  by (subst baseText.simps) simp

lemma bigScan_baseText: "2 \<le> b \<Longrightarrow> b \<le> 16 \<Longrightarrow> bigScan b us False 0 0 (baseText b n) = Some n"
  using bigScan_digits[of "baseText b n" b] baseText_digits readDigits_baseText by simp

lemma baseText_hd: "2 \<le> b \<Longrightarrow> b \<le> 16 \<Longrightarrow> baseText b n = c # s \<Longrightarrow> c \<noteq> CHR ''+'' \<and> c \<noteq> CHR ''-''"
proof -
  assume "2 \<le> b" "b \<le> 16" "baseText b n = c # s"
  then have "bigDigit c \<noteq> None" using baseText_digits[of b c n] by auto
  then show ?thesis by (auto simp: bigDigit_def)
qed

lemma baseText_no_prefix: "2 \<le> b \<Longrightarrow> b \<le> 16 \<Longrightarrow> b = 10 \<Longrightarrow> c \<in> set (baseText b n) \<Longrightarrow> c \<noteq> CHR ''x'' \<and> c \<noteq> CHR ''o''"
  using baseText_digits[of b c n] by (auto simp: bigDigit_def)

lemma decimal_text:
  "setString (formatNat n) 10 = Some (int n)"
  "setString (CHR ''-'' # formatNat n) 10 = Some (- int n)"
  "\<not> hasPrefix (formatNat n) ''0x''" "\<not> hasPrefix (formatNat n) ''0o''" "\<not> hasPrefix (formatNat n) ''+''"
  "dropWhile (\<lambda>c. c = CHR ''+'' \<or> c = CHR ''-'') (formatNat n) = formatNat n"
proof -
  obtain c s where t: "baseText 10 n = c # s" using baseText_nonempty[of 10 n] by (meson neq_Nil_conv)
  have hd: "c \<noteq> CHR ''+'' \<and> c \<noteq> CHR ''-''" using baseText_hd[OF _ _ t] by simp
  have second: "s = [] \<or> hd s \<noteq> CHR ''x'' \<and> hd s \<noteq> CHR ''o''"
    using baseText_no_prefix[of 10 "hd s" n] t by (cases s) auto
  show "setString (formatNat n) 10 = Some (int n)" "setString (CHR ''-'' # formatNat n) 10 = Some (- int n)"
    using bigScan_baseText[of 10 False n] hd t by (simp_all add: setString_def formatNat_base)
  show "\<not> hasPrefix (formatNat n) ''0x''" "\<not> hasPrefix (formatNat n) ''0o''" "\<not> hasPrefix (formatNat n) ''+''"
    "dropWhile (\<lambda>c. c = CHR ''+'' \<or> c = CHR ''-'') (formatNat n) = formatNat n"
    using hd second t by (cases s; simp add: formatNat_base)+
qed

text \<open>
  C26: Integers of YAML of any size are exact: the decimal text of an integer with or without a plus sign, and the
  hexadecimal and octal texts with or without a minus sign, become the \<open>json.Number\<close> with the decimal text
  of the same integer.
\<close>
theorem yaml_integers_exact:
  "yamlNumbers (RNumber (bigString z)) = (ANumber (bigString z), [])
   \<and> yamlNumbers (RNumber (CHR ''+'' # formatNat n)) = (ANumber (formatNat n), [])
   \<and> yamlNumbers (RNumber (''0x'' @ baseText 16 n)) = (ANumber (formatNat n), [])
   \<and> yamlNumbers (RNumber (''-0x'' @ baseText 16 n)) = (ANumber (bigString (- int n)), [])
   \<and> yamlNumbers (RNumber (''0o'' @ baseText 8 n)) = (ANumber (formatNat n), [])
   \<and> yamlNumbers (RNumber (''-0o'' @ baseText 8 n)) = (ANumber (bigString (- int n)), [])"
proof -
  have "yamlNumber (formatNat n) = (ANumber (formatNat n), [])" for n
    using decimal_text[of n] by (simp add: yamlNumber_def trimPrefix_def bigString_def)
  moreover have "yamlNumber (CHR ''-'' # formatNat n) = (ANumber (bigString (- int n)), [])" for n
    using decimal_text[of n] by (simp add: yamlNumber_def trimPrefix_def)
  ultimately have "yamlNumber (bigString z) = (ANumber (bigString z), [])"
    by (cases "z < 0") (simp_all add: bigString_def)
  moreover have "yamlNumber (CHR ''+'' # formatNat n) = (ANumber (formatNat n), [])"
    using decimal_text[of n] by (simp add: yamlNumber_def trimPrefix_def bigString_def)
  moreover have "yamlNumber (''0x'' @ baseText 16 n) = (ANumber (formatNat n), [])"
    "yamlNumber (''-0x'' @ baseText 16 n) = (ANumber (bigString (- int n)), [])"
    "yamlNumber (''0o'' @ baseText 8 n) = (ANumber (formatNat n), [])"
    "yamlNumber (''-0o'' @ baseText 8 n) = (ANumber (bigString (- int n)), [])"
    using bigScan_baseText[of 16 True n] bigScan_baseText[of 8 True n]
    by (simp_all add: yamlNumber_def setString_def trimPrefix_def bigString_def)
  ultimately show ?thesis by simp
qed


section \<open>What TOML is given\<close>

fun bigAsText :: "goany \<Rightarrow> goany" where
  "bigAsText (ANum (GUint64 t)) = (if 2 ^ 63 - 1 < uint t then AStr (formatUint t) else ANum (GUint64 t))"
| "bigAsText (ANum (GUint t)) = (if 2 ^ 63 - 1 < uint t then AStr (formatUint t) else ANum (GUint t))"
| "bigAsText (ANumber s) = AStr s"
| "bigAsText (AAnyMap m) = AAnyMap (map (\<lambda>(k, v). (k, bigAsText v)) m)"
| "bigAsText (AAnys xs) = AAnys (map bigAsText xs)"
| "bigAsText v = v"

lemma map_snd_changes: "map (\<lambda>(k, e). (k, f e)) m \<noteq> m \<longleftrightarrow> (\<exists>(k, e) \<in> set m. f e \<noteq> e)"
  by (induction m) auto

lemma map_changes: "map f xs \<noteq> xs \<longleftrightarrow> (\<exists>e \<in> set xs. f e \<noteq> e)"
  by (induction xs) auto

lemma tomlBigUints_spec:
  "anyMapsOk v \<Longrightarrow> (snd (tomlBigUints v) \<longleftrightarrow> bigAsText v \<noteq> v) \<and> (snd (tomlBigUints v) \<longrightarrow> fst (tomlBigUints v) = bigAsText v)"
proof (induction v)
  case (AAnyMap m)
  then have m: "mwf m" and each: "\<And>k e. (k, e) \<in> set m \<Longrightarrow>
      (snd (tomlBigUints e) \<longleftrightarrow> bigAsText e \<noteq> e) \<and> (snd (tomlBigUints e) \<longrightarrow> fst (tomlBigUints e) = bigAsText e)"
    by (auto simp: list_all_iff)
  have "(\<exists>(k, e) \<in> set m. snd (tomlBigUints e)) \<longleftrightarrow> map (\<lambda>(k, e). (k, bigAsText e)) m \<noteq> m"
    unfolding map_snd_changes using each by (simp add: split_beta cong: bex_cong) force
  moreover have "map (\<lambda>(k, e). (k, if snd (tomlBigUints e) then fst (tomlBigUints e) else e)) m = map (\<lambda>(k, e). (k, bigAsText e)) m"
    using each by (auto simp: split_beta)
  ultimately show ?case by (simp add: cowMap_map[OF m])
next
  case (AAnys xs)
  then have each: "\<And>e. e \<in> set xs \<Longrightarrow>
      (snd (tomlBigUints e) \<longleftrightarrow> bigAsText e \<noteq> e) \<and> (snd (tomlBigUints e) \<longrightarrow> fst (tomlBigUints e) = bigAsText e)"
    by (auto simp: list_all_iff)
  have "(\<exists>e \<in> set xs. snd (tomlBigUints e)) \<longleftrightarrow> map bigAsText xs \<noteq> xs"
    unfolding map_changes using each by auto
  moreover have "map (\<lambda>e. if snd (tomlBigUints e) then fst (tomlBigUints e) else e) xs = map bigAsText xs"
    using each by auto
  ultimately show ?case by (simp add: cowList_map)
next
  case (ANum n)
  then show ?case by (cases n) auto
qed simp_all

text \<open>
  C27: The TOML encoder gets the document with exactly the numbers TOML cannot hold (unsigned integers
  beyond the largest int64, and numbers of any size) written as text; the copy made on the way changes
  nothing else and is made only where something changes.
\<close>
theorem tomlEncode_bigAsText:
  assumes "anyMapsOk (AAnyMap v)"
  shows "tomlEncode marshal v =
    (case marshal (map (\<lambda>(k, e). (k, bigAsText e)) v) of Inl e \<Rightarrow> Inl (''recon: toml encode: '' @ e) | Inr b \<Rightarrow> Inr b)"
proof -
  obtain nv changed where r: "tomlBigUints (AAnyMap v) = (nv, changed)" by force
  from tomlBigUints_spec[OF assms] r have
    "changed \<longleftrightarrow> map (\<lambda>(k, e). (k, bigAsText e)) v \<noteq> v" "changed \<Longrightarrow> nv = AAnyMap (map (\<lambda>(k, e). (k, bigAsText e)) v)"
    by auto
  then show ?thesis using r by (cases changed) (simp_all add: tomlEncode_def Let_def split: goany.split)
qed

theorem tomlEncode_bigAsText_witness:
  "tomlEncode (\<lambda>m. if m = [(''n'', AStr ''18446744073709551615''), (''t'', ABool True)] then Inr ''ok'' else Inl ''no'')
     [(''n'', ANumber ''18446744073709551615''), (''t'', ABool True)] = Inr ''ok''"
  using tomlEncode_bigAsText[of "[(''n'', ANumber ''18446744073709551615''), (''t'', ABool True)]"
      "\<lambda>m. if m = [(''n'', AStr ''18446744073709551615''), (''t'', ABool True)] then Inr ''ok'' else Inl ''no''"]
  by (simp add: mwf_def)

end
