(* ===== verification/Schema.thy ===== *)
theory Schema
  imports Errors
begin

text \<open>
  \<open>validator_jsonschema.go\<close>. A compiled schema is what its \<open>ValidateValue\<close> gives for a document: an error, or
  whether the document is valid and the violations. \<open>fmt\<close> writes a time as RFC 3339 text,
  \<open>q\<close> is \<open>%q\<close>.
\<close>

section \<open>JSON pointers\<close>

primrec splitPointerFrom :: "string list \<Rightarrow> string \<Rightarrow> string \<Rightarrow> string list" where
  "splitPointerFrom out cur [] = out @ [cur]"
| "splitPointerFrom out cur (c # s) =
     (if c = CHR ''/'' then splitPointerFrom (out @ [cur]) [] s else splitPointerFrom out (cur @ [c]) s)"

definition splitJSONPointer :: "string \<Rightarrow> string list" where
  "splitJSONPointer s = splitPointerFrom [] [] s"

fun unescapeFrom :: "string \<Rightarrow> string" where
  "unescapeFrom (a # b # s) =
     (if a = CHR ''~'' \<and> b = CHR ''0'' then CHR ''~'' # unescapeFrom s
      else if a = CHR ''~'' \<and> b = CHR ''1'' then CHR ''/'' # unescapeFrom s
      else a # unescapeFrom (b # s))"
| "unescapeFrom s = s"

definition unescapeJSONPointer :: "string \<Rightarrow> string" where
  "unescapeJSONPointer s = (if CHR ''~'' \<notin> set s then s else unescapeFrom s)"

definition jsonPointerToPath :: "string \<Rightarrow> path" where
  "jsonPointerToPath pointer =
     (if pointer = [] \<or> pointer = ''/'' then []
      else let pointer1 = (if hd pointer = CHR ''/'' then tl pointer else pointer)
           in map unescapeJSONPointer (splitJSONPointer pointer1))"


section \<open>Validation\<close>

fun jsonTimes :: "(gotime \<Rightarrow> string) \<Rightarrow> goany \<Rightarrow> goany \<times> bool" where
  "jsonTimes fmt (ATime t) = (AStr (fmt t), True)"
| "jsonTimes fmt (AAnyMap m) = (case cowMap (jsonTimes fmt) m of None \<Rightarrow> (AAnyMap m, False) | Some cp \<Rightarrow> (AAnyMap cp, True))"
| "jsonTimes fmt (AAnys xs) = (case cowList (jsonTimes fmt) xs of None \<Rightarrow> (AAnys xs, False) | Some cp \<Rightarrow> (AAnys cp, True))"
| "jsonTimes fmt v = (v, False)"

record schemaErr =
  seInstance :: string
  seKeyword :: string
  seMessage :: string
  seError :: goerr

type_synonym jschema = "goany gomap \<Rightarrow> goerr + (bool \<times> schemaErr list)"

definition translateSchemaError :: "schemaErr \<Rightarrow> goerr" where
  "translateSchemaError e = InvalidE (jsonPointerToPath (seInstance e)) (seKeyword e) (seMessage e) False (Some (seError e))"

definition schemaInput :: "(gotime \<Rightarrow> string) \<Rightarrow> goany gomap \<Rightarrow> goany gomap" where
  "schemaInput fmt snapshot =
     (case jsonTimes fmt (AAnyMap snapshot) of (AAnyMap m, True) \<Rightarrow> m | _ \<Rightarrow> snapshot)"

definition schemaValidate :: "(string \<Rightarrow> string) \<Rightarrow> (gotime \<Rightarrow> string) \<Rightarrow> jschema option \<Rightarrow> goany gomap \<Rightarrow> goerr option" where
  "schemaValidate q fmt v snapshot =
     (case v of
        None \<Rightarrow> None
      | Some schema \<Rightarrow>
          (case schema (schemaInput fmt snapshot) of
             Inl e \<Rightarrow> Some (Wraps (ErrValidation @ '': '' @ errText q e) [Sentinel ErrValidation, e])
           | Inr (valid, errs) \<Rightarrow>
               if valid then None
               else Some (MultiE (fold (\<lambda>e es. multiAppend (Some (translateSchemaError e)) es) errs []))))"

definition ErrSchemaInvalid :: string where
  "ErrSchemaInvalid = ''recon: schema invalid''"

text \<open>The four constructors that compile a schema; \<open>compile\<close> is the loader of the format.\<close>

definition NewJSONSchemaValidator :: "(string \<Rightarrow> string) \<Rightarrow> (string \<Rightarrow> goerr + jschema) \<Rightarrow> string \<Rightarrow> goerr + jschema option" where
  "NewJSONSchemaValidator q compile schemaJSON =
     (case compile schemaJSON of
        Inl e \<Rightarrow> Inl (Wraps (ErrSchemaInvalid @ '': '' @ errText q e) [Sentinel ErrSchemaInvalid, e])
      | Inr s \<Rightarrow> Inr (Some s))"

definition NewJSONSchemaValidatorFromSchema :: "jschema \<Rightarrow> jschema option" where
  "NewJSONSchemaValidatorFromSchema s = Some s"


section \<open>A pointer names its path\<close>

text \<open>The pointer of RFC 6901.\<close>

definition escapeSegment :: "string \<Rightarrow> string" where
  "escapeSegment s = concat (map (\<lambda>c. if c = CHR ''~'' then ''~0'' else if c = CHR ''/'' then ''~1'' else [c]) s)"

definition pointerOf :: "path \<Rightarrow> string" where
  "pointerOf p = concat (map (\<lambda>s. CHR ''/'' # escapeSegment s) p)"

lemma escapeSegment_simps [simp]:
  "escapeSegment [] = []"
  "escapeSegment (c # s) = (if c = CHR ''~'' then ''~0'' else if c = CHR ''/'' then ''~1'' else [c]) @ escapeSegment s"
  by (simp_all add: escapeSegment_def)

lemma escape_no_slash: "CHR ''/'' \<notin> set (escapeSegment s)"
  by (induction s) auto

lemma unescape_plain: "a \<noteq> CHR ''~'' \<Longrightarrow> unescapeFrom (a # s) = a # unescapeFrom s"
  by (cases s) auto

lemma unescape_escape: "unescapeFrom (escapeSegment s) = s"
  by (induction s) (auto simp: unescape_plain)

lemma unescape_id: "CHR ''~'' \<notin> set s \<Longrightarrow> unescapeFrom s = s"
  by (induction s) (auto simp: unescape_plain)

lemma unescapeJSONPointer_escape: "unescapeJSONPointer (escapeSegment s) = s"
  using unescape_escape[of s] unescape_id[of "escapeSegment s"] by (auto simp: unescapeJSONPointer_def)

lemma splitPointer_segment:
  "CHR ''/'' \<notin> set s \<Longrightarrow> splitPointerFrom out cur (s @ t) = splitPointerFrom out (cur @ s) t"
  by (induction s arbitrary: cur) auto

lemma splitPointer_pointer:
  "splitPointerFrom out cur (pointerOf p) = out @ cur # map escapeSegment p"
proof (induction p arbitrary: out cur)
  case (Cons s p)
  then show ?case using splitPointer_segment[OF escape_no_slash, of "out @ [cur]" "[]" s] by (simp add: pointerOf_def)
qed (simp add: pointerOf_def)

lemma pointer_path:
  assumes ne: "p \<noteq> [[]]"
  shows "jsonPointerToPath (pointerOf p) = p"
proof (cases p)
  case (Cons s q)
  have slash: "pointerOf p = CHR ''/'' # escapeSegment s @ pointerOf q" by (simp add: Cons pointerOf_def)
  have "escapeSegment s @ pointerOf q \<noteq> []"
  proof (cases s)
    case Nil
    then show ?thesis using ne Cons by (cases q) (auto simp: pointerOf_def)
  qed simp
  then have "jsonPointerToPath (pointerOf p) = map unescapeJSONPointer (splitJSONPointer (escapeSegment s @ pointerOf q))"
    by (auto simp: slash jsonPointerToPath_def)
  also have "splitJSONPointer (escapeSegment s @ pointerOf q) = map escapeSegment p"
    using splitPointer_segment[OF escape_no_slash, of "[]" "[]" s "pointerOf q"] splitPointer_pointer[of "[]" "escapeSegment s" q]
    by (simp add: splitJSONPointer_def Cons)
  finally show ?thesis by (simp add: unescapeJSONPointer_escape comp_def)
qed (simp add: pointerOf_def jsonPointerToPath_def)

text \<open>The pointer of the member with the empty name is read as the whole document.\<close>

lemma empty_name_is_root: "jsonPointerToPath (pointerOf [[]]) = []"
  by (simp add: jsonPointerToPath_def pointerOf_def)


section \<open>Times in the document\<close>

fun holdsTime :: "goany \<Rightarrow> bool" where
  "holdsTime (ATime t) = True"
| "holdsTime (AAnyMap m) = list_ex (\<lambda>(k, v). holdsTime v) m"
| "holdsTime (AAnys xs) = list_ex holdsTime xs"
| "holdsTime v = False"

fun timesToText :: "(gotime \<Rightarrow> string) \<Rightarrow> goany \<Rightarrow> goany" where
  "timesToText fmt (ATime t) = AStr (fmt t)"
| "timesToText fmt (AAnyMap m) = AAnyMap (map (\<lambda>(k, v). (k, timesToText fmt v)) m)"
| "timesToText fmt (AAnys xs) = AAnys (map (timesToText fmt) xs)"
| "timesToText fmt v = v"

lemma timesToText_id: "\<not> holdsTime v \<Longrightarrow> timesToText fmt v = v"
proof (induction v)
  case (AAnyMap m)
  then have "map (\<lambda>(k, v). (k, timesToText fmt v)) m = m" by (intro map_idI) (auto simp: list_ex_iff)
  then show ?case by simp
next
  case (AAnys xs)
  then have "map (timesToText fmt) xs = xs" by (intro map_idI) (auto simp: list_ex_iff)
  then show ?case by simp
qed simp_all

lemma jsonTimes_spec: "anyMapsOk v \<Longrightarrow> jsonTimes fmt v = (timesToText fmt v, holdsTime v)"
proof (induction v)
  case (AAnyMap m)
  then have m: "mwf m" "\<And>k e. (k, e) \<in> set m \<Longrightarrow> jsonTimes fmt e = (timesToText fmt e, holdsTime e)"
    by (auto simp: list_all_iff)
  have "(\<exists>(k, e) \<in> set m. snd (jsonTimes fmt e)) \<longleftrightarrow> holdsTime (AAnyMap m)"
    using m(2) by (simp add: list_ex_iff split_beta cong: bex_cong) force
  moreover have "map (\<lambda>(k, e). (k, if snd (jsonTimes fmt e) then fst (jsonTimes fmt e) else e)) m
      = map (\<lambda>(k, e). (k, timesToText fmt e)) m"
    using m(2) timesToText_id by (auto simp: split_beta)
  ultimately show ?case using timesToText_id[of "AAnyMap m"] by (simp add: cowMap_map[OF m(1)])
next
  case (AAnys xs)
  then have m: "\<And>e. e \<in> set xs \<Longrightarrow> jsonTimes fmt e = (timesToText fmt e, holdsTime e)"
    by (auto simp: list_all_iff)
  have "(\<exists>e \<in> set xs. snd (jsonTimes fmt e)) \<longleftrightarrow> holdsTime (AAnys xs)"
    using m by (simp add: list_ex_iff)
  moreover have "map (\<lambda>e. if snd (jsonTimes fmt e) then fst (jsonTimes fmt e) else e) xs = map (timesToText fmt) xs"
    using m timesToText_id by auto
  ultimately show ?case using timesToText_id[of "AAnys xs"] by (simp add: cowList_map)
qed simp_all

text \<open>
  C18: A failed validation, translated. The schema sees the snapshot with every time as its RFC 3339 text
  and nothing else changed; it succeeds when the schema is satisfied, and otherwise holds one
  \<open>ValidationError\<close> for each violation, in order, whose path is the place the violation's pointer names (the
  pointer of RFC 6901, except that the member with the empty name at the root is taken for the root).
\<close>
theorem schemaValidate_names_places:
  assumes "anyMapsOk (AAnyMap snapshot)"
    and "schema (map (\<lambda>(k, v). (k, timesToText fmt v)) snapshot) = Inr (valid, errs)"
    and "\<forall>e \<in> set errs. place e \<noteq> [[]] \<and> seInstance e = pointerOf (place e)"
  shows "schemaValidate q fmt (Some schema) snapshot =
    (if valid then None
     else Some (MultiE (map (\<lambda>e. InvalidE (place e) (seKeyword e) (seMessage e) False (Some (seError e))) errs)))"
proof -
  have "schemaInput fmt snapshot = map (\<lambda>(k, v). (k, timesToText fmt v)) snapshot"
    using jsonTimes_spec[OF assms(1), of fmt] timesToText_id[of "AAnyMap snapshot" fmt]
    by (auto simp: schemaInput_def simp del: jsonTimes.simps split: bool.splits)
  moreover have "fold (\<lambda>e es. multiAppend (Some (translateSchemaError e)) es) errs acc = acc @ map translateSchemaError errs" for acc
    by (induction errs arbitrary: acc) (auto simp: multiAppend_def)
  moreover have "map translateSchemaError errs
      = map (\<lambda>e. InvalidE (place e) (seKeyword e) (seMessage e) False (Some (seError e))) errs"
    using assms(3) pointer_path by (auto simp: translateSchemaError_def)
  ultimately show ?thesis using assms(2) by (simp add: schemaValidate_def)
qed

definition portViolation :: schemaErr where
  "portViolation = \<lparr>seInstance = ''/server/a~1b'', seKeyword = ''minimum'', seMessage = ''too small'', seError = Plain ''minimum''\<rparr>"

theorem schemaValidate_names_places_witness:
  "schemaValidate id (\<lambda>t. ''2024-01-02T03:04:05Z'') (Some (\<lambda>m. Inr (m \<noteq> [(''a'', AStr ''2024-01-02T03:04:05Z'')], [portViolation])))
     [(''a'', ATime (0, 0))]
   = Some (MultiE [InvalidE [''server'', ''a/b''] ''minimum'' ''too small'' False (Some (Plain ''minimum''))])"
  using schemaValidate_names_places[of "[(''a'', ATime (0, 0))]"
      "\<lambda>m. Inr (m \<noteq> [(''a'', AStr ''2024-01-02T03:04:05Z'')], [portViolation])" "\<lambda>t. ''2024-01-02T03:04:05Z''"
      False "[portViolation]" "\<lambda>e. [''server'', ''a/b'']" id]
  by (simp add: portViolation_def pointerOf_def mwf_def)

end
