(* ===== verification/Configs.thy ===== *)
theory Configs
  imports Watch
begin

text \<open>
  \<open>configs.go\<close>: named registries and the stream of their events. A \<open>*Registry\<close> is a reference into a store of
  cells; a cell is the state of the registry and the buffer of its event channel, which is closed with the
  registry. A goroutine of \<open>startForwarderLocked\<close> is an entry of \<open>cfRunning\<close>. The methods that hold the mutex
  for their whole body are functions; \<open>Close\<close>, which releases it to wait for the forwarders, is two of them.

  For the statements the model also keeps what every registry sent, what was sent on the common channel,
  what was registered, and whether something was registered after \<open>Close\<close> had begun.
\<close>

section \<open>State\<close>

record regCell =
  rcState :: registry
  rcWatched :: bool
  rcQueue :: "event list"
  rcSent :: "event list"

datatype fwPhase = FwIdle | FwHolding event | FwGone

record forwarder =
  fwName :: string
  fwReg :: nat
  fwPhase :: fwPhase

datatype closePhase = CpOpen | CpStopping | CpClosed

fun phaseRank :: "closePhase \<Rightarrow> nat" where
  "phaseRank CpOpen = 0"
| "phaseRank CpStopping = 1"
| "phaseRank CpClosed = 2"

instantiation closePhase :: linorder
begin

definition less_eq_closePhase :: "closePhase \<Rightarrow> closePhase \<Rightarrow> bool" where
  "p \<le> q \<longleftrightarrow> phaseRank p \<le> phaseRank q"

definition less_closePhase :: "closePhase \<Rightarrow> closePhase \<Rightarrow> bool" where
  "p < q \<longleftrightarrow> phaseRank p < phaseRank q"

instance
proof
  fix p q :: closePhase
  show "p \<le> q \<Longrightarrow> q \<le> p \<Longrightarrow> p = q" by (cases p; cases q) (simp_all add: less_eq_closePhase_def)
qed (auto simp: less_eq_closePhase_def less_closePhase_def)

end

record configs =
  cfByName :: "nat gomap"
  cfOrder :: "string list"
  cfClose :: closePhase
  cfEvents :: "(string \<times> event) list option"
  cfCap :: nat
  cfChanClosed :: bool
  cfStopped :: bool
  cfForwarders :: "string list"
  cfRunning :: "forwarder list"

record confSys = configs +
  csCells :: "nat \<Rightarrow> regCell"
  csOut :: "(string \<times> event) list"
  csSeen :: "(string \<times> nat) list"
  csLate :: bool
  csPanic :: bool

definition NewConfigs :: "(nat \<Rightarrow> regCell) \<Rightarrow> confSys" where
  "NewConfigs cells =
     \<lparr>cfByName = [], cfOrder = [], cfClose = CpOpen, cfEvents = None, cfCap = 0, cfChanClosed = False,
      cfStopped = False, cfForwarders = [], cfRunning = [],
      csCells = cells, csOut = [], csSeen = [], csLate = False, csPanic = False\<rparr>"

definition cellClosed :: "confSys \<Rightarrow> nat \<Rightarrow> bool" where
  "cellClosed s a = rgClosed (rcState (csCells s a))"

text \<open>\<open>Registry.Close\<close> through the reference.\<close>

definition closeCell :: "nat \<Rightarrow> confSys \<Rightarrow> regError option \<times> confSys" where
  "closeCell a s =
     (case opClose (rcState (csCells s a)) of
        (e, r) \<Rightarrow> (e, s\<lparr>csCells := (csCells s)(a := (csCells s a)\<lparr>rcState := r\<rparr>)\<rparr>))"


section \<open>Operations\<close>

definition startForwarder :: "string \<Rightarrow> nat \<Rightarrow> confSys \<Rightarrow> confSys" where
  "startForwarder name a s =
     (if name \<in> set (cfForwarders s) then s
      else if \<not> rcWatched (csCells s a) then s
      else s\<lparr>cfForwarders := name # cfForwarders s,
             cfRunning := cfRunning s @ [\<lparr>fwName = name, fwReg = a, fwPhase = FwIdle\<rparr>]\<rparr>)"

datatype confErr = EmptyName | NilRegistry string | NameTaken string

definition confRegister :: "string \<Rightarrow> nat option \<Rightarrow> confSys \<Rightarrow> confErr option \<times> confSys" where
  "confRegister name r s =
     (if name = [] then (Some EmptyName, s)
      else case r of
             None \<Rightarrow> (Some (NilRegistry name), s)
           | Some a \<Rightarrow>
               if mhas (cfByName s) name then (Some (NameTaken name), s)
               else let s1 = s\<lparr>cfByName := mput name a (cfByName s), cfOrder := cfOrder s @ [name],
                               csSeen := csSeen s @ [(name, a)],
                               csLate := (csLate s \<or> cfClose s \<noteq> CpOpen)\<rparr>
                    in (None, if cfEvents s1 \<noteq> None then startForwarder name a s1 else s1))"

definition confGet :: "confSys \<Rightarrow> string \<Rightarrow> nat option" where
  "confGet s name = mget (cfByName s) name"

definition confMustGet :: "confSys \<Rightarrow> string \<Rightarrow> confErr + nat" where
  "confMustGet s name = (case confGet s name of None \<Rightarrow> Inl (NameTaken name) | Some a \<Rightarrow> Inr a)"

definition confNames :: "confSys \<Rightarrow> string list" where
  "confNames s = cfOrder s"

definition confRemove :: "string \<Rightarrow> confSys \<Rightarrow> regError option \<times> confSys" where
  "confRemove name s =
     (case mget (cfByName s) name of
        None \<Rightarrow> (None, s)
      | Some a \<Rightarrow>
          closeCell a (s\<lparr>cfByName := mdel name (cfByName s),
                         cfForwarders := filter (\<lambda>n. n \<noteq> name) (cfForwarders s),
                         cfOrder := remove1 name (cfOrder s)\<rparr>))"

text \<open>\<open>Events\<close>: whether it returns the channel.\<close>

definition confEvents :: "confSys \<Rightarrow> bool \<times> confSys" where
  "confEvents s =
     (if cfClose s \<noteq> CpOpen then (False, s)
      else if cfEvents s \<noteq> None then (True, s)
      else (True, fold (\<lambda>name t. case mget (cfByName s) name of None \<Rightarrow> t | Some a \<Rightarrow> startForwarder name a t) (cfOrder s)
                    (s\<lparr>cfEvents := Some [], cfCap := length (cfByName s) * 4 + 1, cfForwarders := []\<rparr>)))"

text \<open>\<open>Close\<close> up to \<open>wg.Wait\<close> and from there on; \<open>closeOnce\<close> lets it run once.\<close>

definition confCloseBegin :: "confSys \<Rightarrow> confSys" where
  "confCloseBegin s = s\<lparr>cfClose := CpStopping, cfStopped := (cfStopped s \<or> cfEvents s \<noteq> None)\<rparr>"

definition closeNext :: "string \<Rightarrow> (string \<times> regError) list \<times> confSys \<Rightarrow> (string \<times> regError) list \<times> confSys" where
  "closeNext name acc =
     (case acc of (errs, s) \<Rightarrow>
        case mget (cfByName s) name of
          None \<Rightarrow> (errs, s)
        | Some a \<Rightarrow> (case closeCell a s of
                       (None, s1) \<Rightarrow> (errs, s1)
                     | (Some e, s1) \<Rightarrow> (errs @ [(name, e)], s1)))"

definition confCloseEnd :: "confSys \<Rightarrow> (string \<times> regError) list \<times> confSys" where
  "confCloseEnd s =
     (case fold closeNext (cfOrder s) ([], s\<lparr>cfChanClosed := (cfEvents s \<noteq> None)\<rparr>) of
        (errs, s1) \<Rightarrow> (errs, s1\<lparr>cfByName := [], cfOrder := [], cfClose := CpClosed\<rparr>))"


section \<open>Steps\<close>

definition setPhase :: "nat \<Rightarrow> fwPhase \<Rightarrow> confSys \<Rightarrow> confSys" where
  "setPhase i p s = s\<lparr>cfRunning := (cfRunning s)[i := (cfRunning s ! i)\<lparr>fwPhase := p\<rparr>]\<rparr>"

definition setCell :: "nat \<Rightarrow> regCell \<Rightarrow> confSys \<Rightarrow> confSys" where
  "setCell a c s = s\<lparr>csCells := (csCells s)(a := c)\<rparr>"

text \<open>
  The calls of the program, the work of the registries (\<open>work\<close>, \<open>emit\<close>, \<open>closed\<close>) and the goroutines. A forwarder
  that waits in \<open>select\<close> may take any branch that is ready; a send on the closed channel panics.
\<close>

inductive confStep :: "confSys \<Rightarrow> confSys \<Rightarrow> bool" where
  register: "confStep s (snd (confRegister name r s))"
| remove: "confStep s (snd (confRemove name s))"
| events: "confStep s (snd (confEvents s))"
| closeBegin: "cfClose s = CpOpen \<Longrightarrow> confStep s (confCloseBegin s)"
| closeEnd: "cfClose s = CpStopping \<Longrightarrow> \<forall>f \<in> set (cfRunning s). fwPhase f = FwGone \<Longrightarrow> confStep s (snd (confCloseEnd s))"
| work: "rgClosed r = cellClosed s a \<Longrightarrow> confStep s (setCell a ((csCells s a)\<lparr>rcState := r\<rparr>) s)"
| emit: "\<not> cellClosed s a \<Longrightarrow> rcWatched (csCells s a) \<Longrightarrow>
    confStep s (setCell a ((csCells s a)\<lparr>rcQueue := rcQueue (csCells s a) @ [e], rcSent := rcSent (csCells s a) @ [e]\<rparr>) s)"
| closed: "confStep s (snd (closeCell a s))"
| receive: "i < length (cfRunning s) \<Longrightarrow> f = cfRunning s ! i \<Longrightarrow> fwPhase f = FwIdle \<Longrightarrow> rcQueue (csCells s (fwReg f)) = e # q \<Longrightarrow>
    confStep s (setPhase i (FwHolding e) (setCell (fwReg f) ((csCells s (fwReg f))\<lparr>rcQueue := q\<rparr>) s))"
| ended: "i < length (cfRunning s) \<Longrightarrow> f = cfRunning s ! i \<Longrightarrow> fwPhase f = FwIdle \<Longrightarrow> rcQueue (csCells s (fwReg f)) = [] \<Longrightarrow>
    cellClosed s (fwReg f) \<Longrightarrow> confStep s (setPhase i FwGone s)"
| stopped: "i < length (cfRunning s) \<Longrightarrow> cfStopped s \<Longrightarrow> confStep s (setPhase i FwGone s)"
| forward: "i < length (cfRunning s) \<Longrightarrow> f = cfRunning s ! i \<Longrightarrow> fwPhase f = FwHolding e \<Longrightarrow> cfEvents s = Some q \<Longrightarrow>
    \<not> cfChanClosed s \<Longrightarrow> length q < cfCap s \<Longrightarrow>
    confStep s (setPhase i FwIdle (s\<lparr>cfEvents := Some (q @ [(fwName f, e)]), csOut := csOut s @ [(fwName f, e)]\<rparr>))"
| panics: "i < length (cfRunning s) \<Longrightarrow> fwPhase (cfRunning s ! i) = FwHolding e \<Longrightarrow> cfChanClosed s \<Longrightarrow>
    confStep s (setPhase i FwGone (s\<lparr>csPanic := True\<rparr>))"
| consume: "cfEvents s = Some (x # q) \<Longrightarrow> confStep s (s\<lparr>cfEvents := Some q\<rparr>)"

inductive confReachable :: "confSys \<Rightarrow> bool" where
  start: "(\<forall>a. rcSent (cells a) = rcQueue (cells a)) \<Longrightarrow> confReachable (NewConfigs cells)"
| step: "confReachable s \<Longrightarrow> confStep s t \<Longrightarrow> confReachable t"


section \<open>The names and the registries\<close>

definition nameTableOk :: "confSys \<Rightarrow> bool" where
  "nameTableOk s = (mwf (cfByName s) \<and> distinct (cfOrder s) \<and> set (cfOrder s) = set (mkeys (cfByName s))
     \<and> (\<forall>n a. mget (cfByName s) n = Some a \<longrightarrow> (n, a) \<in> set (csSeen s))
     \<and> (\<forall>n a. (n, a) \<in> set (csSeen s) \<longrightarrow> mget (cfByName s) n = Some a \<or> cellClosed s a)
     \<and> (\<forall>f \<in> set (cfRunning s). (fwName f, fwReg f) \<in> set (csSeen s)))"

definition closeOk :: "confSys \<Rightarrow> bool" where
  "closeOk s = ((cfChanClosed s \<longrightarrow> cfClose s = CpClosed \<and> cfStopped s)
     \<and> (cfClose s \<noteq> CpOpen \<and> cfEvents s \<noteq> None \<longrightarrow> cfStopped s)
     \<and> (\<not> csLate s \<longrightarrow> \<not> csPanic s)
     \<and> (\<not> csLate s \<and> cfClose s = CpClosed \<longrightarrow> cfByName s = [] \<and> (\<forall>f \<in> set (cfRunning s). fwPhase f = FwGone)))"

definition eventsOk :: "confSys \<Rightarrow> bool" where
  "eventsOk s = ((\<forall>a e. e \<in> set (rcSent (csCells s a)) \<longrightarrow>
         e \<in> set (rcQueue (csCells s a)) \<or> (\<exists>f \<in> set (cfRunning s). fwReg f = a \<and> fwPhase f = FwHolding e)
         \<or> (\<exists>n. (n, a) \<in> set (csSeen s) \<and> (n, e) \<in> set (csOut s)) \<or> cfStopped s)
     \<and> (\<forall>a. set (rcQueue (csCells s a)) \<subseteq> set (rcSent (csCells s a)))
     \<and> (\<forall>f \<in> set (cfRunning s). \<forall>e. fwPhase f = FwHolding e \<longrightarrow> e \<in> set (rcSent (csCells s (fwReg f))))
     \<and> (\<forall>n e. (n, e) \<in> set (csOut s) \<longrightarrow> (\<exists>a. (n, a) \<in> set (csSeen s) \<and> e \<in> set (rcSent (csCells s a)))))"

definition confInv :: "confSys \<Rightarrow> bool" where
  "confInv s = (nameTableOk s \<and> closeOk s \<and> eventsOk s)"

lemmas conf_defs = confInv_def nameTableOk_def closeOk_def eventsOk_def cellClosed_def

text \<open>Steps that only close registries or change their state.\<close>

definition cellsGrow :: "(nat \<Rightarrow> regCell) \<Rightarrow> (nat \<Rightarrow> regCell) \<Rightarrow> bool" where
  "cellsGrow cs ds = (\<forall>a. rcQueue (ds a) = rcQueue (cs a) \<and> rcSent (ds a) = rcSent (cs a)
     \<and> (rgClosed (rcState (cs a)) \<longrightarrow> rgClosed (rcState (ds a))))"

lemma cellsGrow_refl [simp]: "cellsGrow cs cs"
  by (simp add: cellsGrow_def)

lemma cellsGrow_trans: "cellsGrow cs ds \<Longrightarrow> cellsGrow ds es \<Longrightarrow> cellsGrow cs es"
  by (simp add: cellsGrow_def)

lemma inv_cells: "confInv s \<Longrightarrow> cellsGrow (csCells s) cs \<Longrightarrow> confInv (s\<lparr>csCells := cs\<rparr>)"
proof -
  assume inv: "confInv s" and g: "cellsGrow (csCells s) cs"
  have eq: "rcQueue (cs a) = rcQueue (csCells s a)" "rcSent (cs a) = rcSent (csCells s a)" for a
    using g by (simp_all add: cellsGrow_def)
  have mono: "rgClosed (rcState (csCells s a)) \<Longrightarrow> rgClosed (rcState (cs a))" for a using g by (simp add: cellsGrow_def)
  have "nameTableOk s \<Longrightarrow> nameTableOk (s\<lparr>csCells := cs\<rparr>)"
    using mono unfolding nameTableOk_def cellClosed_def by simp blast
  moreover have "closeOk s \<Longrightarrow> closeOk (s\<lparr>csCells := cs\<rparr>)" by (simp add: closeOk_def)
  moreover have "eventsOk s \<Longrightarrow> eventsOk (s\<lparr>csCells := cs\<rparr>)" by (simp add: eventsOk_def eq)
  ultimately show ?thesis using inv by (simp add: confInv_def)
qed

lemma closeCell_eq:
  "\<exists>cs. snd (closeCell a s) = s\<lparr>csCells := cs\<rparr> \<and> cellsGrow (csCells s) cs \<and> rgClosed (rcState (cs a))"
  by (auto simp: closeCell_def opClose_def cellsGrow_def Let_def intro!: exI[of _ "csCells (snd (closeCell a s))"])

text \<open>Forwarders that are started.\<close>

definition started :: "confSys \<Rightarrow> confSys \<Rightarrow> bool" where
  "started s t = (\<exists>ns fs. t = s\<lparr>cfForwarders := ns, cfRunning := cfRunning s @ fs\<rparr>
     \<and> (\<forall>f \<in> set fs. fwPhase f = FwIdle \<and> mget (cfByName s) (fwName f) = Some (fwReg f)))"

lemma started_refl [simp]: "started s s"
  unfolding started_def by (rule exI[of _ "cfForwarders s"], rule exI[of _ "[]"]) simp

lemma started_trans: "started s t \<Longrightarrow> started t u \<Longrightarrow> started s u"
proof -
  assume "started s t" "started t u"
  then obtain ns fs ms gs where "t = s\<lparr>cfForwarders := ns, cfRunning := cfRunning s @ fs\<rparr>"
    "u = t\<lparr>cfForwarders := ms, cfRunning := cfRunning t @ gs\<rparr>"
    "\<forall>f \<in> set fs. fwPhase f = FwIdle \<and> mget (cfByName s) (fwName f) = Some (fwReg f)"
    "\<forall>f \<in> set gs. fwPhase f = FwIdle \<and> mget (cfByName t) (fwName f) = Some (fwReg f)"
    by (auto simp: started_def)
  then show ?thesis unfolding started_def
    by (intro exI[of _ ms] exI[of _ "fs @ gs"]) auto
qed

lemma startForwarder_started: "mget (cfByName s) name = Some a \<Longrightarrow> started s (startForwarder name a s)"
proof (cases "name \<in> set (cfForwarders s) \<or> \<not> rcWatched (csCells s a)")
  case True
  then show ?thesis by (auto simp: startForwarder_def)
next
  case False
  assume "mget (cfByName s) name = Some a"
  with False show ?thesis unfolding started_def
    by (intro exI[of _ "name # cfForwarders s"] exI[of _ "[\<lparr>fwName = name, fwReg = a, fwPhase = FwIdle\<rparr>]"])
      (simp add: startForwarder_def)
qed

lemma startAll_started:
  "started s (fold (\<lambda>name t. case mget (cfByName s) name of None \<Rightarrow> t | Some a \<Rightarrow> startForwarder name a t) names s)"
proof -
  have "started s t \<Longrightarrow>
      started s (fold (\<lambda>name t. case mget (cfByName s) name of None \<Rightarrow> t | Some a \<Rightarrow> startForwarder name a t) names t)" for t
  proof (induction names arbitrary: t)
    case (Cons n names)
    have "cfByName t = cfByName s" using Cons(2) by (auto simp: started_def)
    then have "started s (case mget (cfByName s) n of None \<Rightarrow> t | Some a \<Rightarrow> startForwarder n a t)"
      using Cons(2) startForwarder_started[of t n] started_trans by (auto split: option.split)
    then show ?case using Cons(1) by simp
  qed simp
  then show ?thesis by simp
qed

lemma inv_started:
  assumes "started s t" and "confInv s" and "csLate s \<or> cfClose s \<noteq> CpClosed"
  shows "confInv t"
proof -
  obtain ns fs where t: "t = s\<lparr>cfForwarders := ns, cfRunning := cfRunning s @ fs\<rparr>"
    and fs: "\<forall>f \<in> set fs. fwPhase f = FwIdle \<and> mget (cfByName s) (fwName f) = Some (fwReg f)"
    using assms(1) by (auto simp: started_def)
  have "nameTableOk t" using assms(2) fs by (auto simp: t confInv_def nameTableOk_def cellClosed_def)
  moreover have "closeOk t" using assms(2,3) by (auto simp: t confInv_def closeOk_def)
  moreover have "eventsOk t"
  proof -
    have idle: "fwPhase f \<noteq> FwHolding e" if "f \<in> set fs" for f e using fs that by auto
    show ?thesis using assms(2) idle unfolding t confInv_def eventsOk_def by simp blast
  qed
  ultimately show ?thesis by (simp add: confInv_def)
qed


section \<open>Every step keeps the invariant\<close>

lemma inv_register: "confInv s \<Longrightarrow> confInv (snd (confRegister name r s))"
proof (cases "name = [] \<or> r = None \<or> mhas (cfByName s) name")
  case True
  assume "confInv s"
  with True show ?thesis by (auto simp: confRegister_def split: option.split)
next
  case False
  assume inv: "confInv s"
  from False obtain a where r: "r = Some a" and name: "name \<noteq> []" "\<not> mhas (cfByName s) name" by auto
  let ?t = "s\<lparr>cfByName := mput name a (cfByName s), cfOrder := cfOrder s @ [name],
             csSeen := csSeen s @ [(name, a)], csLate := (csLate s \<or> cfClose s \<noteq> CpOpen)\<rparr>"
  have absent: "name \<notin> set (mkeys (cfByName s))" "mget (cfByName s) name = None"
    using name(2) by (simp_all add: mhas_iff mget_None_iff)
  have "nameTableOk ?t"
    using inv absent unfolding confInv_def nameTableOk_def cellClosed_def by (simp add: mkeys_mput mget_mput) fastforce
  moreover have "closeOk ?t" using inv by (auto simp: confInv_def closeOk_def)
  moreover have "eventsOk ?t" using inv unfolding confInv_def eventsOk_def by simp blast
  ultimately have t: "confInv ?t" by (simp add: confInv_def)
  have "started ?t (startForwarder name a ?t)" by (rule startForwarder_started) (simp add: mget_mput)
  from inv_started[OF this t] have "confInv (startForwarder name a ?t)" by simp
  with t show ?thesis using r name by (simp add: confRegister_def Let_def)
qed

lemma inv_closeCell: "confInv s \<Longrightarrow> confInv (snd (closeCell a s))"
  using closeCell_eq[of a s] inv_cells[of s] by auto

lemma inv_remove: "confInv s \<Longrightarrow> confInv (snd (confRemove name s))"
proof (cases "mget (cfByName s) name")
  case None
  assume "confInv s"
  with None show ?thesis by (simp add: confRemove_def)
next
  case (Some a)
  assume inv: "confInv s"
  let ?t = "s\<lparr>cfByName := mdel name (cfByName s), cfForwarders := filter (\<lambda>n. n \<noteq> name) (cfForwarders s),
             cfOrder := remove1 name (cfOrder s)\<rparr>"
  obtain cs where cs: "snd (closeCell a ?t) = ?t\<lparr>csCells := cs\<rparr>" "cellsGrow (csCells ?t) cs" "rgClosed (rcState (cs a))"
    using closeCell_eq[of a ?t] by blast
  have wf: "mwf (cfByName s)" using inv by (simp add: confInv_def nameTableOk_def)
  have keys: "set (mkeys (mdel name (cfByName s))) = set (mkeys (cfByName s)) - {name}"
  proof -
    have "x \<in> set (mkeys m) \<longleftrightarrow> mget m x \<noteq> None" for x and m :: "nat gomap"
      using mget_None_iff[of m x] by simp
    then show ?thesis by (auto simp: mget_mdel[OF wf] split: if_splits)
  qed
  have eq: "rcQueue (cs a) = rcQueue (csCells s a)" "rcSent (cs a) = rcSent (csCells s a)" for a
    using cs(2) by (simp_all add: cellsGrow_def)
  have mono: "cellClosed s b \<Longrightarrow> rgClosed (rcState (cs b))" for b using cs(2) by (simp add: cellsGrow_def cellClosed_def)
  have seen: "n \<noteq> name \<and> mget (cfByName s) n = Some b \<or> rgClosed (rcState (cs b))" if "(n, b) \<in> set (csSeen s)" for n b
  proof -
    have "mget (cfByName s) n = Some b \<or> cellClosed s b" using inv that by (auto simp: confInv_def nameTableOk_def)
    then show ?thesis using Some cs(3) mono by auto
  qed
  have "nameTableOk (?t\<lparr>csCells := cs\<rparr>)"
    using inv Some wf seen by (auto simp: confInv_def nameTableOk_def cellClosed_def[of "?t\<lparr>csCells := cs\<rparr>"] keys mget_mdel)
  moreover have "closeOk (?t\<lparr>csCells := cs\<rparr>)" using inv Some by (auto simp: confInv_def closeOk_def)
  moreover have "eventsOk (?t\<lparr>csCells := cs\<rparr>)" using inv by (simp add: confInv_def eventsOk_def eq)
  ultimately show ?thesis using Some cs(1) by (simp add: confRemove_def confInv_def)
qed

lemma inv_events: "confInv s \<Longrightarrow> confInv (snd (confEvents s))"
proof (cases "cfClose s = CpOpen \<and> cfEvents s = None")
  case True
  assume inv: "confInv s"
  let ?t = "s\<lparr>cfEvents := Some [], cfCap := length (cfByName s) * 4 + 1, cfForwarders := []\<rparr>"
  have "confInv ?t" using inv True by (simp add: confInv_def nameTableOk_def closeOk_def eventsOk_def cellClosed_def)
  from inv_started[OF startAll_started this, of "cfOrder s"] True show ?thesis by (simp add: confEvents_def)
next
  case False
  assume "confInv s"
  with False show ?thesis by (auto simp: confEvents_def)
qed

lemma inv_closeBegin: "confInv s \<Longrightarrow> cfClose s = CpOpen \<Longrightarrow> confInv (confCloseBegin s)"
  by (auto simp: confInv_def nameTableOk_def closeOk_def eventsOk_def cellClosed_def confCloseBegin_def)

text \<open>The loop of \<open>Close\<close>.\<close>

lemma closeNext_step:
  "\<exists>cs. snd (closeNext name (errs, s)) = s\<lparr>csCells := cs\<rparr> \<and> cellsGrow (csCells s) cs
     \<and> (\<forall>a. mget (cfByName s) name = Some a \<longrightarrow> rgClosed (rcState (cs a)))"
proof (cases "mget (cfByName s) name")
  case None
  then show ?thesis by (auto simp: closeNext_def intro!: exI[of _ "csCells s"])
next
  case (Some a)
  then have "snd (closeNext name (errs, s)) = snd (closeCell a s)"
    by (simp add: closeNext_def split: prod.split option.split)
  then show ?thesis using closeCell_eq[of a s] Some by auto
qed

lemma closeAll:
  "\<exists>cs. snd (fold closeNext names (errs, s)) = s\<lparr>csCells := cs\<rparr> \<and> cellsGrow (csCells s) cs
     \<and> (\<forall>n \<in> set names. \<forall>a. mget (cfByName s) n = Some a \<longrightarrow> rgClosed (rcState (cs a)))"
proof (induction names arbitrary: errs s)
  case Nil
  then show ?case by (auto intro!: exI[of _ "csCells s"])
next
  case (Cons name names)
  obtain errs1 s1 where one: "closeNext name (errs, s) = (errs1, s1)" by force
  with closeNext_step[of name errs s] obtain cs where cs: "s1 = s\<lparr>csCells := cs\<rparr>" "cellsGrow (csCells s) cs"
    "\<forall>a. mget (cfByName s) name = Some a \<longrightarrow> rgClosed (rcState (cs a))" by auto
  from Cons[of errs1 s1] obtain ds where "snd (fold closeNext names (errs1, s1)) = s1\<lparr>csCells := ds\<rparr>"
    "cellsGrow (csCells s1) ds"
    "\<forall>n \<in> set names. \<forall>a. mget (cfByName s1) n = Some a \<longrightarrow> rgClosed (rcState (ds a))" by blast
  with one cs show ?case
    by (intro exI[of _ ds]) (auto simp: cellsGrow_def)
qed

lemma inv_closeEnd:
  assumes inv: "confInv s" and stopping: "cfClose s = CpStopping" and gone: "\<forall>f \<in> set (cfRunning s). fwPhase f = FwGone"
  shows "confInv (snd (confCloseEnd s))"
proof -
  let ?s = "s\<lparr>cfChanClosed := (cfEvents s \<noteq> None)\<rparr>"
  obtain cs where cs: "snd (fold closeNext (cfOrder s) ([], ?s)) = ?s\<lparr>csCells := cs\<rparr>" "cellsGrow (csCells ?s) cs"
    "\<forall>n \<in> set (cfOrder s). \<forall>a. mget (cfByName ?s) n = Some a \<longrightarrow> rgClosed (rcState (cs a))"
    using closeAll[of "cfOrder s" "[]" ?s] by blast
  let ?t = "?s\<lparr>csCells := cs, cfByName := [], cfOrder := [], cfClose := CpClosed\<rparr>"
  have t: "snd (confCloseEnd s) = ?t" using cs(1)
    by (cases "fold closeNext (cfOrder s) ([], ?s)") (simp add: confCloseEnd_def)
  have eq: "rcQueue (cs a) = rcQueue (csCells s a)" "rcSent (cs a) = rcSent (csCells s a)" for a
    using cs(2) by (simp_all add: cellsGrow_def)
  have closed: "rgClosed (rcState (cs a))" if "(n, a) \<in> set (csSeen s)" for n a
  proof -
    have "mget (cfByName s) n = Some a \<or> cellClosed s a" using inv that by (auto simp: confInv_def nameTableOk_def)
    then show ?thesis
    proof
      assume m: "mget (cfByName s) n = Some a"
      then have "n \<in> set (cfOrder s)" using inv mget_None_iff[of "cfByName s" n] by (simp add: confInv_def nameTableOk_def)
      with m cs(3) show ?thesis by simp
    next
      assume "cellClosed s a"
      then show ?thesis using cs(2) by (simp add: cellsGrow_def cellClosed_def)
    qed
  qed
  have "nameTableOk ?t" using inv closed by (simp add: confInv_def nameTableOk_def cellClosed_def)
  moreover have "closeOk ?t" using inv stopping gone by (auto simp: confInv_def closeOk_def)
  moreover have "eventsOk ?t" using inv by (simp add: confInv_def eventsOk_def eq)
  ultimately show ?thesis unfolding t by (simp add: confInv_def)
qed

lemma inv_work: "confInv s \<Longrightarrow> rgClosed r = cellClosed s a \<Longrightarrow> confInv (setCell a ((csCells s a)\<lparr>rcState := r\<rparr>) s)"
  unfolding setCell_def by (rule inv_cells) (auto simp: cellsGrow_def cellClosed_def)

lemma inv_emit:
  assumes "confInv s"
  shows "confInv (setCell a ((csCells s a)\<lparr>rcQueue := rcQueue (csCells s a) @ [e], rcSent := rcSent (csCells s a) @ [e]\<rparr>) s)"
    (is "confInv ?t")
proof -
  have "nameTableOk ?t" using assms by (simp add: confInv_def nameTableOk_def setCell_def cellClosed_def)
  moreover have "closeOk ?t" using assms by (simp add: confInv_def closeOk_def setCell_def)
  moreover have "eventsOk ?t"
  proof -
    have sets: "d \<in> set (rcSent (csCells ?t b)) \<longleftrightarrow> d \<in> set (rcSent (csCells s b)) \<or> b = a \<and> d = e"
      "d \<in> set (rcQueue (csCells ?t b)) \<longleftrightarrow> d \<in> set (rcQueue (csCells s b)) \<or> b = a \<and> d = e" for b d
      by (auto simp: setCell_def)
    have rest: "cfRunning ?t = cfRunning s" "csSeen ?t = csSeen s" "csOut ?t = csOut s" "cfStopped ?t = cfStopped s"
      by (simp_all add: setCell_def)
    show ?thesis using assms unfolding confInv_def eventsOk_def subset_iff sets rest by blast
  qed
  ultimately show ?thesis by (simp add: confInv_def)
qed

text \<open>A forwarder that moves: only its own phase changes.\<close>

lemma running_kept: "i < length fs \<Longrightarrow> f \<in> set fs \<Longrightarrow> f \<noteq> fs ! i \<Longrightarrow> f \<in> set (fs[i := x])"
  by (metis in_set_conv_nth length_list_update nth_list_update_neq)

lemma running_new: "i < length fs \<Longrightarrow> x \<in> set (fs[i := x])"
  by (simp add: set_update_memI)

lemma nameTableOk_phase: "nameTableOk s \<Longrightarrow> i < length (cfRunning s) \<Longrightarrow> nameTableOk (setPhase i p s)"
  unfolding nameTableOk_def setPhase_def cellClosed_def
  by (auto dest!: set_update_subset_insert[THEN subsetD])

lemma closeOk_phase:
  "closeOk s \<Longrightarrow> i < length (cfRunning s) \<Longrightarrow> p = FwGone \<or> fwPhase (cfRunning s ! i) \<noteq> FwGone \<Longrightarrow> closeOk (setPhase i p s)"
  unfolding closeOk_def setPhase_def
  by (auto dest!: set_update_subset_insert[THEN subsetD])

lemma inv_receive:
  assumes inv: "confInv s" and i: "i < length (cfRunning s)" and f: "f = cfRunning s ! i" "fwPhase f = FwIdle"
    and q: "rcQueue (csCells s (fwReg f)) = e # q"
  shows "confInv (setPhase i (FwHolding e) (setCell (fwReg f) ((csCells s (fwReg f))\<lparr>rcQueue := q\<rparr>) s))"
    (is "confInv (setPhase i _ ?t)")
proof -
  let ?f = "f\<lparr>fwPhase := FwHolding e\<rparr>"
  let ?u = "setPhase i (FwHolding e) ?t"
  have running: "cfRunning ?u = (cfRunning s)[i := ?f]" using f(1) by (simp add: setPhase_def setCell_def)
  have sent: "rcSent (csCells ?u a) = rcSent (csCells s a)" for a by (simp add: setPhase_def setCell_def)
  have queue: "rcQueue (csCells ?u a) = (if a = fwReg f then q else rcQueue (csCells s a))" for a
    by (simp add: setPhase_def setCell_def)
  have rest: "csSeen ?u = csSeen s" "csOut ?u = csOut s" "cfStopped ?u = cfStopped s" by (simp_all add: setPhase_def setCell_def)
  have "nameTableOk ?t" "closeOk ?t" using inv by (simp_all add: confInv_def nameTableOk_def closeOk_def setCell_def cellClosed_def)
  then have "nameTableOk ?u" "closeOk ?u"
    using nameTableOk_phase[of ?t i] closeOk_phase[of ?t i] i f by (simp_all add: setCell_def)
  moreover have "eventsOk ?u"
  proof -
    have new: "?f \<in> set ((cfRunning s)[i := ?f])" by (rule running_new[OF i])
    have keep: "g \<in> set ((cfRunning s)[i := ?f])" if "g \<in> set (cfRunning s)" "fwPhase g = FwHolding d" for g d
    proof -
      have "g \<noteq> cfRunning s ! i" using that(2) f by auto
      then show ?thesis by (rule running_kept[OF i that(1)])
    qed
    have old: "g = ?f \<or> g \<in> set (cfRunning s)" if "g \<in> set ((cfRunning s)[i := ?f])" for g
      using set_update_subset_insert[of "cfRunning s" i ?f] that by auto
    have e: "e \<in> set (rcSent (csCells s (fwReg f)))" "set q \<subseteq> set (rcSent (csCells s (fwReg f)))"
    proof -
      have "set (rcQueue (csCells s (fwReg f))) \<subseteq> set (rcSent (csCells s (fwReg f)))"
        using inv by (simp add: confInv_def eventsOk_def)
      then show "e \<in> set (rcSent (csCells s (fwReg f)))" "set q \<subseteq> set (rcSent (csCells s (fwReg f)))" using q by auto
    qed
    have here: "d \<in> set (rcQueue (csCells s a)) \<Longrightarrow> d \<in> set (rcQueue (csCells ?u a)) \<or> (a = fwReg ?f \<and> fwPhase ?f = FwHolding d)" for a d
      using q by (auto simp: queue)
    show ?thesis unfolding eventsOk_def running sent rest
    proof (intro conjI allI impI ballI)
      fix a d assume "d \<in> set (rcSent (csCells s a))"
      then consider "d \<in> set (rcQueue (csCells s a))"
        | g where "g \<in> set (cfRunning s)" "fwReg g = a" "fwPhase g = FwHolding d"
        | n where "(n, a) \<in> set (csSeen s)" "(n, d) \<in> set (csOut s)" | "cfStopped s"
        using inv unfolding confInv_def eventsOk_def by blast
      then show "d \<in> set (rcQueue (csCells ?u a))
          \<or> (\<exists>f \<in> set ((cfRunning s)[i := ?f]). fwReg f = a \<and> fwPhase f = FwHolding d)
          \<or> (\<exists>n. (n, a) \<in> set (csSeen s) \<and> (n, d) \<in> set (csOut s)) \<or> cfStopped s"
        using here new keep by cases blast+
    next
      fix g d assume "g \<in> set ((cfRunning s)[i := ?f])" "fwPhase g = FwHolding d"
      then show "d \<in> set (rcSent (csCells s (fwReg g)))" using old e inv by (fastforce simp: confInv_def eventsOk_def)
    qed (use inv e in \<open>auto simp: confInv_def eventsOk_def queue split: if_splits\<close>)
  qed
  ultimately show ?thesis by (simp add: confInv_def)
qed

text \<open>A forwarder that no longer holds an event: what it held is on the channel, or the stream is stopped.\<close>

lemma eventsOk_release:
  assumes ev: "eventsOk s" and i: "i < length (cfRunning s)" and p: "\<forall>d. p \<noteq> FwHolding d"
    and safe: "\<forall>d. fwPhase (cfRunning s ! i) = FwHolding d \<longrightarrow>
      cfStopped s \<or> (\<exists>n. (n, fwReg (cfRunning s ! i)) \<in> set (csSeen s) \<and> (n, d) \<in> set (csOut s))"
  shows "eventsOk (setPhase i p s)"
proof -
  let ?f = "(cfRunning s ! i)\<lparr>fwPhase := p\<rparr>"
  have old: "g = ?f \<or> g \<in> set (cfRunning s)" if "g \<in> set ((cfRunning s)[i := ?f])" for g
    using set_update_subset_insert[of "cfRunning s" i ?f] that by auto
  have fields: "cfRunning (setPhase i p s) = (cfRunning s)[i := ?f]" "csCells (setPhase i p s) = csCells s"
    "csSeen (setPhase i p s) = csSeen s" "csOut (setPhase i p s) = csOut s" "cfStopped (setPhase i p s) = cfStopped s"
    by (simp_all add: setPhase_def)
  show ?thesis unfolding eventsOk_def fields
  proof (intro conjI allI impI ballI)
    fix a d assume "d \<in> set (rcSent (csCells s a))"
    then consider "d \<in> set (rcQueue (csCells s a))"
      | g where "g \<in> set (cfRunning s)" "fwReg g = a" "fwPhase g = FwHolding d"
      | n where "(n, a) \<in> set (csSeen s)" "(n, d) \<in> set (csOut s)" | "cfStopped s"
      using ev unfolding eventsOk_def by blast
    then show "d \<in> set (rcQueue (csCells s a))
        \<or> (\<exists>f \<in> set ((cfRunning s)[i := ?f]). fwReg f = a \<and> fwPhase f = FwHolding d)
        \<or> (\<exists>n. (n, a) \<in> set (csSeen s) \<and> (n, d) \<in> set (csOut s)) \<or> cfStopped s"
    proof cases
      case (2 g)
      then show ?thesis using safe running_kept[OF i, of g ?f] by (cases "g = cfRunning s ! i") auto
    qed blast+
  next
    fix g d assume "g \<in> set ((cfRunning s)[i := ?f])" "fwPhase g = FwHolding d"
    then show "d \<in> set (rcSent (csCells s (fwReg g)))" using old p ev by (fastforce simp: eventsOk_def)
  qed (use ev in \<open>auto simp: eventsOk_def\<close>)
qed

lemma inv_gone:
  "confInv s \<Longrightarrow> i < length (cfRunning s) \<Longrightarrow> fwPhase (cfRunning s ! i) = FwIdle \<or> cfStopped s \<Longrightarrow> confInv (setPhase i FwGone s)"
  using nameTableOk_phase[of s i FwGone] closeOk_phase[of s i FwGone] eventsOk_release[of s i FwGone] by (auto simp: confInv_def)

lemma inv_forward:
  assumes inv: "confInv s" and i: "i < length (cfRunning s)" and f: "f = cfRunning s ! i" "fwPhase f = FwHolding e"
    and open_chan: "cfEvents s = Some q" "\<not> cfChanClosed s"
  shows "confInv (setPhase i FwIdle (s\<lparr>cfEvents := Some (q @ [(fwName f, e)]), csOut := csOut s @ [(fwName f, e)]\<rparr>))"
    (is "confInv (setPhase i FwIdle ?t)")
proof -
  have mem: "f \<in> set (cfRunning s)" using f i by simp
  then have seen: "(fwName f, fwReg f) \<in> set (csSeen s)" and sent: "e \<in> set (rcSent (csCells s (fwReg f)))"
    using inv f(2) by (auto simp: confInv_def nameTableOk_def eventsOk_def)
  have "nameTableOk ?t" using inv by (simp add: confInv_def nameTableOk_def cellClosed_def)
  moreover have "closeOk ?t" using inv open_chan by (simp add: confInv_def closeOk_def)
  moreover have "eventsOk ?t" using inv seen sent unfolding confInv_def eventsOk_def by simp blast
  ultimately show ?thesis
    using nameTableOk_phase[of ?t i FwIdle] closeOk_phase[of ?t i FwIdle] eventsOk_release[of ?t i FwIdle] i f seen
    by (auto simp: confInv_def)
qed

lemma inv_panics:
  assumes inv: "confInv s" and i: "i < length (cfRunning s)" and f: "fwPhase (cfRunning s ! i) = FwHolding e"
    and chan: "cfChanClosed s"
  shows "confInv (setPhase i FwGone (s\<lparr>csPanic := True\<rparr>))"
proof -
  let ?t = "s\<lparr>csPanic := True\<rparr>"
  have "csLate s"
  proof (rule ccontr)
    assume "\<not> csLate s"
    then have "fwPhase (cfRunning s ! i) = FwGone" using inv chan i by (auto simp: confInv_def closeOk_def)
    with f show False by simp
  qed
  then have "closeOk ?t" using inv by (simp add: confInv_def closeOk_def)
  moreover have "nameTableOk ?t" "eventsOk ?t" using inv by (simp_all add: confInv_def nameTableOk_def eventsOk_def cellClosed_def)
  moreover have "cfStopped s" using inv chan by (simp add: confInv_def closeOk_def)
  ultimately show ?thesis using inv_gone[of ?t i] i by (simp add: confInv_def)
qed

lemma inv_step: "confStep s t \<Longrightarrow> confInv s \<Longrightarrow> confInv t"
proof (induction rule: confStep.induct)
  case (consume s x q)
  then show ?case by (simp add: confInv_def nameTableOk_def closeOk_def eventsOk_def cellClosed_def)
qed (auto intro: inv_register inv_remove inv_events inv_closeBegin inv_closeEnd inv_work inv_emit inv_closeCell
      inv_receive inv_gone inv_forward inv_panics)

lemma inv_reachable: "confReachable s \<Longrightarrow> confInv s"
proof (induction rule: confReachable.induct)
  case (start cells)
  then show ?case by (simp add: NewConfigs_def confInv_def nameTableOk_def closeOk_def eventsOk_def)
next
  case (step s t)
  then show ?case using inv_step by blast
qed

text \<open>
  C13: A \<open>Configs\<close> through any calls, by several goroutines, and any work of its registries. \<open>Names\<close> lists each
  name once and exactly those \<open>Get\<close> knows; a registry that was ever registered is still found under its name
  or has been closed; and when \<open>Close\<close> has returned and nothing was registered after it began, no name is left,
  every registry ever registered is closed, and no forwarder has sent on the closed channel.
\<close>
theorem configs_close_reaches_all:
  assumes "confReachable s"
  shows "distinct (confNames s) \<and> (\<forall>n. n \<in> set (confNames s) \<longleftrightarrow> confGet s n \<noteq> None)
    \<and> (\<forall>n a. (n, a) \<in> set (csSeen s) \<longrightarrow> confGet s n = Some a \<or> cellClosed s a)
    \<and> (\<not> csLate s \<longrightarrow> \<not> csPanic s
        \<and> (cfClose s = CpClosed \<longrightarrow> confNames s = [] \<and> (\<forall>n a. (n, a) \<in> set (csSeen s) \<longrightarrow> cellClosed s a)))"
proof -
  have inv: "nameTableOk s" "closeOk s" using inv_reachable[OF assms] by (simp_all add: confInv_def)
  have keys: "n \<in> set (confNames s) \<longleftrightarrow> confGet s n \<noteq> None" for n
    using inv(1) mget_None_iff[of "cfByName s" n] by (simp add: confNames_def confGet_def nameTableOk_def)
  have "distinct (confNames s)" and seen: "\<forall>n a. (n, a) \<in> set (csSeen s) \<longrightarrow> confGet s n = Some a \<or> cellClosed s a"
    using inv(1) by (simp_all add: confNames_def confGet_def nameTableOk_def)
  moreover have "\<not> csPanic s \<and> (cfClose s = CpClosed \<longrightarrow> confNames s = [] \<and> (\<forall>n a. (n, a) \<in> set (csSeen s) \<longrightarrow> cellClosed s a))"
    if late: "\<not> csLate s"
  proof -
    have empty: "cfByName s = []" if "cfClose s = CpClosed" using inv(2) late that by (simp add: closeOk_def)
    have "confNames s = []" if "cfByName s = []" using inv(1) that by (simp add: nameTableOk_def confNames_def mkeys_def)
    then show ?thesis using inv(2) late empty seen by (auto simp: closeOk_def confGet_def)
  qed
  ultimately show ?thesis using keys by blast
qed

text \<open>
  C14: The stream of \<open>Events\<close>. Until it is stopped no event gets lost on the way: what a registry has sent is in
  its channel still, in the hands of a forwarder of that registry, or was sent on the common channel under a
  name the registry was registered with; and everything on the common channel was sent by a registry that was
  registered under that name.
\<close>
theorem configs_events_complete:
  assumes "confReachable s"
  shows "(\<forall>a e. e \<in> set (rcSent (csCells s a)) \<and> \<not> cfStopped s \<longrightarrow>
        e \<in> set (rcQueue (csCells s a)) \<or> (\<exists>f \<in> set (cfRunning s). fwReg f = a \<and> fwPhase f = FwHolding e)
        \<or> (\<exists>n. (n, a) \<in> set (csSeen s) \<and> (n, e) \<in> set (csOut s)))
    \<and> (\<forall>n e. (n, e) \<in> set (csOut s) \<longrightarrow> (\<exists>a. (n, a) \<in> set (csSeen s) \<and> e \<in> set (rcSent (csCells s a))))"
  using inv_reachable[OF assms] unfolding confInv_def eventsOk_def by blast

text \<open>Runs with one registry: an event goes through, and everything is closed.\<close>

definition oneCell :: "registry \<Rightarrow> nat \<Rightarrow> regCell" where
  "oneCell r a = \<lparr>rcState = r, rcWatched = True, rcQueue = [], rcSent = []\<rparr>"

definition oneRegistered :: "registry \<Rightarrow> confSys" where
  "oneRegistered r = snd (confEvents (snd (confRegister ''a'' (Some 0) (NewConfigs (oneCell r)))))"

definition oneEvent :: event where
  "oneEvent = \<lparr>evSource = ''file'', evChanged = [], evErr = None, evWarnings = []\<rparr>"

definition oneSent :: confSys where
  "oneSent = setCell 0 ((csCells (oneRegistered demoRegistry) 0)\<lparr>rcQueue := [oneEvent], rcSent := [oneEvent]\<rparr>) (oneRegistered demoRegistry)"

definition oneForwarded :: confSys where
  "oneForwarded = setPhase 0 FwIdle ((setPhase 0 (FwHolding oneEvent) (setCell 0 ((csCells oneSent 0)\<lparr>rcQueue := []\<rparr>) oneSent))
     \<lparr>cfEvents := Some ([] @ [(''a'', oneEvent)]), csOut := csOut oneSent @ [(''a'', oneEvent)]\<rparr>)"

definition oneClosed :: confSys where
  "oneClosed = snd (confCloseEnd (confCloseBegin (snd (confRegister ''a'' (Some 0) (NewConfigs (oneCell demoRegistry))))))"

lemma confReachable_trans: "confReachable s \<Longrightarrow> confStep s t \<Longrightarrow> t = u \<Longrightarrow> confReachable u"
  using confReachable.step by blast

lemma oneRegistered_reachable: "confReachable (oneRegistered r)"
  unfolding oneRegistered_def
  by (rule confReachable.step[OF confReachable.step[OF confReachable.start confStep.register] confStep.events])
    (simp add: oneCell_def)

lemma oneRegistered_fields:
  "cfRunning (oneRegistered r) = [\<lparr>fwName = ''a'', fwReg = 0, fwPhase = FwIdle\<rparr>]"
  "csCells (oneRegistered r) = oneCell r" "cfEvents (oneRegistered r) = Some []" "cfCap (oneRegistered r) = 5"
  "\<not> cfChanClosed (oneRegistered r)" "csOut (oneRegistered r) = []"
  by (simp_all add: oneRegistered_def confRegister_def confEvents_def NewConfigs_def mhas_def startForwarder_def oneCell_def)

lemma oneForwarded_reachable: "confReachable oneForwarded"
proof -
  have sent: "confReachable oneSent" unfolding oneSent_def
    by (rule confReachable_trans[OF oneRegistered_reachable confStep.emit[of "oneRegistered demoRegistry" 0 oneEvent]])
      (simp_all add: oneRegistered_fields cellClosed_def oneCell_def demoRegistry_facts)
  have run: "cfRunning oneSent = [\<lparr>fwName = ''a'', fwReg = 0, fwPhase = FwIdle\<rparr>]" "rcQueue (csCells oneSent 0) = [oneEvent]"
    "cfEvents oneSent = Some []" "cfCap oneSent = 5" "\<not> cfChanClosed oneSent"
    by (simp_all add: oneSent_def setCell_def oneRegistered_fields)
  have "confReachable (setPhase 0 (FwHolding oneEvent) (setCell 0 ((csCells oneSent 0)\<lparr>rcQueue := []\<rparr>) oneSent))"
    by (rule confReachable_trans[OF sent confStep.receive[of 0 oneSent "cfRunning oneSent ! 0" oneEvent "[]"]])
      (simp_all add: run)
  then show ?thesis unfolding oneForwarded_def
    by (rule confReachable_trans[OF _ confStep.forward[OF _ refl, of 0 _ oneEvent "[]"]])
      (simp_all add: run setPhase_def setCell_def)
qed

lemma oneClosed_reachable: "confReachable oneClosed"
proof -
  have "confReachable (snd (confRegister ''a'' (Some 0) (NewConfigs (oneCell demoRegistry))))"
    by (rule confReachable.step[OF confReachable.start confStep.register]) (simp add: oneCell_def)
  then have "confReachable (confCloseBegin (snd (confRegister ''a'' (Some 0) (NewConfigs (oneCell demoRegistry)))))"
    by (rule confReachable.step[OF _ confStep.closeBegin]) (simp add: confRegister_def NewConfigs_def mhas_def)
  then show ?thesis unfolding oneClosed_def
    by (rule confReachable.step[OF _ confStep.closeEnd]) (simp_all add: confCloseBegin_def confRegister_def NewConfigs_def mhas_def)
qed

lemma oneClosed_fields: "\<not> csLate oneClosed" "cfClose oneClosed = CpClosed" "(''a'', 0) \<in> set (csSeen oneClosed)"
proof -
  obtain cs where "snd (fold closeNext [''a''] ([], (confCloseBegin (snd (confRegister ''a'' (Some 0) (NewConfigs (oneCell demoRegistry)))))\<lparr>cfChanClosed := False\<rparr>))
    = ((confCloseBegin (snd (confRegister ''a'' (Some 0) (NewConfigs (oneCell demoRegistry)))))\<lparr>cfChanClosed := False\<rparr>)\<lparr>csCells := cs\<rparr>"
    using closeAll by blast
  then show "\<not> csLate oneClosed" "cfClose oneClosed = CpClosed" "(''a'', 0) \<in> set (csSeen oneClosed)"
    by (auto simp: oneClosed_def confCloseEnd_def confCloseBegin_def confRegister_def NewConfigs_def mhas_def split: prod.split)
qed

theorem configs_close_reaches_all_witness: "confNames oneClosed = [] \<and> cellClosed oneClosed 0"
  using configs_close_reaches_all[OF oneClosed_reachable] oneClosed_fields by blast

theorem configs_events_complete_witness:
  "\<exists>a. (''a'', a) \<in> set (csSeen oneForwarded) \<and> oneEvent \<in> set (rcSent (csCells oneForwarded a))"
proof -
  have "(''a'', oneEvent) \<in> set (csOut oneForwarded)" by (simp add: oneForwarded_def setPhase_def setCell_def)
  then show ?thesis using configs_events_complete[OF oneForwarded_reachable] by blast
qed

text \<open>\<open>Close\<close> never goes back.\<close>

lemma started_close: "started s t \<Longrightarrow> cfClose t = cfClose s"
  by (auto simp: started_def)

lemma closeCell_close [simp]: "cfClose (snd (closeCell a s)) = cfClose s"
  using closeCell_eq[of a s] by auto

lemma close_phase_monotone: "confStep s t \<Longrightarrow> cfClose s \<le> cfClose t"
proof (induction rule: confStep.induct)
  case (register s name r)
  show ?case by (auto simp: confRegister_def Let_def startForwarder_def split: option.split)
next
  case (remove s name)
  show ?case by (simp add: confRemove_def split: option.split)
next
  case (events s)
  then show ?case using started_close[OF startAll_started[of "s\<lparr>cfEvents := Some [], cfCap := length (cfByName s) * 4 + 1, cfForwarders := []\<rparr>" "cfOrder s"]]
    by (simp add: confEvents_def)
next
  case (closeEnd s)
  obtain errs u where "fold closeNext (cfOrder s) ([], s\<lparr>cfChanClosed := (cfEvents s \<noteq> None)\<rparr>) = (errs, u)" by force
  then show ?case by (simp add: confCloseEnd_def less_eq_closePhase_def closeEnd)
qed (simp_all add: confCloseBegin_def less_eq_closePhase_def setCell_def setPhase_def)

text \<open>
  After \<open>Close\<close> a registration still succeeds: the registry stays open under its name, and where \<open>Events\<close> was
  called before, its forwarder can send on the closed channel.
\<close>

definition lateRegistered :: "registry \<Rightarrow> confSys" where
  "lateRegistered r =
     snd (confRegister ''a'' (Some 0) (snd (confCloseEnd (confCloseBegin (snd (confEvents (NewConfigs (oneCell r))))))))"

lemmas late_simps = lateRegistered_def confRegister_def confCloseEnd_def confCloseBegin_def confEvents_def NewConfigs_def
  mhas_def startForwarder_def oneCell_def cellClosed_def setCell_def setPhase_def confGet_def

lemma lateRegistered_reachable: "confReachable (lateRegistered r)"
proof -
  have "confReachable (NewConfigs (oneCell r))" by (rule confReachable.start) (simp add: oneCell_def)
  then have "confReachable (snd (confEvents (NewConfigs (oneCell r))))" by (rule confReachable.step[OF _ confStep.events])
  then have "confReachable (confCloseBegin (snd (confEvents (NewConfigs (oneCell r)))))"
    by (rule confReachable.step[OF _ confStep.closeBegin]) (simp add: confEvents_def NewConfigs_def)
  then have "confReachable (snd (confCloseEnd (confCloseBegin (snd (confEvents (NewConfigs (oneCell r)))))))"
    by (rule confReachable.step[OF _ confStep.closeEnd]) (simp_all add: confCloseBegin_def confEvents_def NewConfigs_def)
  then show ?thesis unfolding lateRegistered_def by (rule confReachable.step[OF _ confStep.register])
qed

lemma late_registration_stays_open:
  "\<not> rgClosed r \<Longrightarrow> cfClose (lateRegistered r) = CpClosed \<and> confGet (lateRegistered r) ''a'' = Some 0
   \<and> \<not> cellClosed (lateRegistered r) 0"
  by (simp add: late_simps)

lemma late_registration_can_panic:
  fixes r :: registry
  assumes "\<not> rgClosed r"
  shows "\<exists>s. confReachable s \<and> csPanic s"
proof -
  let ?s = "lateRegistered r"
  define t where "t e = setCell 0 ((csCells ?s 0)\<lparr>rcQueue := rcQueue (csCells ?s 0) @ [e], rcSent := rcSent (csCells ?s 0) @ [e]\<rparr>) ?s"
    for e :: event
  fix e :: event
  have "confReachable (t e)" unfolding t_def
    by (rule confReachable.step[OF lateRegistered_reachable confStep.emit]) (simp_all add: late_simps assms)
  let ?f = "\<lparr>fwName = ''a'', fwReg = 0, fwPhase = FwIdle\<rparr>"
  let ?u = "setPhase 0 (FwHolding e) (setCell (fwReg ?f) ((csCells (t e) (fwReg ?f))\<lparr>rcQueue := []\<rparr>) (t e))"
  have run: "cfRunning (t e) = [?f]" "rcQueue (csCells (t e) 0) = [e]" "cfChanClosed (t e)"
    by (simp_all add: t_def late_simps)
  have "confStep (t e) ?u" by (rule confStep.receive) (simp_all add: run)
  with \<open>confReachable (t e)\<close> have "confReachable ?u" by (rule confReachable.step)
  moreover have "confStep ?u (setPhase 0 FwGone (?u\<lparr>csPanic := True\<rparr>))"
    by (rule confStep.panics) (simp_all add: run setPhase_def setCell_def)
  ultimately have "confReachable (setPhase 0 FwGone (?u\<lparr>csPanic := True\<rparr>))" by (rule confReachable.step)
  moreover have "csPanic (setPhase 0 FwGone (s\<lparr>csPanic := True\<rparr>))" for s by (simp add: setPhase_def)
  ultimately show ?thesis by blast
qed

end
