(* ===== verification/Bundled.thy ===== *)
theory Bundled
  imports Formats FileSource CoerceProps
begin

text \<open>
  Where the codecs meet the rest: \<open>recon.go\<close> (\<open>DefaultCodecs\<close>), \<open>RawValue.Decode\<close> of \<open>value.go\<close> with
  \<open>coerceStructFromMap\<close> of \<open>coerce.go\<close>, the watcher a registry hands to its file sources (\<open>registry.go\<close>), and
  the contract of a codec that makes a file source's \<open>Reload\<close> agree with its constructor.
\<close>

section \<open>The bundled codecs\<close>

record parsers =
  paSprint :: "goany \<Rightarrow> string"
  paYAML :: yamlLib
  paTOML :: "string \<Rightarrow> tomlErr + rawval"
  paJSON :: jsonLib
  paJSONC :: jsoncLib
  paDotenv :: "string \<Rightarrow> dotenvErr + (dotenvEntry list \<times> string gomap)"

definition bundledCodecs :: "parsers \<Rightarrow> fileCodec list" where
  "bundledCodecs P =
     [YAML (paSprint P) (paYAML P), TOML (paSprint P) (paTOML P), JSONC (paJSONC P), JSON (paJSON P), Dotenv (paDotenv P)]"

definition DefaultCodecs :: "parsers \<Rightarrow> codecs" where
  "DefaultCodecs P = NewCodecs (map Some (bundledCodecs P))"

text \<open>\<open>injectWatcherLocked\<close> for a file source, the one kind of source that takes a watcher.\<close>

definition injectWatcher :: "watcherFactory option \<Rightarrow> fileSource \<Rightarrow> fileSource" where
  "injectWatcher w s =
     (case w of
        None \<Rightarrow> s
      | Some factory \<Rightarrow> if fsWatcher s \<noteq> None then s else SetWatcher (Some factory) s)"


section \<open>Raw values\<close>

text \<open>
  The fields of a struct from the entries of a map: the exported ones whose key is present. \<open>coerce\<close> converts with the
  default rules, which are those of \<open>E\<close>. The struct after an error is left out.
\<close>

fun coerceStructFromMap :: "coerceEnv \<Rightarrow> (sfield \<times> gtype) list \<Rightarrow> govalue gomap \<Rightarrow> gval list \<Rightarrow> cerr + gval list" where
  "coerceStructFromMap E ((sf, T) # fs) m (x # xs) =
     (let key = fieldKeyFromTag (sfTags sf) (sfName sf);
          filled =
            (if \<not> sfExported sf \<or> key = [] then Inr x
             else case mget m key of
                    None \<Rightarrow> Inr x
                  | Some sub \<Rightarrow> (case coerceWith E T sub noTag x of Inl e \<Rightarrow> Inl (CField (sfName sf) e) | Inr y \<Rightarrow> Inr y))
      in case filled of
           Inl e \<Rightarrow> Inl e
         | Inr y \<Rightarrow> (case coerceStructFromMap E fs m xs of Inl e \<Rightarrow> Inl e | Inr ys \<Rightarrow> Inr (y # ys)))"
| "coerceStructFromMap E fs m xs = Inr xs"

datatype rawTarget = NoTarget | MapTarget | AnyTarget | ValueTarget | StructTarget "(sfield \<times> gtype) list" "gval list" | OtherTarget

datatype rawResult = RawMap "goany gomap" | RawValue govalue | RawStruct "gval list"

datatype rawError = RawInvalid string | RawNoCodec string | RawDecode decodeErr | RawMismatch verror | RawCoerce cerr

definition DecodeWithCodecs ::
  "coerceEnv \<Rightarrow> string \<Rightarrow> string \<Rightarrow> codecs option \<Rightarrow> rawTarget \<Rightarrow> rawError + rawResult" where
  "DecodeWithCodecs E format data cs v =
     (if v = NoTarget then Inl (RawInvalid ''nil target'')
      else case lookupCodec cs format of
             None \<Rightarrow> Inl (RawNoCodec format)
           | Some c \<Rightarrow>
               (case fcDecode c data of
                  Inl e \<Rightarrow> Inl (RawDecode e)
                | Inr decoded \<Rightarrow>
                    (case v of
                       MapTarget \<Rightarrow> Inr (RawMap decoded)
                     | AnyTarget \<Rightarrow> Inr (RawMap decoded)
                     | ValueTarget \<Rightarrow> Inr (RawValue (NewValue (AAnyMap decoded)))
                     | StructTarget fs xs \<Rightarrow>
                         (case AsMap (NewValue (AAnyMap decoded)) of
                            Inl e \<Rightarrow> Inl (RawMismatch e)
                          | Inr m \<Rightarrow> (case coerceStructFromMap E fs m xs of
                                       Inl e \<Rightarrow> Inl (RawCoerce e) | Inr ys \<Rightarrow> Inr (RawStruct ys)))
                     | _ \<Rightarrow> Inl (RawInvalid ''not a supported target''))))"

definition rawDecode :: "parsers \<Rightarrow> coerceEnv \<Rightarrow> string \<Rightarrow> string \<Rightarrow> rawTarget \<Rightarrow> rawError + rawResult" where
  "rawDecode P E format data v = DecodeWithCodecs E format data (Some (DefaultCodecs P)) v"

lemma coerceStructFromMap_typed:
  "fieldsTyped fs xs \<Longrightarrow> coerceStructFromMap E fs m xs = Inr ys \<Longrightarrow> fieldsTyped fs ys"
proof (induction E fs m xs arbitrary: ys rule: coerceStructFromMap.induct)
  case (1 E sf T fs m x xs)
  then show ?case
    by (auto simp: Let_def split: if_splits option.splits sum.splits dest: coerce_typed(1))
qed auto

text \<open>A decoded struct is well typed, whatever the document holds.\<close>

lemma DecodeWithCodecs_typed:
  "fieldsTyped fs xs \<Longrightarrow> DecodeWithCodecs E format data cs (StructTarget fs xs) = Inr (RawStruct ys) \<Longrightarrow> fieldsTyped fs ys"
  by (auto simp: DecodeWithCodecs_def split: option.splits sum.splits dest: coerceStructFromMap_typed)


section \<open>Reloading an unchanged file\<close>

text \<open>
  What a file source needs of its codec: an empty document is the empty map, since the constructor does not
  ask the codec for it and \<open>Reload\<close> does.
\<close>

locale empty_document =
  fixes decode :: "string \<Rightarrow> decodeErr + goany gomap"
  assumes decode_empty: "decode [] = Inr []"
begin

lemma reload_unchanged:
  assumes new: "newFileSource cs parseErr fe p opts = Inr s" and codec: "fcDecode (fsCodec s) = decode"
  shows "fst (fileReload (feOpen fe (fsResolved s)) s) = None
    \<and> Document (snd (fileReload (feOpen fe (fsResolved s)) s)) = Document s
    \<and> msData (fsMap (snd (fileReload (feOpen fe (fsResolved s)) s))) = msData (fsMap s)"
  using new codec decode_empty
  by (auto simp: newFileSource_def fileReload_def Document_def newFileMapSource_def replaceOwned_def mapReplace_def Let_def
      split: sum.splits prod.splits if_splits)

end

lemma json_empty: "jsonDecode L [] = Inr []"
  by (simp add: jsonDecode_def stripBOM_def trimPrefix_def utf8BOM_def isJSONSpace_def)

interpretation json_codec: empty_document "jsonDecode L"
  by unfold_locales (rule json_empty)

interpretation jsonc_codec: empty_document "jsoncDecode J"
  by unfold_locales (simp add: jsoncDecode_def)

interpretation yaml_codec: empty_document "yamlDecode sprint Y"
  by unfold_locales (simp add: yamlDecode_def)

interpretation toml_codec: empty_document "tomlDecode sprint unmarshal"
  by unfold_locales (simp add: tomlDecode_def)

interpretation dotenv_codec: empty_document "dotenvDecode parse"
  by unfold_locales (simp add: dotenvDecode_def)

text \<open>
  A file source with a bundled codec, reloaded while the file is as the constructor read it (empty, missing
  where that is allowed, or with a document): \<open>Reload\<close> succeeds and the source holds the same document.
\<close>
lemma reload_agrees_with_constructor:
  assumes "newFileSource cs parseErr fe p opts = Inr s" and "fsCodec s \<in> set (bundledCodecs P)"
  shows "fst (fileReload (feOpen fe (fsResolved s)) s) = None
    \<and> Document (snd (fileReload (feOpen fe (fsResolved s)) s)) = Document s
    \<and> msData (fsMap (snd (fileReload (feOpen fe (fsResolved s)) s))) = msData (fsMap s)"
proof -
  have codec: "fcDecode (fsCodec s) \<in> {yamlDecode (paSprint P) (paYAML P), tomlDecode (paSprint P) (paTOML P), jsoncDecode (paJSONC P),
      jsonDecode (paJSON P), dotenvDecode (paDotenv P)}"
    using assms(2) by (auto simp: bundledCodecs_def YAML_def TOML_def JSONC_def JSON_def Dotenv_def)
  then show ?thesis
    using yaml_codec.reload_unchanged[OF assms(1)] toml_codec.reload_unchanged[OF assms(1)]
      jsonc_codec.reload_unchanged[OF assms(1)] json_codec.reload_unchanged[OF assms(1)]
      dotenv_codec.reload_unchanged[OF assms(1)] by blast
qed

end
