(* ===== verification/Spec2Isabelle.thy ===== *)
theory Spec2Isabelle
  imports MapSource SourceUse BindSecrets Save ShellPath PollWatch ScanInts FileSource Remote Live PerSource
    Errors Options JsonCodec Formats Schema Configs Bundled
begin

text \<open>
  A model of recon, a Go library that reads configuration from many sources into one registry, and the
  theorems that make it correct. All file names are those of \<open>src/\<close>.

  \<^bold>\<open>The program.\<close> A registry (\<open>registry.go\<close>) holds a chain of sources, explicit values, defaults, aliases and
  pins. From them it builds a frozen snapshot (\<open>snapshot.go\<close>): for each key the first layer that has a value
  wins (\<open>precedence.go\<close>), keys meaning the same thing through aliases (\<open>alias.go\<close>). Typed getters
  (\<open>registry_get.go\<close>) and \<open>Bind\<close> (\<open>bind_walker.go\<close>) read the snapshot; every write rebuilds it and is taken back when
  the candidate violates an immutable key or the schema. Sources come from files and codecs, the
  environment, flags, maps or remote stores. The watch engine (\<open>watch.go\<close>) turns their change reports into
  reloads and events; \<open>Live\<close> keeps a struct bound to them and \<open>Configs\<close> collects the events of several
  registries.

  \<^bold>\<open>Theories and code.\<close>
  \<^item> \<open>Prelude\<close>: Go strings as byte lists, \<open>map[string]T\<close> as association lists sorted by key (\<open>gomap\<close>, an
    interpretation of the locale \<open>finite_map\<close>), copies made on the first change, channels that drop
    (locale \<open>lossy_channel\<close>). \<open>GoStrings\<close>, \<open>GoStrconv\<close>, \<open>GoUtf8\<close>, \<open>GoPath\<close>, \<open>Float64\<close>: the parts of the
    standard library that the code uses; a \<open>float64\<close> is its bit pattern, an \<open>int64\<close> a 64-bit word.
  \<^item> \<open>Path\<close>, \<open>Alias\<close>, \<open>Value\<close>, \<open>Source\<close>, \<open>Precedence\<close>, \<open>Snapshot\<close>: \<open>path.go\<close>, \<open>alias.go\<close>, \<open>value.go\<close>, \<open>source.go\<close>,
    \<open>precedence.go\<close>, \<open>snapshot.go\<close>. \<open>SnapshotRead\<close>, \<open>SnapshotBuild\<close> and \<open>SnapshotProps\<close> show what reading and
    building a snapshot compute.
  \<^item> \<open>Registry\<close>: \<open>registry.go\<close>, \<open>registry_set.go\<close>, \<open>registry_sub.go\<close>, the marks of \<open>registry_describe.go\<close> and the bound
    paths of \<open>registry_bind.go\<close>. One record is \<open>registryState\<close>, one function each operation, with the lock held.
    \<open>RegistryInv\<close>, \<open>RegistrySteps\<close>, \<open>RegistryProps\<close>, \<open>RegistryTheorems\<close>: the invariant, the reachable registries
    and their properties.
  \<^item> \<open>RegistryGet\<close> (\<open>registry_get.go\<close>), \<open>Tags\<close> (\<open>tags.go\<close>), \<open>Coerce\<close> and \<open>CoerceProps\<close> (\<open>coerce.go\<close>), \<open>Expand\<close>
    (\<open>expand.go\<close>), \<open>Bind\<close>, \<open>BindProps\<close> and \<open>BindSecrets\<close> (\<open>bind_walker.go\<close>, \<open>registry_bind.go\<close>), \<open>Transforms\<close>
    (\<open>transforms.go\<close>), \<open>PerSource\<close> (\<open>per_source.go\<close>). A Go type is a finite term \<open>gtype\<close>, a variable of it a
    \<open>gval\<close>; a conversion gives its result or its error, and \<open>coerceLeft\<close> what a failed one leaves behind.
  \<^item> \<open>MapSource\<close>, \<open>EnvSource\<close>, \<open>FileSource\<close>, \<open>Remote\<close>: the sources (\<open>source_map.go\<close>; \<open>source_env.go\<close>,
    \<open>source_envfamily.go\<close>, \<open>source_flag.go\<close>; \<open>source_file.go\<close>, \<open>source_filefs.go\<close>, \<open>source_buffer.go\<close>, \<open>source_stdin.go\<close>,
    \<open>source_format_named.go\<close>, \<open>read_file.go\<close>; \<open>source_remote.go\<close>, \<open>remote_inmemory.go\<close>). \<open>SourceUse\<close> draws from the
    contract of a source (locale \<open>source_contract\<close>) what the registry gets. \<open>ShellPath\<close> is \<open>path_expansion.go\<close>,
    \<open>PollWatch\<close> is \<open>watcher_poll.go\<close>.
  \<^item> \<open>Codec\<close> (\<open>codec.go\<close>, \<open>format.go\<close>, \<open>codec_error.go\<close>, \<open>parse_position.go\<close>), \<open>ScanInts\<close> (\<open>scan_ints.go\<close>), \<open>JsonCodec\<close>
    (\<open>codec_json.go\<close>, \<open>codec_jsonc.go\<close>), \<open>Formats\<close> (\<open>codec_shape.go\<close>, \<open>codec_yaml.go\<close>, \<open>codec_toml.go\<close>,
    \<open>codec_dotenv.go\<close>), \<open>Schema\<close> (\<open>validator_jsonschema.go\<close>), \<open>Bundled\<close> (\<open>recon.go\<close>, \<open>RawValue.Decode\<close>): formats.
    The contract of a codec with an empty document is the locale \<open>empty_document\<close>, which all five bundled
    codecs interpret.
  \<^item> \<open>Save\<close> (\<open>registry_save.go\<close>, the descriptions of \<open>registry_describe.go\<close>), \<open>Errors\<close> (\<open>errors.go\<close>, \<open>format_error.go\<close>,
    the redaction of \<open>registry.go\<close>), \<open>Options\<close> (\<open>options*.go\<close>, the constructors of \<open>registry.go\<close>).
  \<^item> \<open>Watch\<close> (\<open>watch.go\<close>, \<open>events.go\<close>), \<open>Live\<close> (\<open>live.go\<close>), \<open>Configs\<close> (\<open>configs.go\<close>): goroutines as the steps of an
    inductive relation, one step for what happens without giving up control.
\<close>

text \<open>
  \<^bold>\<open>What is shown.\<close>
  \<^item> Registry: every reachable registry has the installed snapshot its layers build, an acyclic alias
    graph and no two sources of one name; a rejected operation changes no layer and no snapshot; after \<open>Set\<close> of
    a value that is no nonempty map under a key that is not an alias, \<open>Get\<close> gives the value; immutable baselines
    are kept; what \<open>Close\<close> leaves possible is stated operation by operation. The options that edit the codec set act in
    the order in which they are written.
  \<^item> Resolution: \<open>buildSnapshot\<close> implements the specification of resolution key by key; a path reads back from
    its text; alias chains end at the canonical key and the cycle check is characterised exactly.
  \<^item> Typed reads: integers set are integers read, floats convert to integers exactly or not at all, a bind
    leaves a well-typed struct also where it fails, reports each required field without a value and marks each
    secret key; which types and keys are secret is specified apart from the code's plans (\<open>holdsSecrets\<close>,
    \<open>secretKey\<close>).
  \<^item> Secrets: saved documents, descriptions and error texts do not depend on what is secret, nor does the report
    of \<open>FormatError\<close> unless a secret cause wraps an error of several or of a missing or empty value; each stated as equality of the outputs for two inputs that differ in secrets only.
  \<^item> Sources and formats: a file source holds the last readable document; a pushed remote source comes to
    rest with the backend's keys; a key listed by a map, a family of variables or flags has a value; \<open>SaveTo\<close> replaces a file whole or not at all; a
    JSON document decodes to its value or to the error of its first fault, and JSONC gives the same value;
    YAML takes one document and keeps integers of any size; what TOML cannot hold is written as text; schema
    violations name the paths their pointers name.
  \<^item> Liveness and channels: a change a source reports is reloaded; an event is delivered or counted; \<open>Live\<close>
    catches up with the last reload that was not dropped; \<open>Configs\<close> loses no event before it is stopped and closes
    every registry registered before \<open>Close\<close> began.

  Where the code does not do what it says, a lemma of the theory proves the divergence on a concrete input
  (for example \<open>late_registration_can_panic\<close>, \<open>format_shows_hidden_multi\<close>, \<open>reload_lost\<close>, \<open>gap_unseen\<close>).

  \<^bold>\<open>Bounds and fuel.\<close> The walk along aliases stops after \<open>maxAliasDepth\<close> (32) links and the resolution of symbolic links
  after 40, as in the code; in an acyclic graph of at most 32 aliases \<open>resolveAliasChain\<close> ends at the canonical
  key. Nesting of JSON is limited to 10000 as in the code. The readers of JSON have as
  fuel one more than the number of tokens: each value reads one token at least, so the branch
  for exhausted fuel is never taken (\<open>jsonWalk_returns\<close>). The other loops are recursions with a termination proof.
  The rest the liveness theorems speak of is reached because every internal step lowers a measure of the
  work to do.

  \<^bold>\<open>Parameters.\<close> The parsers of the formats (\<open>encoding/json\<close> and the third-party packages), \<open>jsonschema\<close>, the file
  system, the environment, the clock, \<open>%q\<close>, \<open>fmt.Sprint\<close>, the text of floats and times, the decoding hooks of types and
  remote backends other than the in-memory one are arguments. A Go map is sorted by key;
  where the code ranges over a map and the order shows, the text at the definition says so.

  \<^bold>\<open>Not modelled.\<close> \<open>save_unix.go\<close> and \<open>save_other.go\<close> are calls of the operating system; \<open>secret.go\<close>, \<open>validator.go\<close>,
  \<open>watcher.go\<close> and \<open>doc.go\<close> declare types and interfaces; the watcher over file notifications lives in a
  separate package; \<open>WithLogger\<close> and \<open>WithDecodeContext\<close> store a logger and a context that no modelled result depends on;
  \<open>countLeaves\<close> sizes an allocation; the identity of error pointers and recursive Go types are left out.
\<close>

end
